(* ===== verification/Prelude.thy ===== *)
theory Prelude
  imports Main "HOL-Library.Multiset" "HOL-Library.Char_ord" "HOL-Library.List_Lexorder"
    "HOL-Library.Word"
begin

text \<open>
  Shared vocabulary of the development: the result type of fallible Go functions, the parts of
  Go's \<^verbatim>\<open>strings\<close> and \<^verbatim>\<open>regexp\<close> packages that the sources use, and the generic lemmas
  about lists that the component theories rest on.

  A Go string is a byte string, and so is an Isabelle \<open>string\<close> (a list of 8-bit characters);
  \<open>length\<close>, indexing and \<open><\<close> (with \<open>Char_ord\<close> and \<open>List_Lexorder\<close>) are the byte-wise
  operations of Go.
\<close>

section \<open>Collections and types\<close>

named_theorems go_string_simps \<open>rewrite rules for the string operations of the sources\<close>
named_theorems splits_intro \<open>how the splitting functions act on a string in canonical form\<close>

text \<open>\<open>Inl\<close> carries the error of a Go function that returns \<^verbatim>\<open>(T, error)\<close>, \<open>Inr\<close> its value.\<close>

type_synonym ('e, 'a) result = "'e + 'a"

section \<open>Go's strings package\<close>

text \<open>\<^verbatim>\<open>strings.IndexByte\<close>; \<open>None\<close> is Go's \<open>-1\<close>.\<close>

fun IndexByte :: "string \<Rightarrow> char \<Rightarrow> nat option" where
  "IndexByte [] c = None"
| "IndexByte (x # xs) c = (if x = c then Some 0 else map_option Suc (IndexByte xs c))"

text \<open>\<^verbatim>\<open>strings.LastIndexByte\<close>; \<open>None\<close> is Go's \<open>-1\<close>.\<close>

fun LastIndexByte :: "string \<Rightarrow> char \<Rightarrow> nat option" where
  "LastIndexByte [] c = None"
| "LastIndexByte (x # xs) c =
     (case LastIndexByte xs c of
        Some i \<Rightarrow> Some (Suc i)
      | None \<Rightarrow> if x = c then Some 0 else None)"

text \<open>
  \<^verbatim>\<open>strings.Cut\<close> for a one-byte separator: the text before and after its first occurrence, and
  whether it was found.
\<close>

definition Cut :: "string \<Rightarrow> char \<Rightarrow> string \<times> string \<times> bool" where
  "Cut s c =
     (case IndexByte s c of
        None \<Rightarrow> (s, [], False)
      | Some i \<Rightarrow> (take i s, drop (i + 1) s, True))"

text \<open>\<^verbatim>\<open>strings.HasPrefix\<close>.\<close>

fun HasPrefix :: "string \<Rightarrow> string \<Rightarrow> bool" where
  "HasPrefix s [] = True"
| "HasPrefix [] (p # ps) = False"
| "HasPrefix (x # xs) (p # ps) = (x = p \<and> HasPrefix xs ps)"

lemma IndexByte_None [simp]: "IndexByte s c = None \<longleftrightarrow> c \<notin> set s"
  by (induction s) auto

lemma LastIndexByte_None [simp]: "LastIndexByte s c = None \<longleftrightarrow> c \<notin> set s"
  by (induction s) (auto split: option.splits)

lemma IndexByte_append [simp]: "c \<notin> set xs \<Longrightarrow> IndexByte (xs @ c # ys) c = Some (length xs)"
  by (induction xs) auto

lemma LastIndexByte_append [simp]: "c \<notin> set ys \<Longrightarrow> LastIndexByte (xs @ c # ys) c = Some (length xs)"
  by (induction xs) (auto split: option.splits)

lemma Cut_append [simp]: "c \<notin> set xs \<Longrightarrow> Cut (xs @ c # ys) c = (xs, ys, True)"
  by (simp add: Cut_def)

lemma Cut_not_found [simp]: "c \<notin> set s \<Longrightarrow> Cut s c = (s, [], False)"
  by (simp add: Cut_def flip: IndexByte_None)

lemma HasPrefix_iff: "HasPrefix s p \<longleftrightarrow> (\<exists>t. s = p @ t)"
  by (induction s p rule: HasPrefix.induct) auto

text \<open>A string that holds \<open>c\<close> splits at its first, and at its last, occurrence.\<close>

lemma split_first:
  assumes "c \<in> set s"
  obtains xs ys where "s = xs @ c # ys" and "c \<notin> set xs"
  using split_list_first [OF assms] by blast

lemma split_last:
  assumes "c \<in> set s"
  obtains xs ys where "s = xs @ c # ys" and "c \<notin> set ys"
  using split_list_last [OF assms] by blast

section \<open>Regular expressions\<close>

text \<open>
  The patterns of the sources are sequences of one-or-more runs over a negated character class
  and literal bytes, anchored at both ends (Go's \<^verbatim>\<open>$\<close> without the \<^verbatim>\<open>m\<close> flag is the end of the
  text). The classes exclude ASCII characters only, so matching runes and matching bytes agree.
\<close>

datatype re_item = Plus "char \<Rightarrow> bool" | Lit char

fun re_match :: "re_item list \<Rightarrow> string \<Rightarrow> bool" where
  "re_match [] s = (s = [])"
| "re_match (Lit c # r) s = (case s of [] \<Rightarrow> False | x # xs \<Rightarrow> x = c \<and> re_match r xs)"
| "re_match (Plus p # r) s =
     (case s of [] \<Rightarrow> False | x # xs \<Rightarrow> p x \<and> (re_match r xs \<or> re_match (Plus p # r) xs))"

text \<open>Go's \<^verbatim>\<open>\s\<close>: tab, newline, form feed, carriage return and space.\<close>

definition is_space :: "char \<Rightarrow> bool" where
  "is_space c \<longleftrightarrow> c \<in> {CHR 0x09, CHR 0x0A, CHR 0x0C, CHR 0x0D, CHR '' ''}"

lemma re_match_Plus:
  "re_match (Plus p # r) s \<longleftrightarrow> (\<exists>xs ys. s = xs @ ys \<and> xs \<noteq> [] \<and> (\<forall>c\<in>set xs. p c) \<and> re_match r ys)"
    (is "_ \<longleftrightarrow> ?R s")
proof (induction s)
  case Nil
  show ?case by simp
next
  case (Cons x s)
  show ?case
  proof
    assume m: "re_match (Plus p # r) (x # s)"
    then have x: "p x" by simp
    from m consider "re_match r s" | "re_match (Plus p # r) s" by auto
    then show "?R (x # s)"
    proof cases
      case 1
      then have "x # s = [x] @ s \<and> [x] \<noteq> [] \<and> (\<forall>c\<in>set [x]. p c) \<and> re_match r s"
        using x by simp
      then show ?thesis by blast
    next
      case 2
      then obtain xs ys where "s = xs @ ys" "xs \<noteq> []" "\<forall>c\<in>set xs. p c" "re_match r ys"
        using Cons by blast
      then have "x # s = (x # xs) @ ys \<and> x # xs \<noteq> [] \<and> (\<forall>c\<in>set (x # xs). p c) \<and> re_match r ys"
        using x by simp
      then show ?thesis by blast
    qed
  next
    assume "?R (x # s)"
    then obtain xs ys where s: "x # s = xs @ ys" and ne: "xs \<noteq> []" and p: "\<forall>c\<in>set xs. p c"
      and r: "re_match r ys" by blast
    then obtain zs where xs: "xs = x # zs" by (cases xs) auto
    show "re_match (Plus p # r) (x # s)"
    proof (cases "zs = []")
      case True
      with s xs p r show ?thesis by simp
    next
      case False
      with s xs p r Cons have "re_match (Plus p # r) s" by auto
      with xs p show ?thesis by simp
    qed
  qed
qed

lemma re_match_Lit: "re_match (Lit c # r) s \<longleftrightarrow> (\<exists>ys. s = c # ys \<and> re_match r ys)"
  by (cases s) auto

lemma re_match_Plus_end: "re_match [Plus p] s \<longleftrightarrow> s \<noteq> [] \<and> (\<forall>c\<in>set s. p c)"
  by (auto simp only: re_match_Plus re_match.simps(1) append_Nil2)

declare re_match.simps(3) [simp del]

text \<open>The two shapes of pattern with more than one run.\<close>

lemma re_match_two:
  "re_match [Plus p, Lit c, Plus q] s \<longleftrightarrow>
     (\<exists>xs ys. s = xs @ c # ys \<and> xs \<noteq> [] \<and> ys \<noteq> [] \<and> (\<forall>x\<in>set xs. p x) \<and> (\<forall>y\<in>set ys. q y))"
  by (simp only: re_match_Plus [of p "Lit c # [Plus q]"] re_match_Lit re_match_Plus_end) blast

lemma re_match_three:
  "re_match [Plus p, Lit c, Plus q, Lit d, Plus r] s \<longleftrightarrow>
     (\<exists>xs ys zs. s = xs @ c # ys @ d # zs \<and> xs \<noteq> [] \<and> ys \<noteq> [] \<and> zs \<noteq> [] \<and>
        (\<forall>x\<in>set xs. p x) \<and> (\<forall>y\<in>set ys. q y) \<and> (\<forall>z\<in>set zs. r z))"
  by (simp only: re_match_Plus [of p "Lit c # _"] re_match_Lit re_match_two) blast

section \<open>Decimal numbers\<close>

text \<open>
  \<^verbatim>\<open>strconv.Itoa\<close> and \<^verbatim>\<open>strconv.ParseInt(s, 10, bits)\<close> (\<^verbatim>\<open>strconv.Atoi\<close> is the case of 64 bits): an
  optional sign, at least one digit, and a value that fits the given number of bits.
\<close>

definition digit_char :: "nat \<Rightarrow> char" where
  "digit_char d = char_of (48 + d)"

definition digit_val :: "char \<Rightarrow> nat option" where
  "digit_val c = (let n = of_char c :: nat in if 48 \<le> n \<and> n \<le> 57 then Some (n - 48) else None)"

fun utoa :: "nat \<Rightarrow> string" where
  "utoa n = (if n < 10 then [digit_char n] else utoa (n div 10) @ [digit_char (n mod 10)])"

declare utoa.simps [simp del]

definition Itoa :: "int \<Rightarrow> string" where
  "Itoa i = (if i < 0 then CHR ''-'' # utoa (nat (- i)) else utoa (nat i))"

fun atou :: "nat \<Rightarrow> string \<Rightarrow> nat option" where
  "atou acc [] = Some acc"
| "atou acc (c # cs) =
     (case digit_val c of None \<Rightarrow> None | Some d \<Rightarrow> atou (10 * acc + d) cs)"

definition ParseInt :: "nat \<Rightarrow> string \<Rightarrow> int option" where
  "ParseInt bits s =
     (let (neg, ds) =
        (case s of
           [] \<Rightarrow> (False, [])
         | c # cs \<Rightarrow> if c = CHR ''-'' then (True, cs) else if c = CHR ''+'' then (False, cs)
                    else (False, s))
      in if ds = [] then None
         else case atou 0 ds of
                None \<Rightarrow> None
              | Some n \<Rightarrow>
                  let v = (if neg then - int n else int n)
                  in if - (2 ^ (bits - 1)) \<le> v \<and> v < 2 ^ (bits - 1) then Some v else None)"

definition Atoi :: "string \<Rightarrow> int option" where
  "Atoi s = ParseInt 64 s"

text \<open>The value of a Go \<^verbatim>\<open>int\<close> expression: arithmetic wraps around at 64 bits.\<close>

definition go_int :: "int \<Rightarrow> int" where
  "go_int x = (x + 2 ^ 63) mod 2 ^ 64 - 2 ^ 63"

lemma digit_val_digit_char [simp]: "d < 10 \<Longrightarrow> digit_val (digit_char d) = Some d"
  by (simp add: digit_val_def digit_char_def of_char_of)

lemma digit_val_sign: "digit_val (CHR ''-'') = None" "digit_val (CHR ''+'') = None"
  by (simp_all add: digit_val_def)

lemma digit_char_not_sign [simp]:
  "d < 10 \<Longrightarrow> digit_char d \<noteq> CHR ''-''" "d < 10 \<Longrightarrow> digit_char d \<noteq> CHR ''+''"
  by (metis digit_val_digit_char digit_val_sign(1) option.distinct(1),
      metis digit_val_digit_char digit_val_sign(2) option.distinct(1))

lemma atou_append: "atou acc (xs @ ys) = (case atou acc xs of None \<Rightarrow> None | Some a \<Rightarrow> atou a ys)"
  by (induction xs arbitrary: acc) (auto split: option.splits)

lemma atou_utoa [simp]: "atou 0 (utoa n) = Some n"
proof (induction n rule: utoa.induct)
  case (1 n)
  then show ?case
    by (cases "n < 10") (simp_all add: utoa.simps [of n] atou_append)
qed

lemma utoa_not_Nil [simp]: "utoa n \<noteq> []"
  by (subst utoa.simps) simp

lemma utoa_hd [simp]: "hd (utoa n) \<noteq> CHR ''-''" "hd (utoa n) \<noteq> CHR ''+''"
  by (induction n rule: utoa.induct; subst utoa.simps; simp add: hd_append)+

lemma ParseInt_Itoa:
  "0 \<le> i \<Longrightarrow> i < 2 ^ (bits - 1) \<Longrightarrow> ParseInt bits (Itoa i) = Some i"
  using utoa_hd [of "nat i"] utoa_not_Nil [of "nat i"] atou_utoa [of "nat i"]
  by (cases "utoa (nat i)")
     (auto simp: ParseInt_def Itoa_def Let_def intro: order_trans [of _ 0])

lemma Atoi_Itoa [simp]: "0 \<le> i \<Longrightarrow> i < 2 ^ 63 \<Longrightarrow> Atoi (Itoa i) = Some i"
  by (simp add: Atoi_def ParseInt_Itoa)

lemma Itoa_not_Nil [simp]: "Itoa i \<noteq> []"
  by (simp add: Itoa_def)

lemma go_int_id [simp]: "- (2 ^ 63) \<le> x \<Longrightarrow> x < 2 ^ 63 \<Longrightarrow> go_int x = x"
  by (simp add: go_int_def)

end
