(* ===== verification/Tuples.thy ===== *)
theory Tuples
  imports Prelude "HOL-Library.Product_Lexorder"
begin

text \<open>
  Package \<^verbatim>\<open>pkg/tuple\<close>: relationship tuples, the string forms of objects, usersets and users,
  the functions that split, build, validate and parse them, and the order in which tuples are
  sorted for cache keys. The protocol buffer messages become records and datatypes; a nil
  pointer is \<open>None\<close> and the generated getters, which read a nil message as its empty value,
  are written out where the code calls them on a pointer that may be nil.
\<close>

section \<open>Data\<close>

text \<open>
  \<^verbatim>\<open>structpb.Value\<close> and \<^verbatim>\<open>structpb.Struct\<close>. A number is kept as the 64 bits of its float64
  representation; a struct lists its fields (the keys of a Go map are distinct).
\<close>

datatype pvalue =
    KindUnset
  | NullValue
  | NumberValue "64 word"
  | StringValue string
  | BoolValue bool
  | StructValue "(string \<times> pvalue) list"
  | ListValue "pvalue list"

type_synonym pstruct = "(string \<times> pvalue) list"

record rel_condition =
  cond_name :: string
  cond_context :: "pstruct option"

text \<open>
  \<open>tuple_key_nc\<close> is the shape shared by \<^verbatim>\<open>TupleKeyWithoutCondition\<close>, \<^verbatim>\<open>CheckRequestTupleKey\<close>,
  \<^verbatim>\<open>ReadRequestTupleKey\<close> and \<^verbatim>\<open>AssertionTupleKey\<close>; a \<^verbatim>\<open>TupleKey\<close> extends it with an optional
  condition. The extension mirrors the Go interfaces: what takes a \<^verbatim>\<open>TupleWithoutCondition\<close>
  takes any \<open>'a tuple_key_nc_scheme\<close>.
\<close>

record tuple_key_nc =
  tk_object :: string
  tk_relation :: string
  tk_user :: string

record tuple_key = tuple_key_nc +
  tk_condition :: "rel_condition option"

text \<open>The generated getters \<^verbatim>\<open>GetCondition().GetName()\<close> and \<^verbatim>\<open>GetCondition().GetContext()\<close>.\<close>

definition GetConditionName :: "rel_condition option \<Rightarrow> string" where
  "GetConditionName c = (case c of None \<Rightarrow> [] | Some rc \<Rightarrow> cond_name rc)"

definition GetConditionContext :: "rel_condition option \<Rightarrow> pstruct option" where
  "GetConditionContext c = (case c of None \<Rightarrow> None | Some rc \<Rightarrow> cond_context rc)"

datatype UserType = User | UserSet

definition Wildcard :: string where
  "Wildcard = ''*''"

text \<open>\<^verbatim>\<open>openfgav1.User\<close>, a oneof; \<open>UserUnset\<close> is a message whose oneof is not set.\<close>

datatype user_proto =
    UserObject string string
  | UserUserset string string string
  | UserWildcard string
  | UserUnset

section \<open>Conversions and constructors\<close>

definition ConvertCheckRequestTupleKeyToTupleKey :: "tuple_key_nc \<Rightarrow> tuple_key" where
  "ConvertCheckRequestTupleKeyToTupleKey tk =
     \<lparr>tk_object = tk_object tk, tk_relation = tk_relation tk, tk_user = tk_user tk,
      tk_condition = None\<rparr>"

definition ConvertAssertionTupleKeyToTupleKey :: "tuple_key_nc \<Rightarrow> tuple_key" where
  "ConvertAssertionTupleKeyToTupleKey tk =
     \<lparr>tk_object = tk_object tk, tk_relation = tk_relation tk, tk_user = tk_user tk,
      tk_condition = None\<rparr>"

definition ConvertReadRequestTupleKeyToTupleKey :: "tuple_key_nc \<Rightarrow> tuple_key" where
  "ConvertReadRequestTupleKeyToTupleKey tk =
     \<lparr>tk_object = tk_object tk, tk_relation = tk_relation tk, tk_user = tk_user tk,
      tk_condition = None\<rparr>"

definition TupleKeyToTupleKeyWithoutCondition :: "tuple_key \<Rightarrow> tuple_key_nc" where
  "TupleKeyToTupleKeyWithoutCondition tk =
     \<lparr>tk_object = tk_object tk, tk_relation = tk_relation tk, tk_user = tk_user tk\<rparr>"

definition TupleKeyWithoutConditionToTupleKey :: "tuple_key_nc \<Rightarrow> tuple_key" where
  "TupleKeyWithoutConditionToTupleKey tk =
     \<lparr>tk_object = tk_object tk, tk_relation = tk_relation tk, tk_user = tk_user tk,
      tk_condition = None\<rparr>"

definition TupleKeysWithoutConditionToTupleKeys :: "tuple_key_nc list \<Rightarrow> tuple_key list" where
  "TupleKeysWithoutConditionToTupleKeys tks = map TupleKeyWithoutConditionToTupleKey tks"

definition NewTupleKey :: "string \<Rightarrow> string \<Rightarrow> string \<Rightarrow> tuple_key" where
  "NewTupleKey ob rel usr =
     \<lparr>tk_object = ob, tk_relation = rel, tk_user = usr, tk_condition = None\<rparr>"

definition NewRelationshipCondition :: "string \<Rightarrow> pstruct option \<Rightarrow> rel_condition option" where
  "NewRelationshipCondition name ctx =
     (if name = [] then None
      else case ctx of
             None \<Rightarrow> Some \<lparr>cond_name = name, cond_context = Some []\<rparr>
           | Some c \<Rightarrow> Some \<lparr>cond_name = name, cond_context = Some c\<rparr>)"

definition NewTupleKeyWithCondition ::
    "string \<Rightarrow> string \<Rightarrow> string \<Rightarrow> string \<Rightarrow> pstruct option \<Rightarrow> tuple_key" where
  "NewTupleKeyWithCondition ob rel usr conditionName ctx =
     \<lparr>tk_object = ob, tk_relation = rel, tk_user = usr,
      tk_condition = NewRelationshipCondition conditionName ctx\<rparr>"

definition NewAssertionTupleKey :: "string \<Rightarrow> string \<Rightarrow> string \<Rightarrow> tuple_key_nc" where
  "NewAssertionTupleKey ob rel usr = \<lparr>tk_object = ob, tk_relation = rel, tk_user = usr\<rparr>"

definition NewCheckRequestTupleKey :: "string \<Rightarrow> string \<Rightarrow> string \<Rightarrow> tuple_key_nc" where
  "NewCheckRequestTupleKey ob rel usr = \<lparr>tk_object = ob, tk_relation = rel, tk_user = usr\<rparr>"

section \<open>Splitting and building\<close>

text \<open>\<^verbatim>\<open>object[0:i]\<close> is \<open>take i\<close>, \<^verbatim>\<open>object[i+1:]\<close> is \<open>drop (i + 1)\<close>.\<close>

definition SplitObject :: "string \<Rightarrow> string \<times> string" where
  "SplitObject ob =
     (case IndexByte ob (CHR '':'') of
        None \<Rightarrow> ([], ob)
      | Some i \<Rightarrow> if i = length ob - 1 then (take i ob, [])
                 else (take i ob, drop (i + 1) ob))"

definition BuildObject :: "string \<Rightarrow> string \<Rightarrow> string" where
  "BuildObject objectType objectID = objectType @ '':'' @ objectID"

definition ObjectKey :: "string \<times> string \<Rightarrow> string" where
  "ObjectKey obj = BuildObject (fst obj) (snd obj)"

definition SplitObjectRelation :: "string \<Rightarrow> string \<times> string" where
  "SplitObjectRelation objectRelation =
     (case LastIndexByte objectRelation (CHR ''#'') of
        None \<Rightarrow> (objectRelation, [])
      | Some i \<Rightarrow> if i = length objectRelation - 1 then (take i objectRelation, [])
                 else (take i objectRelation, drop (i + 1) objectRelation))"

definition GetType :: "string \<Rightarrow> string" where
  "GetType objectID = fst (SplitObject objectID)"

definition GetRelation :: "string \<Rightarrow> string" where
  "GetRelation objectRelation = snd (SplitObjectRelation objectRelation)"

text \<open>An \<^verbatim>\<open>openfgav1.ObjectRelation\<close> is the pair of its object and its relation.\<close>

type_synonym object_relation = "string \<times> string"

definition GetObjectRelationAsString :: "object_relation \<Rightarrow> string" where
  "GetObjectRelationAsString objrel =
     (if snd objrel \<noteq> [] then fst objrel @ ''#'' @ snd objrel else fst objrel)"

definition ToObjectRelationString :: "string \<Rightarrow> string \<Rightarrow> string" where
  "ToObjectRelationString ob rel = ob @ ''#'' @ rel"

definition IsObjectRelation :: "string \<Rightarrow> bool" where
  "IsObjectRelation userset \<longleftrightarrow> GetType userset \<noteq> [] \<and> GetRelation userset \<noteq> []"

definition IsTypedWildcard :: "string \<Rightarrow> bool" where
  "IsTypedWildcard s = (let (t, i) = SplitObject s in t \<noteq> [] \<and> i = Wildcard)"

definition IsWildcard :: "string \<Rightarrow> bool" where
  "IsWildcard s \<longleftrightarrow> s = Wildcard \<or> IsTypedWildcard s"

definition TypedPublicWildcard :: "string \<Rightarrow> string" where
  "TypedPublicWildcard objectType = BuildObject objectType Wildcard"

definition GetUserTypeFromUser :: "string \<Rightarrow> UserType" where
  "GetUserTypeFromUser usr = (if IsObjectRelation usr \<or> IsWildcard usr then UserSet else User)"

text \<open>\<open>None\<close> is the panic on an unsupported type.\<close>

fun UserProtoToString :: "user_proto \<Rightarrow> string option" where
  "UserProtoToString (UserWildcard t) = Some (t @ '':*'')"
| "UserProtoToString (UserUserset t i r) = Some (t @ '':'' @ i @ ''#'' @ r)"
| "UserProtoToString (UserObject t i) = Some (t @ '':'' @ i)"
| "UserProtoToString UserUnset = None"

definition StringToUserProto :: "string \<Rightarrow> user_proto" where
  "StringToUserProto userKey =
     (let (userObj, userRel) = SplitObjectRelation userKey;
          (userObjType, userObjID) = SplitObject userObj
      in if userRel = [] \<and> userObjID = ''*'' then UserWildcard userObjType
         else if userRel = [] then UserObject userObjType userObjID
         else UserUserset userObjType userObjID userRel)"

definition ToUserPartsFromObjectRelation :: "object_relation \<Rightarrow> string \<times> string \<times> string" where
  "ToUserPartsFromObjectRelation u =
     (let (userObjectType, userObjectID) = SplitObject (fst u)
      in (userObjectType, userObjectID, snd u))"

definition ToUserParts :: "string \<Rightarrow> string \<times> string \<times> string" where
  "ToUserParts usr =
     (let (userObject, userRelation) = SplitObjectRelation usr;
          (userObjectType, userObjectID) = SplitObject userObject
      in (userObjectType, userObjectID, userRelation))"

definition FromUserParts :: "string \<Rightarrow> string \<Rightarrow> string \<Rightarrow> string" where
  "FromUserParts userObjectType userObjectID userRelation =
     (let usr = userObjectID;
          usr = (if userObjectType \<noteq> [] then userObjectType @ '':'' @ userObjectID else usr);
          usr = (if userRelation \<noteq> [] then usr @ ''#'' @ userRelation else usr)
      in usr)"

definition IsSelfDefining :: "tuple_key \<Rightarrow> bool" where
  "IsSelfDefining tup =
     (let (userObject, userRelation) = SplitObjectRelation (tk_user tup)
      in tk_relation tup = userRelation \<and> tk_object tup = userObject)"

definition UsersetMatchTypeAndRelation :: "string \<Rightarrow> string \<Rightarrow> string \<Rightarrow> bool" where
  "UsersetMatchTypeAndRelation userset rel typee =
     (let (userObjectType, _, userRelation) = ToUserParts userset
      in rel = userRelation \<and> typee = userObjectType)"

section \<open>String forms, validity and parsing\<close>

definition TupleKeyToString :: "'a tuple_key_nc_scheme \<Rightarrow> string" where
  "TupleKeyToString tk = tk_object tk @ ''#'' @ tk_relation tk @ ''@'' @ tk_user tk"

definition Tuple_String :: "tuple_key \<Rightarrow> string" where
  "Tuple_String tk = tk_object tk @ ''#'' @ tk_relation tk @ ''@'' @ tk_user tk"

definition TupleKeyWithConditionToString :: "tuple_key \<Rightarrow> string" where
  "TupleKeyWithConditionToString tk =
     (let sb = TupleKeyToString tk
      in case tk_condition tk of
           None \<Rightarrow> sb
         | Some c \<Rightarrow> sb @ '' (condition '' @ cond_name c @ '')'')"

definition userIDRegex :: "re_item list" where
  "userIDRegex = [Plus (\<lambda>c. c \<notin> set '':#'' \<and> \<not> is_space c)]"

definition objectRegex :: "re_item list" where
  "objectRegex =
     [Plus (\<lambda>c. c \<notin> set '':#'' \<and> \<not> is_space c), Lit (CHR '':''),
      Plus (\<lambda>c. c \<notin> set ''#:'' \<and> \<not> is_space c)]"

definition userSetRegex :: "re_item list" where
  "userSetRegex =
     [Plus (\<lambda>c. c \<notin> set '':#'' \<and> \<not> is_space c), Lit (CHR '':''),
      Plus (\<lambda>c. c \<notin> set ''#:*'' \<and> \<not> is_space c), Lit (CHR ''#''),
      Plus (\<lambda>c. c \<notin> set '':#*'' \<and> \<not> is_space c)]"

definition relationRegex :: "re_item list" where
  "relationRegex = [Plus (\<lambda>c. c \<notin> set '':#@'' \<and> \<not> is_space c)]"

definition IsValidObject :: "string \<Rightarrow> bool" where
  "IsValidObject s = re_match objectRegex s"

definition IsValidRelation :: "string \<Rightarrow> bool" where
  "IsValidRelation s = re_match relationRegex s"

definition IsValidUser :: "string \<Rightarrow> bool" where
  "IsValidUser usr =
     (if usr = Wildcard \<or> re_match userIDRegex usr \<or> re_match objectRegex usr \<or>
         re_match userSetRegex usr
      then True else False)"

datatype parse_error =
    MissingHash
  | InvalidObjectField
  | MissingAt
  | InvalidRelationField
  | InvalidUserField

definition ParseTupleString :: "string \<Rightarrow> (parse_error, tuple_key) result" where
  "ParseTupleString s =
     (let (ob, rhs, found) = Cut s (CHR ''#'')
      in if \<not> found then Inl MissingHash
         else if \<not> IsValidObject ob then Inl InvalidObjectField
         else let (rel, usr, found) = Cut rhs (CHR ''@'')
              in if \<not> found then Inl MissingAt
                 else if \<not> IsValidRelation rel then Inl InvalidRelationField
                 else if \<not> IsValidUser usr then Inl InvalidUserField
                 else Inr \<lparr>tk_object = ob, tk_relation = rel, tk_user = usr,
                           tk_condition = None\<rparr>)"

text \<open>\<open>None\<close> is the panic.\<close>

definition MustParseTupleString :: "string \<Rightarrow> tuple_key option" where
  "MustParseTupleString s =
     (case ParseTupleString s of Inl _ \<Rightarrow> None | Inr t \<Rightarrow> Some t)"

fun MustParseTupleStrings :: "string list \<Rightarrow> tuple_key list option" where
  "MustParseTupleStrings [] = Some []"
| "MustParseTupleStrings (s # ss) =
     (case MustParseTupleString s of
        None \<Rightarrow> None
      | Some t \<Rightarrow> map_option (Cons t) (MustParseTupleStrings ss))"

text \<open>
  \<^verbatim>\<open>TupleKeys.Less(i, j)\<close> compares the elements \<open>a\<close> and \<open>b\<close> at the two indices of the slice.
\<close>

definition TupleKeys_Less :: "tuple_key \<Rightarrow> tuple_key \<Rightarrow> bool" where
  "TupleKeys_Less a b =
     (if tk_object a \<noteq> tk_object b then tk_object a < tk_object b
      else if tk_relation a \<noteq> tk_relation b then tk_relation a < tk_relation b
      else if tk_user a \<noteq> tk_user b then tk_user a < tk_user b
      else let cond1 = tk_condition a; cond2 = tk_condition b
           in if (cond1 \<noteq> None \<or> cond2 \<noteq> None) \<and> GetConditionName cond1 \<noteq> GetConditionName cond2
              then GetConditionName cond1 < GetConditionName cond2
              else True)"

section \<open>How the splitting functions act\<close>

lemma SplitObject_no_colon [splits_intro]: "CHR '':'' \<notin> set s \<Longrightarrow> SplitObject s = ([], s)"
  by (simp add: SplitObject_def flip: IndexByte_None)

lemma SplitObject_colon [splits_intro]:
  "CHR '':'' \<notin> set t \<Longrightarrow> SplitObject (t @ CHR '':'' # i) = (t, i)"
  by (simp add: SplitObject_def)

lemma SplitObjectRelation_no_hash [splits_intro]:
  "CHR ''#'' \<notin> set s \<Longrightarrow> SplitObjectRelation s = (s, [])"
  by (simp add: SplitObjectRelation_def flip: LastIndexByte_None)

lemma SplitObjectRelation_hash [splits_intro]:
  "CHR ''#'' \<notin> set r \<Longrightarrow> SplitObjectRelation (ob @ CHR ''#'' # r) = (ob, r)"
  by (simp add: SplitObjectRelation_def)

lemma SplitObject_BuildObject [simp]:
  "CHR '':'' \<notin> set t \<Longrightarrow> SplitObject (BuildObject t i) = (t, i)"
  by (simp add: BuildObject_def SplitObject_colon)

lemma BuildObject_inject:
  "CHR '':'' \<notin> set t \<Longrightarrow> CHR '':'' \<notin> set t' \<Longrightarrow>
   BuildObject t i = BuildObject t' i' \<longleftrightarrow> t = t' \<and> i = i'"
  by (metis SplitObject_BuildObject Pair_inject)

lemma GetType_BuildObject [simp]: "CHR '':'' \<notin> set t \<Longrightarrow> GetType (BuildObject t i) = t"
  by (simp add: GetType_def)

lemma BuildObject_SplitObject:
  assumes "CHR '':'' \<in> set s"
  shows "BuildObject (fst (SplitObject s)) (snd (SplitObject s)) = s"
proof -
  from assms obtain t i where "s = t @ CHR '':'' # i" and "CHR '':'' \<notin> set t"
    by (rule split_first)
  then show ?thesis by (simp add: SplitObject_colon BuildObject_def)
qed

lemma SplitObject_type_no_colon [simp]: "CHR '':'' \<notin> set (fst (SplitObject s))"
proof (cases "CHR '':'' \<in> set s")
  case True
  then obtain t i where "s = t @ CHR '':'' # i" and "CHR '':'' \<notin> set t"
    by (rule split_first)
  then show ?thesis by (simp add: SplitObject_colon)
next
  case False
  then show ?thesis by (simp add: SplitObject_no_colon)
qed

lemma SplitObject_eq_iff:
  "t \<noteq> [] \<Longrightarrow> SplitObject s = (t, i) \<longleftrightarrow> CHR '':'' \<notin> set t \<and> s = BuildObject t i"
  by (metis BuildObject_SplitObject SplitObject_BuildObject SplitObject_no_colon
      SplitObject_type_no_colon fst_conv snd_conv)

section \<open>Characterisation of the valid strings\<close>

text \<open>The characters that may occur in a type, an id or a relation.\<close>

definition name_char :: "char \<Rightarrow> bool" where
  "name_char c \<longleftrightarrow> c \<noteq> CHR '':'' \<and> c \<noteq> CHR ''#'' \<and> \<not> is_space c"

lemma class_name:
  "(\<lambda>c. c \<notin> set '':#'' \<and> \<not> is_space c) = name_char"
  "(\<lambda>c. c \<notin> set ''#:'' \<and> \<not> is_space c) = name_char"
  "(\<lambda>c. c \<notin> set '':#*'' \<and> \<not> is_space c) = (\<lambda>c. name_char c \<and> c \<noteq> CHR ''*'')"
  "(\<lambda>c. c \<notin> set ''#:*'' \<and> \<not> is_space c) = (\<lambda>c. name_char c \<and> c \<noteq> CHR ''*'')"
  by (auto simp: name_char_def fun_eq_iff)

lemma IsValidObject_iff:
  "IsValidObject s \<longleftrightarrow>
     (\<exists>t i. s = t @ CHR '':'' # i \<and> t \<noteq> [] \<and> i \<noteq> [] \<and>
            (\<forall>c\<in>set t. name_char c) \<and> (\<forall>c\<in>set i. name_char c))"
  by (simp only: IsValidObject_def objectRegex_def class_name re_match_two)

lemma IsValidRelation_iff:
  "IsValidRelation s \<longleftrightarrow> s \<noteq> [] \<and> (\<forall>c\<in>set s. name_char c \<and> c \<noteq> CHR ''@'')"
  by (auto simp: IsValidRelation_def relationRegex_def re_match_Plus_end name_char_def)

lemma userIDRegex_iff:
  "re_match userIDRegex s \<longleftrightarrow> s \<noteq> [] \<and> (\<forall>c\<in>set s. name_char c)"
  by (simp only: userIDRegex_def class_name re_match_Plus_end)

lemma userSetRegex_iff:
  "re_match userSetRegex s \<longleftrightarrow>
     (\<exists>t i r. s = t @ CHR '':'' # i @ CHR ''#'' # r \<and> t \<noteq> [] \<and> i \<noteq> [] \<and> r \<noteq> [] \<and>
        (\<forall>c\<in>set t. name_char c) \<and> (\<forall>c\<in>set i. name_char c \<and> c \<noteq> CHR ''*'') \<and>
        (\<forall>c\<in>set r. name_char c \<and> c \<noteq> CHR ''*''))"
  by (simp only: userSetRegex_def class_name re_match_three)

text \<open>A valid user is an id, an object or a userset (the wildcard is an id of one character).\<close>

lemma IsValidUser_cases [consumes 1, case_names uid object userset]:
  assumes "IsValidUser u"
  obtains "u \<noteq> []" "\<forall>c\<in>set u. name_char c"
  | t i where "u = t @ CHR '':'' # i" "t \<noteq> []" "i \<noteq> []"
      "\<forall>c\<in>set t. name_char c" "\<forall>c\<in>set i. name_char c"
  | t i r where "u = t @ CHR '':'' # i @ CHR ''#'' # r" "t \<noteq> []" "i \<noteq> []" "r \<noteq> []"
      "\<forall>c\<in>set t. name_char c" "\<forall>c\<in>set i. name_char c \<and> c \<noteq> CHR ''*''"
      "\<forall>c\<in>set r. name_char c \<and> c \<noteq> CHR ''*''"
proof -
  from assms consider "u = Wildcard" | "re_match userIDRegex u" | "IsValidObject u"
    | "re_match userSetRegex u"
    by (auto simp: IsValidUser_def IsValidObject_def split: if_splits)
  then show thesis
  proof cases
    case 1
    then show thesis using that(1) by (simp add: Wildcard_def name_char_def is_space_def)
  next
    case 2
    then show thesis using that(1) by (simp add: userIDRegex_iff)
  next
    case 3
    then show thesis using that(2) by (auto simp: IsValidObject_iff)
  next
    case 4
    then show thesis using that(3) by (auto simp: userSetRegex_iff)
  qed
qed

lemma name_char_sep [simp]: "\<not> name_char (CHR '':'')" "\<not> name_char (CHR ''#'')"
  by (simp_all add: name_char_def)

lemma name_chars_excluded:
  assumes "\<forall>c\<in>set s. name_char c"
  shows "CHR '':'' \<notin> set s" and "CHR ''#'' \<notin> set s"
  using assms by (metis name_char_sep)+

lemma IsValidObject_no_hash: "IsValidObject ob \<Longrightarrow> CHR ''#'' \<notin> set ob"
  by (auto simp: IsValidObject_iff name_chars_excluded)

lemma IsValidRelation_no_at: "IsValidRelation rel \<Longrightarrow> CHR ''@'' \<notin> set rel"
  unfolding IsValidRelation_iff using name_char_sep by blast

lemma IsValidRelation_no_hash: "IsValidRelation rel \<Longrightarrow> CHR ''#'' \<notin> set rel"
  unfolding IsValidRelation_iff using name_char_sep by blast

lemma IsValidObject_split:
  assumes "IsValidObject ob"
  shows "fst (SplitObject ob) \<noteq> []" and "snd (SplitObject ob) \<noteq> []"
    and "BuildObject (fst (SplitObject ob)) (snd (SplitObject ob)) = ob"
  using assms
  by (auto simp: IsValidObject_iff SplitObject_colon BuildObject_def name_chars_excluded)

lemma name_chars_star_excluded:
  assumes "\<forall>c\<in>set s. name_char c \<and> c \<noteq> CHR ''*''"
  shows "CHR '':'' \<notin> set s" and "CHR ''#'' \<notin> set s"
  using assms name_char_sep by blast+

lemmas valid_user_simps =
  SplitObjectRelation_no_hash SplitObject_no_colon SplitObject_colon name_chars_excluded
  name_chars_star_excluded SplitObjectRelation_hash [of _ "_ @ CHR '':'' # _", simplified]

section \<open>Round trips\<close>

text \<open>
  C18: parsing and printing tuples are inverse to each other. A string parses to a tuple exactly
  when it is the printed form of that tuple, the tuple carries no condition, and its object,
  relation and user are all valid; so every valid tuple is recovered from its printed form, and
  no other string is accepted.
\<close>

theorem ParseTupleString_iff:
  "ParseTupleString s = Inr tk \<longleftrightarrow>
     s = TupleKeyToString tk \<and> tk_condition tk = None \<and> IsValidObject (tk_object tk) \<and>
     IsValidRelation (tk_relation tk) \<and> IsValidUser (tk_user tk)"
proof
  assume p: "ParseTupleString s = Inr tk"
  then have "CHR ''#'' \<in> set s"
    by (rule contrapos_pp) (simp add: ParseTupleString_def)
  then obtain ob rhs where s: "s = ob @ CHR ''#'' # rhs" "CHR ''#'' \<notin> set ob"
    by (rule split_first)
  from p have "CHR ''@'' \<in> set rhs"
    by (rule contrapos_pp) (simp add: ParseTupleString_def s)
  then obtain rel usr where rhs: "rhs = rel @ CHR ''@'' # usr" "CHR ''@'' \<notin> set rel"
    by (rule split_first)
  from p show "s = TupleKeyToString tk \<and> tk_condition tk = None \<and> IsValidObject (tk_object tk) \<and>
     IsValidRelation (tk_relation tk) \<and> IsValidUser (tk_user tk)"
    by (auto simp: ParseTupleString_def s rhs TupleKeyToString_def split: if_splits)
next
  assume "s = TupleKeyToString tk \<and> tk_condition tk = None \<and> IsValidObject (tk_object tk) \<and>
     IsValidRelation (tk_relation tk) \<and> IsValidUser (tk_user tk)"
  then show "ParseTupleString s = Inr tk"
    by (simp add: ParseTupleString_def TupleKeyToString_def IsValidObject_no_hash
        IsValidRelation_no_at)
qed

text \<open>The printed form identifies a tuple: keys of maps made from it do not collide.\<close>

lemma append_sep_inject:
  fixes c :: char
  assumes "xs @ c # ys = xs' @ c # ys'" and "c \<notin> set xs" and "c \<notin> set xs'"
  shows "xs = xs' \<and> ys = ys'"
proof -
  from assms(1) have "Cut (xs @ c # ys) c = Cut (xs' @ c # ys') c" by simp
  with assms(2,3) show ?thesis by simp
qed

lemma TupleKeyToString_inject:
  assumes eq: "TupleKeyToString a = TupleKeyToString b"
    and ob: "CHR ''#'' \<notin> set (tk_object a)" "CHR ''#'' \<notin> set (tk_object b)"
    and rel: "CHR ''@'' \<notin> set (tk_relation a)" "CHR ''@'' \<notin> set (tk_relation b)"
  shows "tk_object a = tk_object b \<and> tk_relation a = tk_relation b \<and> tk_user a = tk_user b"
proof -
  from eq have "tk_object a @ CHR ''#'' # (tk_relation a @ CHR ''@'' # tk_user a)
      = tk_object b @ CHR ''#'' # (tk_relation b @ CHR ''@'' # tk_user b)"
    by (simp add: TupleKeyToString_def)
  from append_sep_inject [OF this ob] have "tk_object a = tk_object b"
    and r: "tk_relation a @ CHR ''@'' # tk_user a = tk_relation b @ CHR ''@'' # tk_user b"
    by simp_all
  with append_sep_inject [OF r rel] show ?thesis by simp
qed

text \<open>
  Taking a valid user apart and putting it together again gives the user back, whatever its
  form (an id, a wildcard, an object or a userset).
\<close>

theorem FromUserParts_ToUserParts:
  assumes "IsValidUser u" and "ToUserParts u = (t, i, r)"
  shows "FromUserParts t i r = u"
  using assms
  by (cases rule: IsValidUser_cases)
     (auto simp: ToUserParts_def FromUserParts_def valid_user_simps)

theorem FromUserParts_ToUserParts_witness:
  "FromUserParts ''group'' ''eng'' ''member'' = ''group:eng#member''"
  by (rule FromUserParts_ToUserParts) code_simp+

text \<open>
  \<^verbatim>\<open>StringToUserProto\<close> and \<^verbatim>\<open>UserProtoToString\<close> are inverse on a valid user exactly when the
  user names a type. An untyped user (\<^verbatim>\<open>anne\<close>, \<^verbatim>\<open>*\<close>), which \<^verbatim>\<open>IsValidUser\<close> accepts, does not
  survive the round trip.
\<close>

theorem StringToUserProto_roundtrip:
  assumes "IsValidUser u"
  shows "UserProtoToString (StringToUserProto u) = Some u \<longleftrightarrow> CHR '':'' \<in> set u"
  using assms
  by (cases rule: IsValidUser_cases)
     (auto simp: StringToUserProto_def valid_user_simps)

theorem StringToUserProto_roundtrip_witness:
  "UserProtoToString (StringToUserProto ''anne'') \<noteq> Some ''anne''"
  using StringToUserProto_roundtrip [of "''anne''"] by code_simp

section \<open>The order of tuples\<close>

text \<open>
  \<^verbatim>\<open>TupleKeys.Less\<close> is the (reflexive) lexicographic order of object, relation, user and
  condition name: total, and true in both directions exactly on tuples that agree on these four.
\<close>

theorem TupleKeys_Less_lexicographic:
  "TupleKeys_Less a b \<longleftrightarrow>
     (tk_object a, tk_relation a, tk_user a, GetConditionName (tk_condition a)) \<le>
     (tk_object b, tk_relation b, tk_user b, GetConditionName (tk_condition b))"
  by (auto simp: TupleKeys_Less_def less_eq_prod_def GetConditionName_def Let_def
      less_le split: option.splits)

end
