(* ===== verification/Model.thy ===== *)
theory Model
  imports Tuples
begin

text \<open>
  The authorization model as the server receives it: type definitions with a rewrite for every
  relation, type restrictions, conditions. The messages themselves are protocol buffers; this
  theory holds their fields and the getters on them that the program calls. A repeated field is a
  list, a map field an association list with distinct keys, an unset oneof a constructor of its
  own, and a getter on an unset message gives the zero value, as the generated code does.
\<close>

section \<open>Relation references\<close>

text \<open>
  \<^verbatim>\<open>RelationReference\<close>: a type restriction \<^verbatim>\<open>user\<close>, \<^verbatim>\<open>user:*\<close> or \<^verbatim>\<open>group#member\<close>, possibly with a
  condition.
\<close>

datatype relation_or_wildcard = NoRef | RelationRef string | WildcardRef

record relation_reference =
  rr_type :: string
  rr_ref :: relation_or_wildcard
  rr_condition :: string

definition rr_GetRelation :: "relation_reference \<Rightarrow> string" where
  "rr_GetRelation r = (case rr_ref r of RelationRef rel \<Rightarrow> rel | _ \<Rightarrow> [])"

definition rr_GetWildcard :: "relation_reference \<Rightarrow> bool" where
  "rr_GetWildcard r \<longleftrightarrow> rr_ref r = WildcardRef"

section \<open>Rewrites\<close>

text \<open>
  \<^verbatim>\<open>Userset\<close>. \<open>Unset\<close> is a nil message or one whose oneof is not set. The tupleset of a
  tuple-to-userset is given by its relation, as is a computed userset (the program never reads the
  object field of either).
\<close>

datatype userset =
    Unset
  | This
  | ComputedUserset string
  | TupleToUserset string string
  | Union "userset list"
  | Intersection "userset list"
  | Difference userset userset

text \<open>The number of nodes of a rewrite, a measure for the functions that walk it.\<close>

fun usize :: "userset \<Rightarrow> nat" where
  "usize (Union us) = 2 + sum_list (map usize us)"
| "usize (Intersection us) = 2 + sum_list (map usize us)"
| "usize (Difference base sub) = 2 + usize base + usize sub"
| "usize _ = 1"

lemma usize_pos [simp]: "0 < usize u"
  by (cases u) auto

section \<open>Type definitions, conditions and models\<close>

record relation_metadata =
  directly_related_user_types :: "relation_reference list"

record type_definition =
  td_type :: string
  td_relations :: "(string \<times> userset) list"
  td_metadata :: "(string \<times> relation_metadata) list option"

datatype param_type =
  ParamType string "param_type list"

record condition =
  c_name :: string
  c_expression :: string
  c_parameters :: "(string \<times> param_type) list"

record authorization_model =
  am_id :: string
  am_schema_version :: string
  am_type_definitions :: "type_definition list"
  am_conditions :: "(string \<times> condition) list"

end
