(* ===== verification/Storage.thy ===== *)
theory Storage
  imports Model
begin

text \<open>
  The vocabulary of package \<^verbatim>\<open>pkg/storage\<close>: the errors, the records and tuples of a store, the
  filters and options of its interfaces, and contexts.
\<close>

section \<open>Errors and contexts\<close>

text \<open>
  The error values of the program. A sentinel error is a constructor, \<open>ErrText\<close> an error made from
  a text, \<open>ErrWrap\<close> one made by \<^verbatim>\<open>fmt.Errorf\<close> with the verb \<^verbatim>\<open>%w\<close>, \<open>ErrJoin\<close> one made by
  \<^verbatim>\<open>errors.Join\<close>. \<open>EvaluationError\<close> is what \<^verbatim>\<open>NewEvaluationError\<close> returns: it wraps the cause and
  the sentinel \<open>ErrEvaluationFailed\<close>.
\<close>

datatype err =
    ErrIteratorDone
  | Canceled
  | DeadlineExceeded
  | ErrCollision
  | ErrInvalidContinuationToken
  | ErrInvalidStartTime
  | ErrInvalidWriteInput
  | ErrTransactionalWriteFailed
  | ErrTransactionThrottled
  | ErrNotFound
  | ErrResolutionDepthExceeded
  | ErrShortCircuit
  | ErrPanic
  | NotAscending nat
  | SyntaxError string
  | ErrInvalidSchemaVersion
  | ErrDuplicateTypes
  | ErrInvalidModel
  | ErrModelNotFound
  | ErrRelationUndefined
  | ErrObjectTypeUndefined
  | ErrInvalidUsersetRewrite
  | ErrReservedKeywords
  | ErrCycle
  | ErrNoEntrypoints
  | ErrNoEntryPointsLoop
  | ErrNoConditionForRelation
  | ObjectTypeUndefinedError string
  | RelationUndefinedError string string
  | InvalidTypeError string err
  | InvalidRelationError string string err
  | RelationConditionError string string
  | InvalidTupleError err tuple_key
  | InvalidConditionalTupleError err tuple_key
  | TypeNotFoundError string
  | RelationNotFoundError "tuple_key option" string string
  | ErrUnknown
  | ErrUnknownSetOperator
  | ErrEvaluationFailed
  | CompilationError string err
  | EvaluationError string err
  | ParameterTypeError string err
  | ErrText string
  | ErrWrap string err
  | ErrJoin err err

text \<open>
  \<^verbatim>\<open>errors.Is\<close>: the error, or one it wraps, is the target. The errors of the type system wrap a
  sentinel; those of package \<^verbatim>\<open>tuple\<close> have a method \<^verbatim>\<open>Is\<close> that compares the types.
\<close>

fun errors_Is :: "err \<Rightarrow> err \<Rightarrow> bool" where
  "errors_Is (ErrWrap m e) target = (ErrWrap m e = target \<or> errors_Is e target)"
| "errors_Is (ObjectTypeUndefinedError t) target =
     (target = ObjectTypeUndefinedError t \<or> target = ErrObjectTypeUndefined)"
| "errors_Is (RelationUndefinedError t r) target =
     (target = RelationUndefinedError t r \<or> target = ErrRelationUndefined)"
| "errors_Is (InvalidTypeError t e) target = (target = InvalidTypeError t e \<or> errors_Is e target)"
| "errors_Is (InvalidRelationError t r e) target =
     (target = InvalidRelationError t r e \<or> errors_Is e target)"
| "errors_Is (RelationConditionError c r) target =
     (target = RelationConditionError c r \<or> target = ErrNoConditionForRelation)"
| "errors_Is (InvalidTupleError e tk) target =
     (case target of InvalidTupleError _ _ \<Rightarrow> True | _ \<Rightarrow> False)"
| "errors_Is (InvalidConditionalTupleError e tk) target =
     (case target of InvalidConditionalTupleError _ _ \<Rightarrow> True | _ \<Rightarrow> False)"
| "errors_Is (TypeNotFoundError t) target =
     (case target of TypeNotFoundError _ \<Rightarrow> True | _ \<Rightarrow> False)"
| "errors_Is (RelationNotFoundError tk r t) target =
     (case target of RelationNotFoundError _ _ _ \<Rightarrow> True | _ \<Rightarrow> False)"
| "errors_Is (CompilationError c e) target = (target = CompilationError c e \<or> errors_Is e target)"
| "errors_Is (EvaluationError c e) target =
     (target = EvaluationError c e \<or> target = ErrEvaluationFailed \<or> errors_Is e target)"
| "errors_Is (ParameterTypeError c e) target =
     (target = ParameterTypeError c e \<or> errors_Is e target)"
| "errors_Is (ErrJoin e1 e2) target =
     (target = ErrJoin e1 e2 \<or> errors_Is e1 target \<or> errors_Is e2 target)"
| "errors_Is ErrUnknownSetOperator target = (target = ErrUnknownSetOperator \<or> target = ErrUnknown)"
| "errors_Is e target = (e = target)"

text \<open>A context, by the state of its cancellation, and \<^verbatim>\<open>ctx.Err()\<close>.\<close>

datatype ctx = Live | Cancelled | TimedOut

fun ctx_Err :: "ctx \<Rightarrow> err option" where
  "ctx_Err Live = None"
| "ctx_Err Cancelled = Some Canceled"
| "ctx_Err TimedOut = Some DeadlineExceeded"

definition IterIsDoneOrCancelled :: "err \<Rightarrow> bool" where
  "IterIsDoneOrCancelled e \<longleftrightarrow>
     errors_Is e ErrIteratorDone \<or> errors_Is e Canceled \<or> errors_Is e DeadlineExceeded"

section \<open>Tuples and records\<close>

datatype TupleOperation = TUPLE_OPERATION_WRITE | TUPLE_OPERATION_DELETE

text \<open>\<^verbatim>\<open>openfgav1.Tuple\<close>: a tuple key and the time it was written (in nanoseconds).\<close>

record tuple =
  t_key :: tuple_key
  t_timestamp :: int

record TupleRecord =
  tr_Store :: string
  tr_ObjectType :: string
  tr_ObjectID :: string
  tr_Relation :: string
  tr_User :: string
  tr_UserObjectType :: string
  tr_UserObjectID :: string
  tr_UserRelation :: string
  tr_ConditionName :: string
  tr_ConditionContext :: "pstruct option"
  tr_Ulid :: string
  tr_InsertedAt :: int

definition AsTuple :: "TupleRecord \<Rightarrow> tuple" where
  "AsTuple t =
     (let user = (if tr_User t = []
                  then FromUserParts (tr_UserObjectType t) (tr_UserObjectID t) (tr_UserRelation t)
                  else tr_User t)
      in \<lparr>t_key = NewTupleKeyWithCondition (BuildObject (tr_ObjectType t) (tr_ObjectID t))
                   (tr_Relation t) user (tr_ConditionName t) (tr_ConditionContext t),
          t_timestamp = tr_InsertedAt t\<rparr>)"

definition InvalidWriteInputError :: "'a tuple_key_nc_scheme \<Rightarrow> TupleOperation \<Rightarrow> err" where
  "InvalidWriteInputError tk operation =
     (let args = ''user: '' @ [CHR 0x27] @ tk_user tk @ [CHR 0x27] @ '', relation: '' @ [CHR 0x27] @
                 tk_relation tk @ [CHR 0x27] @ '', object: '' @ [CHR 0x27] @ tk_object tk @
                 [CHR 0x27] @ '': ''
      in case operation of
           TUPLE_OPERATION_DELETE \<Rightarrow>
             ErrWrap (''cannot delete a tuple which does not exist: '' @ args) ErrInvalidWriteInput
         | TUPLE_OPERATION_WRITE \<Rightarrow>
             ErrWrap (''cannot write a tuple which already exists: '' @ args) ErrInvalidWriteInput)"

section \<open>Options and filters\<close>

record PaginationOptions =
  PageSize :: int
  From :: string

definition DefaultPageSize :: int where
  "DefaultPageSize = 50"

definition NewPaginationOptions :: "int \<Rightarrow> string \<Rightarrow> PaginationOptions" where
  "NewPaginationOptions ps contToken =
     \<lparr>PageSize = (if ps > 0 then ps else DefaultPageSize), From = contToken\<rparr>"

text \<open>\<^verbatim>\<open>openfgav1.ConsistencyPreference_HIGHER_CONSISTENCY\<close>.\<close>

definition HIGHER_CONSISTENCY :: nat where
  "HIGHER_CONSISTENCY = 200"

record ListStoresOptions =
  lso_IDs :: "string list"
  lso_Name :: string
  lso_Pagination :: PaginationOptions

record ReadChangesOptions =
  rco_Pagination :: PaginationOptions
  rco_SortDesc :: bool

record ReadChangesFilter =
  rcf_ObjectType :: string
  rcf_HorizonOffset :: int

text \<open>The optional \<^verbatim>\<open>SortedSet\<close> of object ids is the list of its values, in ascending order.\<close>

record ReadStartingWithUserFilter =
  rsf_ObjectType :: string
  rsf_Relation :: string
  rsf_UserFilter :: "object_relation list"
  rsf_ObjectIDs :: "string list option"

record ReadUsersetTuplesFilter =
  ruf_Object :: string
  ruf_Relation :: string
  ruf_AllowedUserTypeRestrictions :: "relation_reference list"

section \<open>Lemmas\<close>

lemma errors_Is_refl [simp]: "errors_Is e e"
  by (cases e) auto

lemma InvalidWriteInputError_Is [simp]:
  "errors_Is (InvalidWriteInputError tk op) ErrInvalidWriteInput"
  by (simp add: InvalidWriteInputError_def Let_def split: TupleOperation.split)

lemma ctx_Err_not_Done [simp]:
  "ctx_Err c = Some e \<Longrightarrow> \<not> errors_Is e ErrIteratorDone"
  "ctx_Err c \<noteq> Some ErrIteratorDone"
  by (cases c; auto)+

end
