(* ===== verification/Iterators.thy ===== *)
theory Iterators
  imports Storage
begin

text \<open>
  Iterators over tuples (\<^verbatim>\<open>pkg/storage/tuple_iterators.go\<close>, \<^verbatim>\<open>pkg/storage/tuple_mappers.go\<close>).

  An iterator is a record of its three methods over a state type. A method takes the context and
  the state and gives the returned value or error with the new state; \<open>None\<close> stands for a call that
  does not return (a loop that runs forever), so that returning is something to be proved. A field
  \<^verbatim>\<open>once\<close> becomes a flag of the state. The mutexes make each call one step. The context is read
  once for a call.

  The locales \<open>iteration\<close> and \<open>iterator\<close> are the contract of the Go interface: the state stands for
  the list of items that are still to come. It is proved of the static iterator and, for any iterator that meets it,
  of every iterator that wraps it.
\<close>

section \<open>The interface\<close>

record ('s, 'a) Iterator =
  iNext :: "ctx \<Rightarrow> 's \<Rightarrow> ((err, 'a) result \<times> 's) option"
  iStop :: "'s \<Rightarrow> 's"
  iHead :: "ctx \<Rightarrow> 's \<Rightarrow> ((err, 'a) result \<times> 's) option"

text \<open>The state of an iterator that wraps another one, with its \<^verbatim>\<open>sync.Once\<close>.\<close>

record 's once_state =
  inner :: 's
  once :: bool

definition once_Stop :: "('s, 'a) Iterator \<Rightarrow> 's once_state \<Rightarrow> 's once_state" where
  "once_Stop it st = (if once st then st else \<lparr>inner = iStop it (inner st), once = True\<rparr>)"

definition with_inner :: "'s once_state \<Rightarrow> ('r \<times> 's) option \<Rightarrow> ('r \<times> 's once_state) option" where
  "with_inner st r = map_option (\<lambda>(x, s). (x, st\<lparr>inner := s\<rparr>)) r"

text \<open>Two iterators of different dynamic types behind the same interface.\<close>

definition sumIterator ::
  "('s, 'a) Iterator \<Rightarrow> ('t, 'a) Iterator \<Rightarrow> ('s + 't, 'a) Iterator" where
  "sumIterator it1 it2 =
     \<lparr>iNext = (\<lambda>c s. case s of Inl x \<Rightarrow> map_option (map_prod id Inl) (iNext it1 c x)
                              | Inr y \<Rightarrow> map_option (map_prod id Inr) (iNext it2 c y)),
      iStop = (\<lambda>s. case s of Inl x \<Rightarrow> Inl (iStop it1 x) | Inr y \<Rightarrow> Inr (iStop it2 y)),
      iHead = (\<lambda>c s. case s of Inl x \<Rightarrow> map_option (map_prod id Inl) (iHead it1 c x)
                              | Inr y \<Rightarrow> map_option (map_prod id Inr) (iHead it2 c y))\<rparr>"

section \<open>StaticIterator\<close>

definition static_Next :: "ctx \<Rightarrow> 'a list \<Rightarrow> ((err, 'a) result \<times> 'a list) option" where
  "static_Next c items =
     (case ctx_Err c of
        Some e \<Rightarrow> Some (Inl e, items)
      | None \<Rightarrow> (case items of
                   [] \<Rightarrow> Some (Inl ErrIteratorDone, [])
                 | next # rest \<Rightarrow> Some (Inr next, rest)))"

definition static_Head :: "ctx \<Rightarrow> 'a list \<Rightarrow> ((err, 'a) result \<times> 'a list) option" where
  "static_Head c items =
     (case ctx_Err c of
        Some e \<Rightarrow> Some (Inl e, items)
      | None \<Rightarrow> (case items of
                   [] \<Rightarrow> Some (Inl ErrIteratorDone, [])
                 | next # rest \<Rightarrow> Some (Inr next, items)))"

definition static_Stop :: "'a list \<Rightarrow> 'a list" where
  "static_Stop items = []"

definition StaticIterator :: "('a list, 'a) Iterator" where
  "StaticIterator = \<lparr>iNext = static_Next, iStop = static_Stop, iHead = static_Head\<rparr>"

section \<open>combinedIterator\<close>

record 's combined_state =
  pending :: "'s list"
  ci_once :: bool

text \<open>
  The recursive call of \<^verbatim>\<open>Next\<close> drops the first pending iterator, so it is a recursion on the list.
  An iterator that is dropped is stopped before; its state is not seen again.
\<close>

fun combined_Next_pending ::
  "('s, 'a) Iterator \<Rightarrow> ctx \<Rightarrow> 's list \<Rightarrow> ((err, 'a) result \<times> 's list) option" where
  "combined_Next_pending it c [] = Some (Inl ErrIteratorDone, [])"
| "combined_Next_pending it c (s # ss) =
     (case iNext it c s of
        None \<Rightarrow> None
      | Some (Inl e, s') \<Rightarrow>
          if errors_Is e ErrIteratorDone then combined_Next_pending it c ss
          else Some (Inl e, s' # ss)
      | Some (Inr val, s') \<Rightarrow> Some (Inr val, s' # ss))"

fun combined_Head_pending ::
  "('s, 'a) Iterator \<Rightarrow> ctx \<Rightarrow> 's list \<Rightarrow> ((err, 'a) result \<times> 's list) option" where
  "combined_Head_pending it c [] = Some (Inl ErrIteratorDone, [])"
| "combined_Head_pending it c (s # ss) =
     (case iHead it c s of
        None \<Rightarrow> None
      | Some (Inl e, s') \<Rightarrow>
          if errors_Is e ErrIteratorDone then combined_Head_pending it c ss
          else Some (Inl e, s' # ss)
      | Some (Inr val, s') \<Rightarrow> Some (Inr val, s' # ss))"

definition combined_Stop ::
  "('s, 'a) Iterator \<Rightarrow> 's combined_state \<Rightarrow> 's combined_state" where
  "combined_Stop it st =
     (if ci_once st then st else \<lparr>pending = map (iStop it) (pending st), ci_once = True\<rparr>)"

definition combinedIterator :: "('s, 'a) Iterator \<Rightarrow> ('s combined_state, 'a) Iterator" where
  "combinedIterator it =
     \<lparr>iNext = (\<lambda>c st. map_option (map_prod id (\<lambda>p. st\<lparr>pending := p\<rparr>))
                       (combined_Next_pending it c (pending st))),
      iStop = combined_Stop it,
      iHead = (\<lambda>c st. map_option (map_prod id (\<lambda>p. st\<lparr>pending := p\<rparr>))
                       (combined_Head_pending it c (pending st)))\<rparr>"

text \<open>A nil iterator among the arguments is left out.\<close>

definition NewCombinedIterator :: "'s option list \<Rightarrow> 's combined_state" where
  "NewCombinedIterator iters = \<lparr>pending = List.map_filter id iters, ci_once = False\<rparr>"

section \<open>tupleKeyIterator\<close>

definition map_result :: "('a \<Rightarrow> (err, 'b) result) \<Rightarrow> (err, 'a) result \<Rightarrow> (err, 'b) result" where
  "map_result f r = (case r of Inl e \<Rightarrow> Inl e | Inr x \<Rightarrow> f x)"

definition tupleKeyIterator :: "('s, tuple) Iterator \<Rightarrow> ('s once_state, tuple_key) Iterator" where
  "tupleKeyIterator it =
     \<lparr>iNext = (\<lambda>c st. with_inner st
                 (map_option (map_prod (map_result (Inr \<circ> t_key)) id) (iNext it c (inner st)))),
      iStop = once_Stop it,
      iHead = (\<lambda>c st. with_inner st
                 (map_option (map_prod (map_result (Inr \<circ> t_key)) id) (iHead it c (inner st))))\<rparr>"

section \<open>filteredTupleKeyIterator\<close>

partial_function (option) filtered_Next ::
  "('s, 'a) Iterator \<Rightarrow> ('a \<Rightarrow> bool) \<Rightarrow> ctx \<Rightarrow> 's \<Rightarrow> ((err, 'a) result \<times> 's) option" where
  "filtered_Next it flt c s =
     (case iNext it c s of
        None \<Rightarrow> None
      | Some (r, s') \<Rightarrow>
          (case r of
             Inl e \<Rightarrow> Some (Inl e, s')
           | Inr tuple \<Rightarrow>
               if flt tuple then Some (Inr tuple, s') else filtered_Next it flt c s'))"

declare filtered_Next.simps [code]

partial_function (option) filtered_Head ::
  "('s, 'a) Iterator \<Rightarrow> ('a \<Rightarrow> bool) \<Rightarrow> ctx \<Rightarrow> 's \<Rightarrow> ((err, 'a) result \<times> 's) option" where
  "filtered_Head it flt c s =
     (case iHead it c s of
        None \<Rightarrow> None
      | Some (r, s') \<Rightarrow>
          (case r of
             Inl e \<Rightarrow> Some (Inl e, s')
           | Inr tuple \<Rightarrow>
               if flt tuple then Some (Inr tuple, s')
               else (case iNext it c s' of
                       None \<Rightarrow> None
                     | Some (r', s'') \<Rightarrow>
                         (case r' of
                            Inl e \<Rightarrow> Some (Inl e, s'')
                          | Inr _ \<Rightarrow> filtered_Head it flt c s''))))"

declare filtered_Head.simps [code]

definition filteredTupleKeyIterator ::
  "('s, 'a) Iterator \<Rightarrow> ('a \<Rightarrow> bool) \<Rightarrow> ('s once_state, 'a) Iterator" where
  "filteredTupleKeyIterator it flt =
     \<lparr>iNext = (\<lambda>c st. with_inner st (filtered_Next it flt c (inner st))),
      iStop = once_Stop it,
      iHead = (\<lambda>c st. with_inner st (filtered_Head it flt c (inner st)))\<rparr>"

section \<open>ConditionsFilteredTupleKeyIterator\<close>

record 's conditions_state = "'s once_state" +
  lastError :: "err option"
  onceValid :: bool

partial_function (option) conditions_Next ::
  "('s, 'a) Iterator \<Rightarrow> ('a \<Rightarrow> (err, bool) result) \<Rightarrow> ctx \<Rightarrow> 's conditions_state \<Rightarrow>
   ((err, 'a) result \<times> 's conditions_state) option" where
  "conditions_Next it flt c st =
     (case iNext it c (inner st) of
        None \<Rightarrow> None
      | Some (r, s') \<Rightarrow>
          (case r of
             Inl e \<Rightarrow>
               if errors_Is e ErrIteratorDone
               then (if onceValid st then Some (Inl ErrIteratorDone, st\<lparr>inner := s'\<rparr>)
                     else case lastError st of
                            None \<Rightarrow> Some (Inl ErrIteratorDone, st\<lparr>inner := s'\<rparr>)
                          | Some le \<Rightarrow> Some (Inl le, st\<lparr>inner := s', lastError := None\<rparr>))
               else Some (Inl e, st\<lparr>inner := s'\<rparr>)
           | Inr tuple \<Rightarrow>
               (case flt tuple of
                  Inl e \<Rightarrow> conditions_Next it flt c (st\<lparr>inner := s', lastError := Some e\<rparr>)
                | Inr valid \<Rightarrow>
                    if \<not> valid then conditions_Next it flt c (st\<lparr>inner := s'\<rparr>)
                    else Some (Inr tuple, st\<lparr>inner := s', onceValid := True\<rparr>))))"

declare conditions_Next.simps [code]

partial_function (option) conditions_Head ::
  "('s, 'a) Iterator \<Rightarrow> ('a \<Rightarrow> (err, bool) result) \<Rightarrow> ctx \<Rightarrow> 's conditions_state \<Rightarrow>
   ((err, 'a) result \<times> 's conditions_state) option" where
  "conditions_Head it flt c st =
     (case iHead it c (inner st) of
        None \<Rightarrow> None
      | Some (r, s') \<Rightarrow>
          (case r of
             Inl e \<Rightarrow>
               if errors_Is e ErrIteratorDone
               then (if onceValid st then Some (Inl ErrIteratorDone, st\<lparr>inner := s'\<rparr>)
                     else case lastError st of
                            None \<Rightarrow> Some (Inl ErrIteratorDone, st\<lparr>inner := s'\<rparr>)
                          | Some le \<Rightarrow> Some (Inl le, st\<lparr>inner := s'\<rparr>))
               else Some (Inl e, st\<lparr>inner := s'\<rparr>)
           | Inr tuple \<Rightarrow>
               if flt tuple = Inr True
               then Some (Inr tuple, st\<lparr>inner := s', onceValid := True\<rparr>)
               else let le = (case flt tuple of Inl e \<Rightarrow> Some e | Inr _ \<Rightarrow> lastError st)
                    in (case iNext it c s' of
                          None \<Rightarrow> None
                        | Some (r', s'') \<Rightarrow>
                            (case r' of
                               Inl e \<Rightarrow> Some (Inl e, st\<lparr>inner := s'', lastError := le\<rparr>)
                             | Inr _ \<Rightarrow>
                                 conditions_Head it flt c (st\<lparr>inner := s'', lastError := le\<rparr>)))))"

declare conditions_Head.simps [code]

definition conditions_Stop :: "('s, 'a) Iterator \<Rightarrow> 's conditions_state \<Rightarrow> 's conditions_state" where
  "conditions_Stop it st =
     (if once st then st else st\<lparr>inner := iStop it (inner st), once := True\<rparr>)"

definition ConditionsFilteredTupleKeyIterator ::
  "('s, 'a) Iterator \<Rightarrow> ('a \<Rightarrow> (err, bool) result) \<Rightarrow> ('s conditions_state, 'a) Iterator" where
  "ConditionsFilteredTupleKeyIterator it flt =
     \<lparr>iNext = conditions_Next it flt, iStop = conditions_Stop it, iHead = conditions_Head it flt\<rparr>"

definition NewConditionsFilteredTupleKeyIterator :: "'s \<Rightarrow> 's conditions_state" where
  "NewConditionsFilteredTupleKeyIterator s =
     \<lparr>inner = s, once = False, lastError = None, onceValid = False\<rparr>"

section \<open>OrderedCombinedIterator\<close>

text \<open>A nil entry of \<^verbatim>\<open>pending\<close> is \<open>None\<close>; the mapper is an argument of the operations.\<close>

record 's ordered_state =
  oc_pending :: "'s option list"
  oc_lastHead :: "tuple option"
  oc_lastYielded :: "tuple option"
  oc_once :: bool

definition NewOrderedCombinedIterator :: "'s option list \<Rightarrow> 's ordered_state" where
  "NewOrderedCombinedIterator sortedIters =
     \<lparr>oc_pending = filter (\<lambda>i. i \<noteq> None) sortedIters, oc_lastHead = None, oc_lastYielded = None,
      oc_once = False\<rparr>"

definition clearPendingThatAreNil :: "'s ordered_state \<Rightarrow> 's ordered_state" where
  "clearPendingThatAreNil st = st\<lparr>oc_pending := filter (\<lambda>i. i \<noteq> None) (oc_pending st)\<rparr>"

text \<open>The inner loop, that discards the values equal to the last one yielded.\<close>

partial_function (option) ordered_discard ::
  "('s, tuple) Iterator \<Rightarrow> (tuple \<Rightarrow> string) \<Rightarrow> ctx \<Rightarrow> tuple \<Rightarrow> tuple \<Rightarrow> 's \<Rightarrow>
   ((err, tuple) result \<times> 's) option" where
  "ordered_discard it mapper c yielded head s =
     (if mapper head = mapper yielded
      then (case iNext it c s of
              None \<Rightarrow> None
            | Some (r, s') \<Rightarrow>
                (case r of
                   Inl e \<Rightarrow> Some (Inl e, s')
                 | Inr head' \<Rightarrow> ordered_discard it mapper c yielded head' s'))
      else Some (Inr head, s))"

declare ordered_discard.simps [code]

text \<open>
  What one round of the loop over \<^verbatim>\<open>pending\<close> finds in the iterator at index \<open>idx\<close>: the head to
  compare, or the error that ends the round.
\<close>

definition ordered_candidate ::
  "('s, tuple) Iterator \<Rightarrow> (tuple \<Rightarrow> string) \<Rightarrow> ctx \<Rightarrow> tuple option \<Rightarrow> nat \<Rightarrow> 's \<Rightarrow>
   ((err, tuple) result \<times> 's) option" where
  "ordered_candidate it mapper c yielded idx s =
     (case iHead it c s of
        None \<Rightarrow> None
      | Some (Inl e, s') \<Rightarrow> Some (Inl e, s')
      | Some (Inr head, s') \<Rightarrow>
          (case yielded of
             None \<Rightarrow> Some (Inr head, s')
           | Some y \<Rightarrow>
               if mapper head < mapper y then Some (Inl (NotAscending idx), s')
               else ordered_discard it mapper c y head s'))"

fun ordered_head_loop ::
  "('s, tuple) Iterator \<Rightarrow> (tuple \<Rightarrow> string) \<Rightarrow> ctx \<Rightarrow> tuple option \<Rightarrow> nat \<Rightarrow>
   (tuple \<times> nat) option \<Rightarrow> 's option list \<Rightarrow>
   ((err, (tuple \<times> nat) option) result \<times> 's option list) option" where
  "ordered_head_loop it mapper c yielded idx headMin [] = Some (Inr headMin, [])"
| "ordered_head_loop it mapper c yielded idx headMin (None # ps) = None"
| "ordered_head_loop it mapper c yielded idx headMin (Some s # ps) =
     (case ordered_candidate it mapper c yielded idx s of
        None \<Rightarrow> None
      | Some (Inl e, s') \<Rightarrow>
          if errors_Is e ErrIteratorDone
          then map_option (map_prod id (Cons None))
                 (ordered_head_loop it mapper c yielded (Suc idx) headMin ps)
          else Some (Inl e, Some s' # ps)
      | Some (Inr head, s') \<Rightarrow>
          let headMin' = (case headMin of
                            None \<Rightarrow> Some (head, idx)
                          | Some (m, i) \<Rightarrow>
                              if mapper m > mapper head then Some (head, idx) else Some (m, i))
          in map_option (map_prod id (Cons (Some s')))
               (ordered_head_loop it mapper c yielded (Suc idx) headMin' ps))"

text \<open>
  \<open>ordered_head\<close> is the method \<^verbatim>\<open>head\<close>. The index it returns is that of an entry that is not nil.
\<close>

definition ordered_head ::
  "('s, tuple) Iterator \<Rightarrow> (tuple \<Rightarrow> string) \<Rightarrow> ctx \<Rightarrow> 's ordered_state \<Rightarrow>
   ((err, nat) result \<times> 's ordered_state) option" where
  "ordered_head it mapper c st =
     (let st = clearPendingThatAreNil st
      in case ordered_head_loop it mapper c (oc_lastYielded st) 0 None (oc_pending st) of
           None \<Rightarrow> None
         | Some (Inl e, ps) \<Rightarrow> Some (Inl e, st\<lparr>oc_pending := ps\<rparr>)
         | Some (Inr None, ps) \<Rightarrow> Some (Inl ErrIteratorDone, st\<lparr>oc_pending := ps\<rparr>)
         | Some (Inr (Some (m, i)), ps) \<Rightarrow> Some (Inr i, st\<lparr>oc_pending := ps\<rparr>))"

text \<open>A call on the pending iterator at an index; \<open>None\<close> on a nil entry, where Go panics.\<close>

definition call_pending ::
  "('s \<Rightarrow> ((err, tuple) result \<times> 's) option) \<Rightarrow> nat \<Rightarrow> 's ordered_state \<Rightarrow>
   ((err, tuple) result \<times> 's ordered_state) option" where
  "call_pending f idx st =
     (if idx < length (oc_pending st)
      then case oc_pending st ! idx of
             None \<Rightarrow> None
           | Some s \<Rightarrow> map_option (map_prod id (\<lambda>s'. st\<lparr>oc_pending := (oc_pending st)[idx := Some s']\<rparr>)) (f s)
      else None)"

definition ordered_Next ::
  "('s, tuple) Iterator \<Rightarrow> (tuple \<Rightarrow> string) \<Rightarrow> ctx \<Rightarrow> 's ordered_state \<Rightarrow>
   ((err, tuple) result \<times> 's ordered_state) option" where
  "ordered_Next it mapper c st =
     (case ordered_head it mapper c st of
        None \<Rightarrow> None
      | Some (Inl e, st') \<Rightarrow> Some (Inl e, st')
      | Some (Inr idx, st') \<Rightarrow>
          (case call_pending (iNext it c) idx (st'\<lparr>oc_lastHead := None\<rparr>) of
             None \<Rightarrow> None
           | Some (Inl e, st'') \<Rightarrow> Some (Inl e, st'')
           | Some (Inr t, st'') \<Rightarrow> Some (Inr t, st''\<lparr>oc_lastYielded := Some t\<rparr>)))"

definition ordered_Head ::
  "('s, tuple) Iterator \<Rightarrow> (tuple \<Rightarrow> string) \<Rightarrow> ctx \<Rightarrow> 's ordered_state \<Rightarrow>
   ((err, tuple) result \<times> 's ordered_state) option" where
  "ordered_Head it mapper c st =
     (case oc_lastHead st of
        Some h \<Rightarrow> Some (Inr h, st)
      | None \<Rightarrow>
          (case ordered_head it mapper c st of
             None \<Rightarrow> None
           | Some (Inl e, st') \<Rightarrow> Some (Inl e, st')
           | Some (Inr idx, st') \<Rightarrow>
               (case call_pending (iHead it c) idx st' of
                  None \<Rightarrow> None
                | Some (Inl e, st'') \<Rightarrow> Some (Inl e, st''\<lparr>oc_lastHead := None\<rparr>)
                | Some (Inr h, st'') \<Rightarrow> Some (Inr h, st''\<lparr>oc_lastHead := Some h\<rparr>))))"

definition ordered_Stop :: "('s, tuple) Iterator \<Rightarrow> 's ordered_state \<Rightarrow> 's ordered_state" where
  "ordered_Stop it st =
     (if oc_once st then st
      else let st = clearPendingThatAreNil st
           in st\<lparr>oc_pending := map (map_option (iStop it)) (oc_pending st), oc_once := True\<rparr>)"

definition OrderedCombinedIterator ::
  "('s, tuple) Iterator \<Rightarrow> (tuple \<Rightarrow> string) \<Rightarrow> ('s ordered_state, tuple) Iterator" where
  "OrderedCombinedIterator it mapper =
     \<lparr>iNext = ordered_Next it mapper, iStop = ordered_Stop it, iHead = ordered_Head it mapper\<rparr>"

section \<open>Mappers\<close>

definition UserMapper :: "tuple \<Rightarrow> string" where
  "UserMapper t = tk_user (t_key t)"

definition ObjectMapper :: "tuple \<Rightarrow> string" where
  "ObjectMapper t = tk_object (t_key t)"

datatype TupleMapperKind = UsersetKind | TTUKind | ObjectIDKind

definition UsersetMapper_doMap :: "tuple_key \<Rightarrow> (err, string) result" where
  "UsersetMapper_doMap t =
     (let (usersetName, relation) = SplitObjectRelation (tk_user t)
      in if relation = [] \<and> \<not> IsWildcard usersetName
         then Inl (ErrText (''unexpected userset '' @ tk_user t @ '' with no relation''))
         else Inr usersetName)"

definition TTUMapper_doMap :: "tuple_key \<Rightarrow> (err, string) result" where
  "TTUMapper_doMap t = Inr (tk_user t)"

definition ObjectIDMapper_doMap :: "tuple_key \<Rightarrow> (err, string) result" where
  "ObjectIDMapper_doMap t = Inr (tk_object t)"

definition doMap :: "TupleMapperKind \<Rightarrow> tuple_key \<Rightarrow> (err, string) result" where
  "doMap kind = (case kind of UsersetKind \<Rightarrow> UsersetMapper_doMap | TTUKind \<Rightarrow> TTUMapper_doMap
                            | ObjectIDKind \<Rightarrow> ObjectIDMapper_doMap)"

text \<open>The three mappers differ in \<^verbatim>\<open>doMap\<close> only.\<close>

definition WrapIterator ::
  "TupleMapperKind \<Rightarrow> ('s, tuple_key) Iterator \<Rightarrow> ('s once_state, string) Iterator" where
  "WrapIterator kind it =
     \<lparr>iNext = (\<lambda>c st. with_inner st
                 (map_option (map_prod (map_result (doMap kind)) id) (iNext it c (inner st)))),
      iStop = once_Stop it,
      iHead = (\<lambda>c st. with_inner st
                 (map_option (map_prod (map_result (doMap kind)) id) (iHead it c (inner st))))\<rparr>"

section \<open>The contract\<close>

text \<open>
  What a call of \<^verbatim>\<open>Next\<close> and of \<^verbatim>\<open>Head\<close> may do when \<open>xs\<close> are the items to come before the call and
  \<open>ys\<close> those after it: nothing is lost on an error, and the only errors are the end of the items
  and that of the context.
\<close>

definition next_ok :: "ctx \<Rightarrow> 'a list \<Rightarrow> (err, 'a) result \<Rightarrow> 'a list \<Rightarrow> bool" where
  "next_ok c xs r ys \<longleftrightarrow>
     (case r of
        Inr x \<Rightarrow> xs = x # ys
      | Inl e \<Rightarrow> ys = xs \<and> (e = ErrIteratorDone \<and> xs = [] \<or> ctx_Err c = Some e))"

definition head_ok :: "ctx \<Rightarrow> 'a list \<Rightarrow> (err, 'a) result \<Rightarrow> 'a list \<Rightarrow> bool" where
  "head_ok c xs r ys \<longleftrightarrow>
     ys = xs \<and>
     (case r of
        Inr x \<Rightarrow> xs \<noteq> [] \<and> x = hd xs
      | Inl e \<Rightarrow> e = ErrIteratorDone \<and> xs = [] \<or> ctx_Err c = Some e)"

text \<open>Calling \<^verbatim>\<open>Next\<close> until it returns an error.\<close>

partial_function (option) drain ::
  "('s, 'a) Iterator \<Rightarrow> ctx \<Rightarrow> 's \<Rightarrow> ('a list \<times> err \<times> 's) option" where
  "drain it c s =
     (case iNext it c s of
        None \<Rightarrow> None
      | Some (r, s') \<Rightarrow>
          (case r of
             Inl e \<Rightarrow> Some ([], e, s')
           | Inr x \<Rightarrow>
               Option.bind (drain it c s') (\<lambda>(xs, rest). Some (x # xs, rest))))"

declare drain.simps [code]

locale iteration =
  fixes it :: "('s, 'a) Iterator"
    and contents :: "'s \<Rightarrow> 'a list"
    and invar :: "'s \<Rightarrow> bool"
  assumes next_law: "invar s \<Longrightarrow>
      \<exists>r s'. iNext it c s = Some (r, s') \<and> invar s' \<and> next_ok c (contents s) r (contents s')"
    and head_law: "invar s \<Longrightarrow>
      \<exists>r s'. iHead it c s = Some (r, s') \<and> invar s' \<and> head_ok c (contents s) r (contents s')"
begin

lemma next_E:
  assumes "invar s"
  obtains (item) x s' where "iNext it c s = Some (Inr x, s')" "invar s'" "contents s = x # contents s'"
  | (finished) s' where "iNext it c s = Some (Inl ErrIteratorDone, s')" "invar s'" "contents s = []" "contents s' = []"
  | (interrupted) e s' where "iNext it c s = Some (Inl e, s')" "invar s'" "ctx_Err c = Some e"
      "contents s' = contents s"
proof -
  from next_law [OF assms, of c] obtain r s' where
    r: "iNext it c s = Some (r, s')" "invar s'" "next_ok c (contents s) r (contents s')" by blast
  then show thesis by (cases r) (auto simp: next_ok_def intro: that)
qed

lemma head_E:
  assumes "invar s"
  obtains (item) x xs s' where "iHead it c s = Some (Inr x, s')" "invar s'" "contents s = x # xs"
      "contents s' = x # xs"
  | (finished) s' where "iHead it c s = Some (Inl ErrIteratorDone, s')" "invar s'" "contents s = []" "contents s' = []"
  | (interrupted) e s' where "iHead it c s = Some (Inl e, s')" "invar s'" "ctx_Err c = Some e"
      "contents s' = contents s"
proof -
  from head_law [OF assms, of c] obtain r s' where
    r: "iHead it c s = Some (r, s')" "invar s'" "head_ok c (contents s) r (contents s')" by blast
  then show thesis by (cases r) (auto simp: head_ok_def neq_Nil_conv intro: that)
qed

lemma drain_law:
  assumes "invar s"
  shows "\<exists>s'. drain it Live s = Some (contents s, ErrIteratorDone, s') \<and> invar s'"
  using assms
proof (induction "contents s" arbitrary: s)
  case Nil
  from \<open>invar s\<close> show ?case
    by (cases rule: next_E [where c = Live]) (use Nil in \<open>simp_all add: drain.simps\<close>)
next
  case (Cons x xs)
  from \<open>invar s\<close> show ?case
  proof (cases rule: next_E [where c = Live])
    case (item y s')
    with Cons have "xs = contents s'" and "x = y" by auto
    from Cons.hyps(1) [OF this(1) \<open>invar s'\<close>] show ?thesis
      using item \<open>x = y\<close> Cons.hyps(2) by (subst drain.simps) auto
  qed (use Cons in simp_all)
qed

lemma filtered_Next_law:
  assumes "invar s"
  shows "\<exists>r s'. filtered_Next it flt c s = Some (r, s') \<and> invar s' \<and>
     next_ok c (filter flt (contents s)) r (filter flt (contents s'))"
  using assms
proof (induction "length (contents s)" arbitrary: s)
  case 0
  from \<open>invar s\<close> show ?case
    by (cases rule: next_E [where c = c])
       (use 0 in \<open>simp_all add: filtered_Next.simps [of it flt c s] next_ok_def\<close>)
next
  case (Suc n)
  from \<open>invar s\<close> show ?case
  proof (cases rule: next_E [where c = c])
    case (item x s')
    then show ?thesis using Suc.hyps(1) [of s'] Suc.hyps(2)
      by (simp add: filtered_Next.simps [of it flt c s] next_ok_def)
  qed (simp_all add: filtered_Next.simps [of it flt c s] next_ok_def)
qed

lemma filtered_Head_law:
  assumes "invar s"
  shows "\<exists>r s'. filtered_Head it flt c s = Some (r, s') \<and> invar s' \<and>
     head_ok c (filter flt (contents s)) r (filter flt (contents s'))"
  using assms
proof (induction "length (contents s)" arbitrary: s)
  case 0
  from \<open>invar s\<close> show ?case
    by (cases rule: head_E [where c = c])
       (use 0 in \<open>simp_all add: filtered_Head.simps [of it flt c s] head_ok_def\<close>)
next
  case (Suc n)
  from \<open>invar s\<close> show ?case
  proof (cases rule: head_E [where c = c])
    case (item x xs s')
    note head = item
    from \<open>invar s'\<close> show ?thesis
    proof (cases rule: next_E [where c = c])
      case (item y s'')
      with head show ?thesis using Suc.hyps(1) [of s''] Suc.hyps(2)
        by (simp add: filtered_Head.simps [of it flt c s] head_ok_def)
    qed (use head in \<open>simp_all add: filtered_Head.simps [of it flt c s] head_ok_def\<close>)
  qed (simp_all add: filtered_Head.simps [of it flt c s] head_ok_def)
qed

end

text \<open>
  \<^verbatim>\<open>Stop\<close> keeps the state well-formed and adds no items; for an iterator that can be stopped it ends
  the iteration, as the interface asks.
\<close>

locale iterator = iteration +
  assumes stop_law: "invar s \<Longrightarrow> invar (iStop it s)"
    and stop_subset: "invar s \<Longrightarrow> set (contents (iStop it s)) \<subseteq> set (contents s)"

locale stoppable_iterator = iterator +
  assumes stop_contents: "invar s \<Longrightarrow> contents (iStop it s) = []"

section \<open>Wrapping keeps the contract\<close>

lemma iterator_iteration: "iterator it contents invar \<Longrightarrow> iteration it contents invar"
  by (simp add: iterator_def)

lemma with_inner_eq_Some [simp]:
  "with_inner st r = Some (x, st') \<longleftrightarrow> (\<exists>s. r = Some (x, s) \<and> st' = st\<lparr>inner := s\<rparr>)"
  by (auto simp: with_inner_def)

lemma next_ok_simps [simp]:
  "next_ok c xs (Inr x) ys \<longleftrightarrow> xs = x # ys"
  "next_ok c xs (Inl e) ys \<longleftrightarrow> ys = xs \<and> (e = ErrIteratorDone \<and> xs = [] \<or> ctx_Err c = Some e)"
  by (simp_all add: next_ok_def)

lemma head_ok_simps [simp]:
  "head_ok c xs (Inr x) ys \<longleftrightarrow> ys = xs \<and> xs \<noteq> [] \<and> x = hd xs"
  "head_ok c xs (Inl e) ys \<longleftrightarrow> ys = xs \<and> (e = ErrIteratorDone \<and> xs = [] \<or> ctx_Err c = Some e)"
  by (simp_all add: head_ok_def)

lemma next_ok_Nil: "next_ok c [] r ys \<Longrightarrow> ys = []"
  by (auto simp: next_ok_def split: sum.splits)

lemma next_ok_map:
  "next_ok c xs r ys \<Longrightarrow> \<forall>x\<in>set xs. g x = Inr (f x) \<Longrightarrow>
   next_ok c (map f xs) (map_result g r) (map f ys)"
  by (auto simp: next_ok_def map_result_def split: sum.splits)

lemma next_ok_subset: "next_ok c xs r ys \<Longrightarrow> set ys \<subseteq> set xs"
  by (auto simp: next_ok_def split: sum.splits)

lemma head_ok_same: "head_ok c xs r ys \<Longrightarrow> ys = xs"
  by (simp add: head_ok_def)

lemma head_ok_map:
  "head_ok c xs r ys \<Longrightarrow> \<forall>x\<in>set xs. g x = Inr (f x) \<Longrightarrow>
   head_ok c (map f xs) (map_result g r) (map f ys)"
  by (auto simp: head_ok_def map_result_def hd_map split: sum.splits)

text \<open>An iterator that maps the items of another, by a function that is defined on them all.\<close>

lemma iterator_mapped:
  assumes "iterator it contents invar"
    and "\<And>c st. iNext it' c st =
           with_inner st (map_option (map_prod (map_result g) id) (iNext it c (inner st)))"
    and "\<And>c st. iHead it' c st =
           with_inner st (map_option (map_prod (map_result g) id) (iHead it c (inner st)))"
    and "iStop it' = once_Stop it"
  shows "iterator it' (map f \<circ> contents \<circ> inner)
           (\<lambda>st. invar (inner st) \<and> (\<forall>x\<in>set (contents (inner st)). g x = Inr (f x)))"
proof unfold_locales
  fix st :: "'a once_state" and c
  assume inv: "invar (inner st) \<and> (\<forall>x\<in>set (contents (inner st)). g x = Inr (f x))"
  from iteration.next_law [OF iterator_iteration [OF assms(1)], of "inner st" c] inv
  show "\<exists>r st'. iNext it' c st = Some (r, st') \<and>
      (invar (inner st') \<and> (\<forall>x\<in>set (contents (inner st')). g x = Inr (f x))) \<and>
      next_ok c ((map f \<circ> contents \<circ> inner) st) r ((map f \<circ> contents \<circ> inner) st')"
    by (fastforce simp: assms(2) dest: next_ok_subset intro: next_ok_map)
  from iteration.head_law [OF iterator_iteration [OF assms(1)], of "inner st" c] inv
  show "\<exists>r st'. iHead it' c st = Some (r, st') \<and>
      (invar (inner st') \<and> (\<forall>x\<in>set (contents (inner st')). g x = Inr (f x))) \<and>
      head_ok c ((map f \<circ> contents \<circ> inner) st) r ((map f \<circ> contents \<circ> inner) st')"
    by (fastforce simp: assms(3) dest: head_ok_same intro: head_ok_map)
  from iterator.stop_law [OF assms(1), of "inner st"] inv
    iterator.stop_subset [OF assms(1), of "inner st"]
  show "invar (inner (iStop it' st)) \<and>
      (\<forall>x\<in>set (contents (inner (iStop it' st))). g x = Inr (f x))"
    and "set ((map f \<circ> contents \<circ> inner) (iStop it' st)) \<subseteq> set ((map f \<circ> contents \<circ> inner) st)"
    by (auto simp: assms(4) once_Stop_def)
qed


lemma iterator_filtered:
  assumes "iterator it contents invar"
  shows "iterator (filteredTupleKeyIterator it flt) (filter flt \<circ> contents \<circ> inner) (invar \<circ> inner)"
proof unfold_locales
  fix st :: "'a once_state" and c
  assume inv: "(invar \<circ> inner) st"
  from iteration.filtered_Next_law [OF iterator_iteration [OF assms], of "inner st" flt c] inv
  show "\<exists>r st'. iNext (filteredTupleKeyIterator it flt) c st = Some (r, st') \<and> (invar \<circ> inner) st' \<and>
      next_ok c ((filter flt \<circ> contents \<circ> inner) st) r ((filter flt \<circ> contents \<circ> inner) st')"
    by (fastforce simp: filteredTupleKeyIterator_def)
  from iteration.filtered_Head_law [OF iterator_iteration [OF assms], of "inner st" flt c] inv
  show "\<exists>r st'. iHead (filteredTupleKeyIterator it flt) c st = Some (r, st') \<and> (invar \<circ> inner) st' \<and>
      head_ok c ((filter flt \<circ> contents \<circ> inner) st) r ((filter flt \<circ> contents \<circ> inner) st')"
    by (fastforce simp: filteredTupleKeyIterator_def)
  from iterator.stop_law [OF assms, of "inner st"] iterator.stop_subset [OF assms, of "inner st"] inv
  show "(invar \<circ> inner) (iStop (filteredTupleKeyIterator it flt) st)"
    and "set ((filter flt \<circ> contents \<circ> inner) (iStop (filteredTupleKeyIterator it flt) st))
         \<subseteq> set ((filter flt \<circ> contents \<circ> inner) st)"
    by (auto simp: filteredTupleKeyIterator_def once_Stop_def)
qed

lemma iterator_tupleKey:
  assumes "iterator it contents invar"
  shows "iterator (tupleKeyIterator it) (map t_key \<circ> contents \<circ> inner) (invar \<circ> inner)"
  using iterator_mapped [OF assms, of "tupleKeyIterator it" "Inr \<circ> t_key" t_key]
  by (simp add: tupleKeyIterator_def comp_def)

text \<open>The items of a combined iterator are those of the pending ones, one after the other.\<close>

lemma combined_Next_law:
  assumes "iterator it contents invar" and "\<forall>s\<in>set ss. invar s"
  shows "\<exists>r ss'. combined_Next_pending it c ss = Some (r, ss') \<and> (\<forall>s\<in>set ss'. invar s) \<and>
     next_ok c (concat (map contents ss)) r (concat (map contents ss'))"
  using assms(2)
proof (induction ss)
  case Nil
  then show ?case by (simp add: next_ok_def)
next
  case (Cons s ss)
  then have "invar s" by simp
  then show ?case
    by (cases rule: iteration.next_E [OF iterator_iteration [OF assms(1)], where c = c])
       (use Cons in auto)
qed

lemma combined_Head_law:
  assumes "iterator it contents invar" and "\<forall>s\<in>set ss. invar s"
  shows "\<exists>r ss'. combined_Head_pending it c ss = Some (r, ss') \<and> (\<forall>s\<in>set ss'. invar s) \<and>
     head_ok c (concat (map contents ss)) r (concat (map contents ss'))"
  using assms(2)
proof (induction ss)
  case Nil
  then show ?case by (simp add: head_ok_def)
next
  case (Cons s ss)
  then have "invar s" by simp
  then show ?case
    by (cases rule: iteration.head_E [OF iterator_iteration [OF assms(1)], where c = c])
       (use Cons in auto)
qed


lemma iterator_combined:
  assumes "iterator it contents invar"
  shows "iterator (combinedIterator it) (\<lambda>st. concat (map contents (pending st)))
           (\<lambda>st. \<forall>s\<in>set (pending st). invar s)"
proof unfold_locales
  fix st :: "'a combined_state" and c
  assume inv: "\<forall>s\<in>set (pending st). invar s"
  from combined_Next_law [OF assms inv, of c]
  show "\<exists>r st'. iNext (combinedIterator it) c st = Some (r, st') \<and> (\<forall>s\<in>set (pending st'). invar s) \<and>
      next_ok c (concat (map contents (pending st))) r (concat (map contents (pending st')))"
    by (fastforce simp: combinedIterator_def)
  from combined_Head_law [OF assms inv, of c]
  show "\<exists>r st'. iHead (combinedIterator it) c st = Some (r, st') \<and> (\<forall>s\<in>set (pending st'). invar s) \<and>
      head_ok c (concat (map contents (pending st))) r (concat (map contents (pending st')))"
    by (fastforce simp: combinedIterator_def)
  from iterator.stop_law [OF assms] iterator.stop_subset [OF assms] inv
  show "\<forall>s\<in>set (pending (iStop (combinedIterator it) st)). invar s"
    and "set (concat (map contents (pending (iStop (combinedIterator it) st))))
         \<subseteq> set (concat (map contents (pending st)))"
    by (simp_all add: combinedIterator_def combined_Stop_def) blast+
qed

text \<open>Stopping a combined iterator ends it when the pending iterators can be stopped.\<close>

lemma stoppable_combined:
  assumes "stoppable_iterator it contents invar"
  shows "stoppable_iterator (combinedIterator it) (\<lambda>st. concat (map contents (pending st)))
           (\<lambda>st. (\<forall>s\<in>set (pending st). invar s) \<and>
                 (ci_once st \<longrightarrow> concat (map contents (pending st)) = []))"
proof -
  have it: "iterator it contents invar"
    using assms by (simp add: stoppable_iterator_def)
  note comb = iterator_combined [OF it]
  show ?thesis
  proof unfold_locales
    fix st :: "'a combined_state" and c
    assume inv: "(\<forall>s\<in>set (pending st). invar s) \<and>
      (ci_once st \<longrightarrow> concat (map contents (pending st)) = [])"
    then have inv1: "\<forall>s\<in>set (pending st). invar s" by simp
    show "\<exists>r st'. iNext (combinedIterator it) c st = Some (r, st') \<and>
        ((\<forall>s\<in>set (pending st'). invar s) \<and>
         (ci_once st' \<longrightarrow> concat (map contents (pending st')) = [])) \<and>
        next_ok c (concat (map contents (pending st))) r (concat (map contents (pending st')))"
    proof -
      from combined_Next_law [OF it inv1, of c] obtain r ss where
        r: "combined_Next_pending it c (pending st) = Some (r, ss)" "\<forall>s\<in>set ss. invar s"
          "next_ok c (concat (map contents (pending st))) r (concat (map contents ss))"
        by blast
      with inv have "ci_once st \<longrightarrow> concat (map contents ss) = []"
        using next_ok_Nil by metis
      with r show ?thesis
        by (intro exI [of _ r] exI [of _ "st\<lparr>pending := ss\<rparr>"]) (simp add: combinedIterator_def)
    qed
    show "\<exists>r st'. iHead (combinedIterator it) c st = Some (r, st') \<and>
        ((\<forall>s\<in>set (pending st'). invar s) \<and>
         (ci_once st' \<longrightarrow> concat (map contents (pending st')) = [])) \<and>
        head_ok c (concat (map contents (pending st))) r (concat (map contents (pending st')))"
    proof -
      from combined_Head_law [OF it inv1, of c] obtain r ss where
        r: "combined_Head_pending it c (pending st) = Some (r, ss)" "\<forall>s\<in>set ss. invar s"
          "head_ok c (concat (map contents (pending st))) r (concat (map contents ss))"
        by blast
      with inv have "ci_once st \<longrightarrow> concat (map contents ss) = []"
        using head_ok_same by metis
      with r show ?thesis
        by (intro exI [of _ r] exI [of _ "st\<lparr>pending := ss\<rparr>"]) (simp add: combinedIterator_def)
    qed
    have stop: "concat (map contents (pending (iStop (combinedIterator it) st))) = []"
      using inv stoppable_iterator.stop_contents [OF assms]
      by (simp add: combinedIterator_def combined_Stop_def)
    then show "concat (map contents (pending (iStop (combinedIterator it) st))) = []" .
    show "(\<forall>s\<in>set (pending (iStop (combinedIterator it) st)). invar s) \<and>
        (ci_once (iStop (combinedIterator it) st) \<longrightarrow>
         concat (map contents (pending (iStop (combinedIterator it) st))) = [])"
      using iterator.stop_law [OF comb inv1] stop by simp
    show "set (concat (map contents (pending (iStop (combinedIterator it) st))))
        \<subseteq> set (concat (map contents (pending st)))"
      using stop by simp
  qed
qed

section \<open>The static iterator\<close>

interpretation static: stoppable_iterator StaticIterator "\<lambda>items. items" "\<lambda>items. True"
  by unfold_locales
     (auto simp: StaticIterator_def static_Next_def static_Head_def static_Stop_def next_ok_def
        head_ok_def split: option.splits list.splits)

section \<open>Filtering by conditions\<close>

text \<open>The error of the last item the filter fails on; \<open>le\<close> if there is none.\<close>

fun last_error :: "err option \<Rightarrow> ('a \<Rightarrow> (err, bool) result) \<Rightarrow> 'a list \<Rightarrow> err option" where
  "last_error le flt [] = le"
| "last_error le flt (x # xs) =
     last_error (case flt x of Inl e \<Rightarrow> Some e | Inr _ \<Rightarrow> le) flt xs"

definition final_error :: "bool \<Rightarrow> err option \<Rightarrow> err" where
  "final_error anyValid le =
     (if anyValid then ErrIteratorDone else case le of None \<Rightarrow> ErrIteratorDone | Some e \<Rightarrow> e)"

lemma drain_cong: "iNext it c s = iNext it c t \<Longrightarrow> drain it c s = drain it c t"
  by (simp add: drain.simps [of it c s] drain.simps [of it c t])

context iteration
begin

lemma conditions_drain:
  assumes "invar (inner st)"
  shows "\<exists>st'. drain (ConditionsFilteredTupleKeyIterator it flt) Live st =
     Some (filter (\<lambda>x. flt x = Inr True) (contents (inner st)),
           final_error (onceValid st \<or> (\<exists>x\<in>set (contents (inner st)). flt x = Inr True))
             (last_error (lastError st) flt (contents (inner st))), st')"
  using assms
proof (induction "contents (inner st)" arbitrary: st)
  case Nil
  from \<open>invar (inner st)\<close> show ?case
    by (cases rule: next_E [where c = Live])
       (use Nil in \<open>simp_all add: drain.simps [of _ _ st] ConditionsFilteredTupleKeyIterator_def
          conditions_Next.simps [of it flt Live st] final_error_def split: option.splits\<close>)
next
  case (Cons y ys)
  let ?it = "ConditionsFilteredTupleKeyIterator it flt"
  from \<open>invar (inner st)\<close> obtain s' where
    s': "iNext it Live (inner st) = Some (Inr y, s')" "invar s'" "ys = contents s'"
    by (cases rule: next_E [where c = Live]) (use Cons.hyps(2) in auto)
  note unfold = ConditionsFilteredTupleKeyIterator_def conditions_Next.simps [of it flt Live st] s'(1)
  show ?case
  proof (cases "flt y")
    case (Inl e)
    then have "drain ?it Live st = drain ?it Live (st\<lparr>inner := s', lastError := Some e\<rparr>)"
      by (intro drain_cong) (simp add: unfold)
    with Inl show ?thesis
      using Cons.hyps(1) [of "st\<lparr>inner := s', lastError := Some e\<rparr>"] s' Cons.hyps(2)
      by (auto simp flip: Cons.hyps(2))
  next
    case (Inr v)
    show ?thesis
    proof (cases v)
      case True
      with Inr have "iNext ?it Live st = Some (Inr y, st\<lparr>inner := s', onceValid := True\<rparr>)"
        by (simp add: unfold)
      with Inr True show ?thesis
        using Cons.hyps(1) [of "st\<lparr>inner := s', onceValid := True\<rparr>"] s'
        by (auto simp: drain.simps [of _ _ st] final_error_def simp flip: Cons.hyps(2))
    next
      case False
      with Inr have "drain ?it Live st = drain ?it Live (st\<lparr>inner := s'\<rparr>)"
        by (intro drain_cong) (simp add: unfold)
      with Inr False show ?thesis
        using Cons.hyps(1) [of "st\<lparr>inner := s'\<rparr>"] s'
        by (auto simp flip: Cons.hyps(2))
    qed
  qed
qed

text \<open>\<^verbatim>\<open>Head\<close> announces what the following \<^verbatim>\<open>Next\<close> returns.\<close>

lemma conditions_Head_Next:
  assumes "invar (inner st)"
  shows "\<exists>r st' st''. conditions_Head it flt Live st = Some (r, st') \<and>
     conditions_Next it flt Live st' = Some (r, st'')"
  using assms
proof (induction "length (contents (inner st))" arbitrary: st)
  case 0
  from \<open>invar (inner st)\<close> obtain s' where
    h: "iHead it Live (inner st) = Some (Inl ErrIteratorDone, s')" "invar s'" "contents s' = []"
    by (cases rule: head_E [where c = Live]) (use 0 in auto)
  from \<open>invar s'\<close> obtain s'' where "iNext it Live s' = Some (Inl ErrIteratorDone, s'')"
    by (cases rule: next_E [where c = Live]) (use h in auto)
  with h show ?case
    by (auto simp: conditions_Head.simps [of it flt Live st] conditions_Next.simps [of it flt Live]
        split: option.splits)
next
  case (Suc n)
  from \<open>invar (inner st)\<close> obtain y ys s' where
    h: "iHead it Live (inner st) = Some (Inr y, s')" "invar s'" "contents s' = y # ys"
      "contents (inner st) = y # ys"
    by (cases rule: head_E [where c = Live]) (use Suc.hyps(2) in auto)
  from \<open>invar s'\<close> obtain s'' where
    n: "iNext it Live s' = Some (Inr y, s'')" "invar s''" "contents s'' = ys"
    by (cases rule: next_E [where c = Live]) (use h in auto)
  show ?case
  proof (cases "flt y = Inr True")
    case True
    with h n show ?thesis
      by (simp add: conditions_Head.simps [of it flt Live st] conditions_Next.simps [of it flt Live])
  next
    case False
    let ?st = "st\<lparr>inner := s'', lastError := case flt y of Inl e \<Rightarrow> Some e | Inr _ \<Rightarrow> lastError st\<rparr>"
    from False h n have "conditions_Head it flt Live st = conditions_Head it flt Live ?st"
      by (simp add: conditions_Head.simps [of it flt Live st] Let_def)
    with Suc.hyps(1) [of ?st] Suc.hyps(2) h n show ?thesis by simp
  qed
qed

end

section \<open>Merging ordered iterators\<close>

definition pending_items :: "('s \<Rightarrow> 'a list) \<Rightarrow> 's option list \<Rightarrow> 'a list" where
  "pending_items contents ps = concat (map (case_option [] contents) ps)"

definition ordered_contents ::
  "('s \<Rightarrow> tuple list) \<Rightarrow> (tuple \<Rightarrow> string) \<Rightarrow> 's ordered_state \<Rightarrow> tuple list" where
  "ordered_contents contents mapper st = sort_key mapper (pending_items contents (oc_pending st))"

text \<open>
  The pending iterators are in ascending order, no two of their items have the same mapped value,
  and all these values lie above the one that was yielded last.
\<close>

definition ordered_invar ::
  "('s \<Rightarrow> tuple list) \<Rightarrow> ('s \<Rightarrow> bool) \<Rightarrow> (tuple \<Rightarrow> string) \<Rightarrow> 's ordered_state \<Rightarrow> bool" where
  "ordered_invar contents invar mapper st \<longleftrightarrow>
     (\<forall>s. Some s \<in> set (oc_pending st) \<longrightarrow> invar s \<and> sorted (map mapper (contents s))) \<and>
     distinct (map mapper (pending_items contents (oc_pending st))) \<and>
     (\<forall>y. oc_lastYielded st = Some y \<longrightarrow>
        (\<forall>x\<in>set (pending_items contents (oc_pending st)). mapper y < mapper x)) \<and>
     (\<forall>h. oc_lastHead st = Some h \<longrightarrow>
        ordered_contents contents mapper st \<noteq> [] \<and> h = hd (ordered_contents contents mapper st))"

text \<open>The smallest head of the pending iterators, with its index.\<close>

fun best :: "('a \<Rightarrow> 'k::linorder) \<Rightarrow> nat \<Rightarrow> ('a \<times> nat) option \<Rightarrow> 'a list list \<Rightarrow> ('a \<times> nat) option" where
  "best m idx hm [] = hm"
| "best m idx hm ([] # xss) = best m (Suc idx) hm xss"
| "best m idx hm ((x # xs) # xss) =
     best m (Suc idx)
       (case hm of None \<Rightarrow> Some (x, idx)
        | Some (y, i) \<Rightarrow> if m y > m x then Some (x, idx) else Some (y, i)) xss"

lemma best_Some:
  assumes "best m idx (Some (y, j)) xss = r"
  shows "\<exists>x i. r = Some (x, i) \<and> m x \<le> m y \<and>
     (\<forall>xs\<in>set xss. xs \<noteq> [] \<longrightarrow> m x \<le> m (hd xs)) \<and>
     ((x, i) = (y, j) \<or> (\<exists>k<length xss. i = idx + k \<and> xss ! k \<noteq> [] \<and> x = hd (xss ! k)))"
  using assms
proof (induction m idx "Some (y, j)" xss arbitrary: y j rule: best.induct)
  case (3 m idx x xs xss)
  show ?case
  proof (cases "m x < m y")
    case True
    with 3 obtain x' i where "r = Some (x', i)" "m x' \<le> m x" "\<forall>xs\<in>set xss. xs \<noteq> [] \<longrightarrow> m x' \<le> m (hd xs)"
      "(x', i) = (x, idx) \<or> (\<exists>k<length xss. i = Suc idx + k \<and> xss ! k \<noteq> [] \<and> x' = hd (xss ! k))"
      by fastforce
    with True show ?thesis
      by (intro exI [of _ x'] exI [of _ i]) (auto intro: exI [of _ 0] exI [of _ "Suc _"])
  next
    case False
    with 3 obtain x' i where "r = Some (x', i)" "m x' \<le> m y" "\<forall>xs\<in>set xss. xs \<noteq> [] \<longrightarrow> m x' \<le> m (hd xs)"
      "(x', i) = (y, j) \<or> (\<exists>k<length xss. i = Suc idx + k \<and> xss ! k \<noteq> [] \<and> x' = hd (xss ! k))"
      by fastforce
    with False show ?thesis
      by (intro exI [of _ x'] exI [of _ i]) (auto intro: exI [of _ "Suc _"])
  qed
next
  case (2 m idx xss)
  from 2(1) [OF 2(2) [simplified]] show ?case by fastforce
qed auto

lemma best_None:
  "best m idx None xss = None \<longleftrightarrow> (\<forall>xs\<in>set xss. xs = [])"
  "best m idx None xss = Some (x, i) \<Longrightarrow>
     (\<exists>k<length xss. i = idx + k \<and> xss ! k \<noteq> [] \<and> x = hd (xss ! k)) \<and>
     (\<forall>xs\<in>set xss. xs \<noteq> [] \<longrightarrow> m x \<le> m (hd xs))"
proof (induction xss arbitrary: idx)
  case (Cons xs xss)
  {
    case 1
    show ?case
      using Cons.IH(1) [of "Suc idx"] best_Some [of m "Suc idx" "hd xs" idx xss]
      by (cases xs) auto
  next
    case 2
    show ?case
    proof (cases xs)
      case Nil
      with Cons.IH(2) [of "Suc idx"] 2 show ?thesis by fastforce
    next
      case (Cons y ys)
      with best_Some [of m "Suc idx" y idx xss] 2 show ?thesis by fastforce
    qed
  }
qed auto

lemma sort_key_unique:
  assumes "sorted (map f ys)" and "distinct (map f xs)" and "mset ys = mset xs"
  shows "sort_key f xs = ys"
proof (rule map_sorted_distinct_set_unique)
  have "distinct (map f ys)" "set ys = set xs"
    using assms(2,3) by (metis mset_map mset_eq_imp_distinct_iff, metis mset_eq_setD)
  then show "distinct (map f ys)" "set (sort_key f xs) = set ys" "inj_on f (set (sort_key f xs) \<union> set ys)"
    using assms(2) by (auto simp: distinct_map)
  show "distinct (map f (sort_key f xs))"
    using assms(2) by (metis mset_map mset_eq_imp_distinct_iff mset_sort)
qed (use assms(1) in simp_all)

lemma sort_key_Cons_min:
  assumes "mset xs = add_mset x (mset ys)" and "distinct (map f xs)" and "\<forall>y\<in>set ys. f x \<le> f y"
  shows "sort_key f xs = x # sort_key f ys"
  by (rule sort_key_unique) (use assms in simp_all)

lemma sort_key_mset_cong:
  assumes "mset xs = mset ys" and "distinct (map f xs)"
  shows "sort_key f xs = sort_key f ys"
  by (rule sort_key_unique) (use assms in simp_all)

lemma pending_items_update:
  assumes "i < length ps" and "case_option [] contents (ps ! i) = x # xs" and "contents s' = xs"
  shows "mset (pending_items contents ps) = add_mset x (mset (pending_items contents (ps[i := Some s'])))"
  using assms
proof (induction ps arbitrary: i)
  case (Cons p ps)
  then show ?case by (cases i) (auto simp: pending_items_def)
qed simp

lemma pending_items_filter [simp]:
  "pending_items contents (filter (\<lambda>i. \<exists>s. i = Some s) ps) = pending_items contents ps"
  by (induction ps) (auto simp: pending_items_def)

text \<open>The states of the pending iterators before and after a round of \<^verbatim>\<open>head\<close>.\<close>

definition same_items :: "('s \<Rightarrow> 'a list) \<Rightarrow> ('s \<Rightarrow> bool) \<Rightarrow> 's option list \<Rightarrow> 's option list \<Rightarrow> bool" where
  "same_items contents invar ps ps' \<longleftrightarrow>
     list_all2 (\<lambda>p p'. case_option [] contents p' = case_option [] contents p \<and>
                       (\<forall>s. p' = Some s \<longrightarrow> invar s)) ps ps'"

lemma same_items_pending: "same_items contents invar ps ps' \<Longrightarrow>
    pending_items contents ps' = pending_items contents ps"
  unfolding same_items_def pending_items_def
  by (induction rule: list_all2_induct) auto

lemma same_items_refl: "\<forall>s. Some s \<in> set ps \<longrightarrow> invar s \<Longrightarrow> same_items contents invar ps ps"
  by (auto simp: same_items_def list_all2_same)

lemma same_items_Cons:
  "same_items contents invar ps ps' \<Longrightarrow> case_option [] contents p' = case_option [] contents p \<Longrightarrow>
   (\<forall>s. p' = Some s \<longrightarrow> invar s) \<Longrightarrow> same_items contents invar (p # ps) (p' # ps')"
  by (simp add: same_items_def)

definition round_ok :: "ctx \<Rightarrow> 'b \<Rightarrow> (err, 'b) result \<Rightarrow> bool" where
  "round_ok c b r \<longleftrightarrow> (case r of Inl e \<Rightarrow> ctx_Err c = Some e | Inr b' \<Rightarrow> b' = b)"

lemma round_ok_simps [simp]:
  "round_ok c b (Inl e) \<longleftrightarrow> ctx_Err c = Some e"
  "round_ok c b (Inr b') \<longleftrightarrow> b' = b"
  by (simp_all add: round_ok_def)

lemma ordered_candidate_law:
  assumes "iteration it contents invar" and "invar s"
    and "\<forall>y. yielded = Some y \<longrightarrow> (\<forall>x\<in>set (contents s). mapper y < mapper x)"
  shows "\<exists>r s'. ordered_candidate it mapper c yielded idx s = Some (r, s') \<and> invar s' \<and>
     head_ok c (contents s) r (contents s')"
proof (cases rule: iteration.head_E [OF assms(1,2), where c = c, case_names item])
  case (item x xs s')
  have "ordered_candidate it mapper c yielded idx s = Some (Inr x, s')"
  proof (cases yielded)
    case (Some y)
    with assms(3) item have "mapper y < mapper x" by simp
    with Some item show ?thesis
      by (auto simp: ordered_candidate_def ordered_discard.simps [of it mapper c y x])
  qed (simp add: ordered_candidate_def item)
  with item show ?thesis by auto
qed (auto simp: ordered_candidate_def)

lemma ordered_head_loop_law:
  assumes it: "iteration it contents invar"
    and "\<forall>p\<in>set ps. p \<noteq> None" and "\<forall>s. Some s \<in> set ps \<longrightarrow> invar s"
    and "\<forall>y. yielded = Some y \<longrightarrow> (\<forall>x\<in>set (pending_items contents ps). mapper y < mapper x)"
  shows "\<exists>r ps'. ordered_head_loop it mapper c yielded idx hm ps = Some (r, ps') \<and>
     same_items contents invar ps ps' \<and>
     round_ok c (best mapper idx hm (map (case_option [] contents) ps)) r"
  using assms(2-4)
proof (induction ps arbitrary: idx hm)
  case Nil
  then show ?case by (simp add: same_items_def)
next
  case (Cons p ps)
  then obtain s where p: "p = Some s" and "invar s" by auto
  have y: "\<forall>y. yielded = Some y \<longrightarrow> (\<forall>x\<in>set (contents s). mapper y < mapper x)"
    using Cons.prems(3) by (simp add: p pending_items_def)
  obtain r s' where cand: "ordered_candidate it mapper c yielded idx s = Some (r, s')" "invar s'"
    "head_ok c (contents s) r (contents s')"
    using ordered_candidate_law [OF it \<open>invar s\<close> y] by blast
  have IH: "\<exists>r ps'. ordered_head_loop it mapper c yielded (Suc idx) hm' ps = Some (r, ps') \<and>
     same_items contents invar ps ps' \<and>
     round_ok c (best mapper (Suc idx) hm' (map (case_option [] contents) ps)) r" for hm'
    using Cons by (intro Cons.IH) (auto simp: pending_items_def)
  show ?case
  proof (cases r)
    case (Inl e)
    with cand consider "e = ErrIteratorDone" "contents s = []" | "ctx_Err c = Some e" by auto
    then show ?thesis
    proof cases
      case 1
      with Inl cand IH [of hm] show ?thesis
        by (auto simp: p intro!: same_items_Cons)
    next
      case 2
      with Inl cand Cons.prems show ?thesis
        by (auto simp: p intro!: same_items_Cons same_items_refl)
    qed
  next
    case (Inr x)
    with cand obtain xs where xs: "contents s = x # xs" "contents s' = x # xs"
      by (cases "contents s") auto
    let ?hm = "case hm of None \<Rightarrow> Some (x, idx)
      | Some (m, i) \<Rightarrow> if mapper x < mapper m then Some (x, idx) else Some (m, i)"
    from IH [of ?hm] Inr cand xs show ?thesis
      by (auto simp: p Let_def intro!: same_items_Cons)
  qed
qed

lemma same_items_entry:
  assumes "same_items contents invar ps ps'" and "Some s \<in> set ps'"
  shows "invar s" and "contents s = [] \<or> (\<exists>s'. Some s' \<in> set ps \<and> contents s' = contents s)"
proof -
  from assms obtain p where "p \<in> set ps" "case_option [] contents p = contents s" "invar s"
    unfolding same_items_def by (force simp: in_set_conv_nth list_all2_conv_all_nth)
  then show "invar s" "contents s = [] \<or> (\<exists>s'. Some s' \<in> set ps \<and> contents s' = contents s)"
    by (auto split: option.splits)
qed

lemma ordered_invar_same:
  assumes "ordered_invar contents invar mapper st"
    and "same_items contents invar (filter (\<lambda>i. i \<noteq> None) (oc_pending st)) ps"
  shows "ordered_invar contents invar mapper (st\<lparr>oc_pending := ps\<rparr>)"
    and "ordered_contents contents mapper (st\<lparr>oc_pending := ps\<rparr>) = ordered_contents contents mapper st"
proof -
  show "ordered_contents contents mapper (st\<lparr>oc_pending := ps\<rparr>) = ordered_contents contents mapper st"
    using same_items_pending [OF assms(2)] by (simp add: ordered_contents_def)
  moreover have "invar s \<and> sorted (map mapper (contents s))" if "Some s \<in> set ps" for s
    using same_items_entry [OF assms(2) that] assms(1)
    by (auto simp: ordered_invar_def)
  ultimately show "ordered_invar contents invar mapper (st\<lparr>oc_pending := ps\<rparr>)"
    using assms(1) same_items_pending [OF assms(2)] by (auto simp: ordered_invar_def)
qed

text \<open>\<^verbatim>\<open>head\<close> returns the index of a pending iterator whose next item is the smallest of all.\<close>

definition points_to_min ::
  "('s \<Rightarrow> tuple list) \<Rightarrow> (tuple \<Rightarrow> string) \<Rightarrow> nat \<Rightarrow> 's ordered_state \<Rightarrow> bool" where
  "points_to_min contents mapper i st \<longleftrightarrow>
     i < length (oc_pending st) \<and>
     (\<exists>s x xs. oc_pending st ! i = Some s \<and> contents s = x # xs \<and>
        (\<forall>y\<in>set (pending_items contents (oc_pending st)). mapper x \<le> mapper y))"

lemma ordered_head_law:
  assumes it: "iteration it contents invar" and inv: "ordered_invar contents invar mapper st"
  obtains (idx) i ps where "ordered_head it mapper c st = Some (Inr i, st\<lparr>oc_pending := ps\<rparr>)"
      "ordered_invar contents invar mapper (st\<lparr>oc_pending := ps\<rparr>)"
      "ordered_contents contents mapper (st\<lparr>oc_pending := ps\<rparr>) = ordered_contents contents mapper st"
      "points_to_min contents mapper i (st\<lparr>oc_pending := ps\<rparr>)"
  | (error) e ps where "ordered_head it mapper c st = Some (Inl e, st\<lparr>oc_pending := ps\<rparr>)"
      "ordered_invar contents invar mapper (st\<lparr>oc_pending := ps\<rparr>)"
      "ordered_contents contents mapper (st\<lparr>oc_pending := ps\<rparr>) = ordered_contents contents mapper st"
      "e = ErrIteratorDone \<and> ordered_contents contents mapper st = [] \<or> ctx_Err c = Some e"
proof -
  let ?ps = "filter (\<lambda>i. i \<noteq> None) (oc_pending st)"
  let ?xss = "map (case_option [] contents) ?ps"
  from ordered_head_loop_law [OF it, of ?ps "oc_lastYielded st" mapper c 0 None] inv
  obtain r ps where
    loop: "ordered_head_loop it mapper c (oc_lastYielded st) 0 None ?ps = Some (r, ps)"
      "same_items contents invar ?ps ps" "round_ok c (best mapper 0 None ?xss) r"
    by (auto simp: ordered_invar_def)
  note same = ordered_invar_same [OF inv loop(2)]
  have len: "length ps = length ?ps" and nth: "\<And>i. i < length ps \<Longrightarrow> case_option [] contents (ps ! i) = ?xss ! i"
    using loop(2) by (auto simp: same_items_def list_all2_conv_all_nth)
  show thesis
  proof (cases r)
    case (Inl e)
    with loop same show thesis
      by (intro error [of e ps]) (simp_all add: ordered_head_def clearPendingThatAreNil_def)
  next
    case (Inr b)
    show thesis
    proof (cases b)
      case None
      with Inr loop have "best mapper 0 None ?xss = None" by simp
      then have "\<forall>xs\<in>set ?xss. xs = []" by (simp only: best_None(1))
      then have "pending_items contents ?ps = []" unfolding pending_items_def by simp
      with None Inr loop same show thesis
        by (intro error [of ErrIteratorDone ps])
           (simp_all add: ordered_head_def clearPendingThatAreNil_def ordered_contents_def)
    next
      case (Some xi)
      then obtain x i where xi: "b = Some (x, i)" by (cases xi) auto
      with Inr loop have "best mapper 0 None ?xss = Some (x, i)" by simp
      from best_None(2) [OF this] have i: "i < length ps" "?xss ! i \<noteq> []" "x = hd (?xss ! i)"
        and min: "\<forall>xs\<in>set ?xss. xs \<noteq> [] \<longrightarrow> mapper x \<le> mapper (hd xs)"
        using len by auto
      from i nth [of i] obtain s xs where s: "ps ! i = Some s" "contents s = x # xs"
        by (cases "ps ! i"; cases "?xss ! i") auto
      have "mapper x \<le> mapper y" if y: "y \<in> set (pending_items contents ps)" for y
      proof -
        from y same_items_pending [OF loop(2)] have "y \<in> set (pending_items contents ?ps)" by simp
        then obtain s' where s': "Some s' \<in> set (oc_pending st)" "y \<in> set (contents s')"
          unfolding pending_items_def by (auto split: option.splits)
        then have "mapper (hd (contents s')) \<le> mapper y"
          using inv by (cases "contents s'") (auto simp: ordered_invar_def)
        moreover from s' have "contents s' \<in> set ?xss" "contents s' \<noteq> []" by force+
        ultimately show ?thesis using min order_trans by blast
      qed
      with s i have "points_to_min contents mapper i (st\<lparr>oc_pending := ps\<rparr>)"
        by (simp add: points_to_min_def)
      with xi Inr loop(1) same show thesis
        by (intro idx [of i ps]) (simp_all add: ordered_head_def clearPendingThatAreNil_def)
    qed
  qed
qed

lemma pending_items_same:
  "i < length ps \<Longrightarrow> case_option [] contents (ps ! i) = contents s' \<Longrightarrow>
   pending_items contents (ps[i := Some s']) = pending_items contents ps"
  unfolding pending_items_def by (metis list_update_id map_update option.simps(5))

lemma ordered_refresh:
  assumes "ordered_invar contents invar mapper st" and "i < length (oc_pending st)"
    and "oc_pending st ! i = Some s" and "invar s'" and "contents s' = contents s"
  shows "ordered_contents contents mapper (st\<lparr>oc_pending := (oc_pending st)[i := Some s']\<rparr>) =
           ordered_contents contents mapper st"
    and "ordered_invar contents invar mapper (st\<lparr>oc_pending := (oc_pending st)[i := Some s']\<rparr>)"
proof -
  have same: "pending_items contents ((oc_pending st)[i := Some s']) = pending_items contents (oc_pending st)"
    using assms by (intro pending_items_same) simp_all
  then show "ordered_contents contents mapper (st\<lparr>oc_pending := (oc_pending st)[i := Some s']\<rparr>) =
      ordered_contents contents mapper st"
    by (simp add: ordered_contents_def)
  have "Some s \<in> set (oc_pending st)" using assms(2,3) by (metis nth_mem)
  then have "invar t \<and> sorted (map mapper (contents t))"
    if "Some t \<in> set ((oc_pending st)[i := Some s'])" for t
    using that set_update_subset_insert [of "oc_pending st" i "Some s'"] assms
    by (auto simp: ordered_invar_def)
  with assms(1) same show
    "ordered_invar contents invar mapper (st\<lparr>oc_pending := (oc_pending st)[i := Some s']\<rparr>)"
    by (auto simp: ordered_invar_def ordered_contents_def)
qed

lemma ordered_advance:
  assumes inv: "ordered_invar contents invar mapper st" and min: "points_to_min contents mapper i st"
    and s: "oc_pending st ! i = Some s" "contents s = x # xs" and s': "invar s'" "contents s' = xs"
    and st': "st' = st\<lparr>oc_pending := (oc_pending st)[i := Some s'], oc_lastHead := None,
                     oc_lastYielded := Some x\<rparr>"
  shows "ordered_contents contents mapper st = x # ordered_contents contents mapper st'"
    and "ordered_invar contents invar mapper st'"
proof -
  let ?new = "pending_items contents ((oc_pending st)[i := Some s'])"
  have i: "i < length (oc_pending st)" using min by (simp add: points_to_min_def)
  have mset: "mset (pending_items contents (oc_pending st)) = add_mset x (mset ?new)"
    using i s s' by (intro pending_items_update) simp_all
  have dist: "distinct (map mapper (pending_items contents (oc_pending st)))"
    using inv by (simp add: ordered_invar_def)
  then have dist': "distinct (mapper x # map mapper ?new)"
    using mset by (metis mset.simps(2) mset_eq_imp_distinct_iff mset_map list.simps(9))
  have le: "\<forall>y\<in>set (pending_items contents (oc_pending st)). mapper x \<le> mapper y"
    using min s by (auto simp: points_to_min_def)
  have sub: "set (pending_items contents (oc_pending st)) = insert x (set ?new)"
    using mset by (metis set_mset_add_mset_insert set_mset_mset)
  show "ordered_contents contents mapper st = x # ordered_contents contents mapper st'"
    using sort_key_Cons_min [OF mset dist] le sub by (simp add: ordered_contents_def st')
  have "Some s \<in> set (oc_pending st)" using i s(1) by (metis nth_mem)
  with inv s s' have "invar s' \<and> sorted (map mapper (contents s'))"
    by (auto simp: ordered_invar_def)
  then have "invar t \<and> sorted (map mapper (contents t))"
    if "Some t \<in> set ((oc_pending st)[i := Some s'])" for t
    using that set_update_subset_insert [of "oc_pending st" i "Some s'"] inv
    unfolding ordered_invar_def by blast
  moreover have "\<forall>y\<in>set ?new. mapper x < mapper y"
    using le sub dist' by (fastforce simp: order_less_le)
  ultimately show "ordered_invar contents invar mapper st'"
    using dist' by (simp add: ordered_invar_def st')
qed

lemma points_to_min_hd:
  assumes "ordered_invar contents invar mapper st" and "points_to_min contents mapper i st"
    and "oc_pending st ! i = Some s" and "contents s = x # xs"
  shows "\<exists>ys. ordered_contents contents mapper st = x # ys"
proof -
  let ?items = "pending_items contents (oc_pending st)"
  have mset: "mset ?items = add_mset x (mset (remove1 x ?items))"
  proof -
    have "Some s \<in> set (oc_pending st)" using assms(2,3) by (metis nth_mem points_to_min_def)
    then have "x \<in> set (pending_items contents (oc_pending st))"
      unfolding pending_items_def using assms(4) by force
    then show ?thesis by simp
  qed
  have min: "\<forall>y\<in>set (remove1 x ?items). mapper x \<le> mapper y"
    using assms(2-4) set_remove1_subset [of x ?items] by (auto simp: points_to_min_def)
  have "distinct (map mapper ?items)" using assms(1) by (simp add: ordered_invar_def)
  from sort_key_Cons_min [OF mset this min] show ?thesis by (simp add: ordered_contents_def)
qed

lemma ordered_contents_lastHead [simp]:
  "ordered_contents contents mapper (st\<lparr>oc_lastHead := h\<rparr>) = ordered_contents contents mapper st"
  by (simp add: ordered_contents_def)

lemma ordered_invar_lastHead:
  "ordered_invar contents invar mapper st \<Longrightarrow> ordered_invar contents invar mapper (st\<lparr>oc_lastHead := None\<rparr>)"
  "ordered_invar contents invar mapper st \<Longrightarrow> ordered_contents contents mapper st = x # ys \<Longrightarrow>
   ordered_invar contents invar mapper (st\<lparr>oc_lastHead := Some x\<rparr>)"
  by (simp_all add: ordered_invar_def)

lemma iteration_ordered:
  assumes it: "iteration it contents invar"
  shows "iteration (OrderedCombinedIterator it mapper) (ordered_contents contents mapper)
           (ordered_invar contents invar mapper)"
proof unfold_locales
  fix st :: "'a ordered_state" and c
  assume inv: "ordered_invar contents invar mapper st"
  show "\<exists>r st'. iNext (OrderedCombinedIterator it mapper) c st = Some (r, st') \<and>
      ordered_invar contents invar mapper st' \<and>
      next_ok c (ordered_contents contents mapper st) r (ordered_contents contents mapper st')"
  proof (cases rule: ordered_head_law [OF it inv, where c = c, case_names idx error])
    case (idx i ps)
    then obtain s x xs where s: "i < length ps" "ps ! i = Some s" "contents s = x # xs"
      by (auto simp: points_to_min_def)
    let ?st = "st\<lparr>oc_pending := ps\<rparr>"
    have "invar s" using idx(2) s by (auto simp: ordered_invar_def) (metis nth_mem)
    then show ?thesis
    proof (cases rule: iteration.next_E [OF it, where c = c, consumes 1, case_names item finished interrupted])
      case (item y s')
      with s idx(1) have "iNext (OrderedCombinedIterator it mapper) c st = Some (Inr x,
          ?st\<lparr>oc_pending := ps[i := Some s'], oc_lastHead := None, oc_lastYielded := Some x\<rparr>)"
        by (simp add: OrderedCombinedIterator_def ordered_Next_def call_pending_def)
      with ordered_advance [OF idx(2,4), of s x xs s', OF _ _ _ _ refl] s item idx(3) show ?thesis
        by simp
    next
      case (interrupted e s')
      with s idx(1) have "iNext (OrderedCombinedIterator it mapper) c st =
          Some (Inl e, ?st\<lparr>oc_pending := ps[i := Some s'], oc_lastHead := None\<rparr>)"
        by (simp add: OrderedCombinedIterator_def ordered_Next_def call_pending_def)
      with ordered_refresh [OF idx(2), of i s s'] s interrupted idx(3) show ?thesis
        by (simp add: ordered_invar_lastHead)
    qed (use s in simp)
  next
    case (error e ps)
    then show ?thesis
      by (auto simp: OrderedCombinedIterator_def ordered_Next_def)
  qed
  show "\<exists>r st'. iHead (OrderedCombinedIterator it mapper) c st = Some (r, st') \<and>
      ordered_invar contents invar mapper st' \<and>
      head_ok c (ordered_contents contents mapper st) r (ordered_contents contents mapper st')"
  proof (cases "oc_lastHead st")
    case (Some h)
    with inv show ?thesis
      by (simp add: OrderedCombinedIterator_def ordered_Head_def ordered_invar_def)
  next
    case None
    show ?thesis
    proof (cases rule: ordered_head_law [OF it inv, where c = c, case_names idx error])
      case (idx i ps)
      then obtain s x xs where s: "i < length ps" "ps ! i = Some s" "contents s = x # xs"
        by (auto simp: points_to_min_def)
      let ?st = "st\<lparr>oc_pending := ps\<rparr>"
      have "invar s" using idx(2) s by (auto simp: ordered_invar_def) (metis nth_mem)
      then show ?thesis
      proof (cases rule: iteration.head_E [OF it, where c = c, consumes 1, case_names item finished interrupted])
        case (item y ys s')
        with s idx(1) None have "iHead (OrderedCombinedIterator it mapper) c st = Some (Inr x,
            ?st\<lparr>oc_pending := ps[i := Some s'], oc_lastHead := Some x\<rparr>)"
          by (simp add: OrderedCombinedIterator_def ordered_Head_def call_pending_def)
        with ordered_refresh [OF idx(2), of i s s'] points_to_min_hd [OF idx(2,4), of s x xs] s item idx(3)
        show ?thesis by (auto simp: ordered_invar_lastHead)
      next
        case (interrupted e s')
        with s idx(1) None have "iHead (OrderedCombinedIterator it mapper) c st =
            Some (Inl e, ?st\<lparr>oc_pending := ps[i := Some s'], oc_lastHead := None\<rparr>)"
          by (simp add: OrderedCombinedIterator_def ordered_Head_def call_pending_def)
        with ordered_refresh [OF idx(2), of i s s'] s interrupted idx(3) show ?thesis
          by (simp add: ordered_invar_lastHead)
      qed (use s in simp)
    next
      case (error e ps)
      with None show ?thesis
        by (auto simp: OrderedCombinedIterator_def ordered_Head_def)
    qed
  qed
qed

section \<open>Properties\<close>

text \<open>
  C19: a combined iterator meets the iterator contract whenever the iterators it combines do: at any
  time the items to come are those of the pending iterators, one after the other. \<^verbatim>\<open>Next\<close> and \<^verbatim>\<open>Head\<close>
  return in every state and under every context, \<^verbatim>\<open>Head\<close> loses nothing, an error of the context loses
  nothing, and after \<^verbatim>\<open>Stop\<close> nothing is to come.
\<close>

theorem combinedIterator_contract:
  assumes "stoppable_iterator it contents invar"
  shows "stoppable_iterator (combinedIterator it) (\<lambda>st. concat (map contents (pending st)))
           (\<lambda>st. (\<forall>s\<in>set (pending st). invar s) \<and>
                 (ci_once st \<longrightarrow> concat (map contents (pending st)) = []))"
  using assms by (rule stoppable_combined)

theorem combinedIterator_contract_witness:
  "stoppable_iterator (combinedIterator StaticIterator)
     (\<lambda>st. concat (map (\<lambda>items. items) (pending st)) :: nat list)
     (\<lambda>st. (\<forall>s\<in>set (pending st). True) \<and>
           (ci_once st \<longrightarrow> concat (map (\<lambda>items. items) (pending st)) = []))"
  by (rule combinedIterator_contract) (rule static.stoppable_iterator_axioms)

text \<open>
  An iterator that filters tuple keys meets the contract, with the items that pass the filter as
  those to come: the loops of \<^verbatim>\<open>Next\<close> and \<^verbatim>\<open>Head\<close> end, although \<^verbatim>\<open>Head\<close> advances the iterator below,
  no item that passes is skipped or returned twice.
\<close>

theorem filteredTupleKeyIterator_contract:
  assumes "iterator it contents invar"
  shows "iterator (filteredTupleKeyIterator it flt) (filter flt \<circ> contents \<circ> inner) (invar \<circ> inner)"
  using assms by (rule iterator_filtered)

theorem filteredTupleKeyIterator_contract_witness:
  "iterator (filteredTupleKeyIterator StaticIterator (\<lambda>n. n \<noteq> (0 :: nat)))
     (filter (\<lambda>n. n \<noteq> 0) \<circ> (\<lambda>items. items) \<circ> inner) ((\<lambda>items. True) \<circ> inner)"
  by (rule filteredTupleKeyIterator_contract) (rule static.iterator_axioms)

text \<open>
  C20: an iterator that filters by conditions, consumed to its end, yields exactly the items whose
  condition is met, in order. It then ends normally if some item was valid or none failed to
  evaluate, and otherwise with the error of the last item that failed.
\<close>

theorem ConditionsFilteredTupleKeyIterator_drain:
  assumes "iteration it contents invar" and "invar s"
  shows "\<exists>st'. drain (ConditionsFilteredTupleKeyIterator it flt) Live
                 (NewConditionsFilteredTupleKeyIterator s) =
           Some (filter (\<lambda>x. flt x = Inr True) (contents s),
                 final_error (\<exists>x\<in>set (contents s). flt x = Inr True)
                   (last_error None flt (contents s)), st')"
  using iteration.conditions_drain [OF assms(1), of "NewConditionsFilteredTupleKeyIterator s" flt] assms(2)
  by (simp add: NewConditionsFilteredTupleKeyIterator_def)

theorem ConditionsFilteredTupleKeyIterator_drain_witness:
  "\<exists>st'. drain (ConditionsFilteredTupleKeyIterator StaticIterator
            (\<lambda>n. if n < (2 :: nat) then Inl (ErrText ''missing'') else Inr (3 < n))) Live
            (NewConditionsFilteredTupleKeyIterator [0, 1, 2]) =
         Some ([], ErrText ''missing'', st')"
  using ConditionsFilteredTupleKeyIterator_drain [OF static.iteration_axioms, where s = "[0, 1, 2]"
      and flt = "\<lambda>n. if n < (2 :: nat) then Inl (ErrText ''missing'') else Inr (3 < n)"]
  by (simp add: final_error_def)

text \<open>
  C21: on iterators in ascending order whose mapped values are all different, the ordered combined
  iterator meets the contract of iteration, with the sorted merge of the pending items as those to
  come.
\<close>

theorem OrderedCombinedIterator_merge:
  assumes "iteration it contents invar"
  shows "iteration (OrderedCombinedIterator it mapper) (ordered_contents contents mapper)
           (ordered_invar contents invar mapper)"
  using assms by (rule iteration_ordered)

theorem OrderedCombinedIterator_merge_witness:
  "iteration (OrderedCombinedIterator StaticIterator ObjectMapper)
     (ordered_contents (\<lambda>items. items) ObjectMapper)
     (ordered_invar (\<lambda>items. items) (\<lambda>items. True) ObjectMapper)"
  by (rule OrderedCombinedIterator_merge) (rule static.iteration_axioms)

text \<open>
  C22: when two pending iterators hold the same mapped value, the ordered combined iterator loses the
  item that follows the duplicate: its loop discards duplicates with \<^verbatim>\<open>Next\<close>, which also consumes the
  first item that is not one. Of the iterators \<open>[a]\<close> and \<open>[a', b]\<close>, where \<open>a\<close> and \<open>a'\<close> have the same
  value and that of \<open>b\<close> is greater, it yields \<open>a\<close> and ends.
\<close>

theorem OrderedCombinedIterator_loses_item:
  assumes "mapper a = mapper a'" and "mapper a < mapper b"
  shows "\<exists>st. drain (OrderedCombinedIterator StaticIterator mapper) Live
                (NewOrderedCombinedIterator [Some [a], Some [a', b]]) =
              Some ([a], ErrIteratorDone, st)"
  using assms
  by (simp add: drain.simps NewOrderedCombinedIterator_def OrderedCombinedIterator_def
      ordered_Next_def ordered_head_def clearPendingThatAreNil_def ordered_candidate_def
      ordered_discard.simps call_pending_def StaticIterator_def static_Head_def static_Next_def
      static_Stop_def)

theorem OrderedCombinedIterator_loses_item_witness:
  "\<exists>st. drain (OrderedCombinedIterator StaticIterator ObjectMapper) Live
          (NewOrderedCombinedIterator
            [Some [\<lparr>t_key = NewTupleKey ''doc:1'' ''viewer'' ''user:*'', t_timestamp = 0\<rparr>],
             Some [\<lparr>t_key = NewTupleKey ''doc:1'' ''viewer'' ''user:anne'', t_timestamp = 0\<rparr>,
                   \<lparr>t_key = NewTupleKey ''doc:2'' ''viewer'' ''user:anne'', t_timestamp = 0\<rparr>]]) =
        Some ([\<lparr>t_key = NewTupleKey ''doc:1'' ''viewer'' ''user:*'', t_timestamp = 0\<rparr>],
              ErrIteratorDone, st)"
  by (rule OrderedCombinedIterator_loses_item) (simp_all add: ObjectMapper_def NewTupleKey_def less_char_def)

end
