(* ===== verification/Memory.thy ===== *)
theory Memory
  imports Iterators "HOL-Library.AList"
begin

text \<open>
  The in-memory datastore (\<^verbatim>\<open>pkg/storage/memory/memory.go\<close>).

  The state of the backend is a record; an operation takes it and gives the new one. Every operation
  holds a lock of the backend, so it is one step. The clock is an argument (nanoseconds), and so is
  the generator of ULIDs: \<open>mk k\<close> is the \<open>k\<close>-th ULID it hands out during the call. A ULID is its
  128-bit value, on which \<^verbatim>\<open>Compare\<close> is the order of numbers; its text form is a parameter.
  An outer \<open>None\<close> is a panic (a slice expression out of range).
\<close>

section \<open>State\<close>

type_synonym ulid = nat

record tuple_change =
  tc_tuple_key :: tuple_key
  tc_operation :: TupleOperation
  tc_timestamp :: int

record tupleChangeRec =
  Change :: tuple_change
  Ulid :: ulid

record AuthorizationModelEntry =
  ame_model :: authorization_model
  ame_latest :: bool

record store =
  st_id :: string
  st_name :: string
  st_created_at :: int
  st_updated_at :: int

record assertion =
  as_tuple_key :: tuple_key_nc
  as_expectation :: bool
  as_contextual_tuples :: "tuple_key list"
  as_context :: "pstruct option"

text \<open>
  A Go map from which only lookups are made is a function (a missing slice reads as empty) or a
  partial map; one that is ranged over is an association list with distinct keys.
\<close>

record MemoryBackend =
  mb_maxTuplesPerWrite :: int
  mb_maxTypesPerAuthorizationModel :: int
  mb_tuples :: "string \<Rightarrow> TupleRecord list"
  mb_changes :: "string \<Rightarrow> tupleChangeRec list"
  mb_authorizationModels :: "string \<rightharpoonup> (string \<times> AuthorizationModelEntry) list"
  mb_stores :: "(string \<times> store) list"
  mb_assertions :: "string \<rightharpoonup> assertion list"

definition New :: MemoryBackend where
  "New = \<lparr>mb_maxTuplesPerWrite = 100, mb_maxTypesPerAuthorizationModel = 100,
          mb_tuples = (\<lambda>_. []), mb_changes = (\<lambda>_. []), mb_authorizationModels = Map.empty,
          mb_stores = [], mb_assertions = Map.empty\<rparr>"

section \<open>Reading tuples\<close>

definition match :: "TupleRecord \<Rightarrow> tuple_key \<Rightarrow> bool" where
  "match t target \<longleftrightarrow>
     (if tk_object target \<noteq> []
      then let (td, objectid) = SplitObject (tk_object target)
           in if objectid = [] then td = tr_ObjectType t
              else td = tr_ObjectType t \<and> objectid = tr_ObjectID t
      else True) \<and>
     \<not> (tk_relation target \<noteq> [] \<and> tr_Relation t \<noteq> tk_relation target) \<and>
     \<not> (tk_user target \<noteq> [] \<and> tr_User t \<noteq> tk_user target)"

definition memory_Next :: "ctx \<Rightarrow> TupleRecord list \<Rightarrow> ((err, tuple) result \<times> TupleRecord list) option" where
  "memory_Next c records =
     (case ctx_Err c of
        Some e \<Rightarrow> Some (Inl e, records)
      | None \<Rightarrow> (case records of
                   [] \<Rightarrow> Some (Inl ErrIteratorDone, [])
                 | next # rest \<Rightarrow> Some (Inr (AsTuple next), rest)))"

definition memory_Head :: "ctx \<Rightarrow> TupleRecord list \<Rightarrow> ((err, tuple) result \<times> TupleRecord list) option" where
  "memory_Head c records =
     (case ctx_Err c of
        Some e \<Rightarrow> Some (Inl e, records)
      | None \<Rightarrow> (case records of
                   [] \<Rightarrow> Some (Inl ErrIteratorDone, [])
                 | rec # rest \<Rightarrow> Some (Inr (AsTuple rec), records)))"

definition staticIterator :: "(TupleRecord list, tuple) Iterator" where
  "staticIterator = \<lparr>iNext = memory_Next, iStop = (\<lambda>records. records), iHead = memory_Head\<rparr>"

fun ToArray :: "ctx \<Rightarrow> TupleRecord list \<Rightarrow> (err, tuple list) result" where
  "ToArray c [] = Inr []"
| "ToArray c (r # rs) =
     (case ctx_Err c of
        Some e \<Rightarrow> Inl e
      | None \<Rightarrow> (case ToArray c rs of Inl e \<Rightarrow> Inl e | Inr ts \<Rightarrow> Inr (AsTuple r # ts)))"

text \<open>The method \<^verbatim>\<open>read\<close>: the records of the page and the continuation token.\<close>

definition read :: "MemoryBackend \<Rightarrow> string \<Rightarrow> tuple_key \<Rightarrow> PaginationOptions option \<Rightarrow>
    (err, TupleRecord list \<times> string) result option" where
  "read s store tk options =
     (let matches =
        (if tk_object tk = [] \<and> tk_relation tk = [] \<and> tk_user tk = [] then mb_tuples s store
         else filter (\<lambda>t. match t tk) (mb_tuples s store));
        parsed = (case options of
                    None \<Rightarrow> Some 0
                  | Some p \<Rightarrow> if From p = [] then Some 0 else Atoi (From p))
      in case parsed of
           None \<Rightarrow> Some (Inl (SyntaxError (case options of None \<Rightarrow> [] | Some p \<Rightarrow> From p)))
         | Some from \<Rightarrow>
             if from < 0 then None
             else let matches = (if from \<le> int (length matches) then drop (nat from) matches else matches);
                      to = (case options of None \<Rightarrow> 0 | Some p \<Rightarrow> PageSize p)
                  in if to \<noteq> 0 \<and> to < int (length matches)
                     then if to < 0 then None
                          else Some (Inr (take (nat to) matches, Itoa (go_int (from + to))))
                     else Some (Inr (matches, [])))"

definition Read :: "MemoryBackend \<Rightarrow> string \<Rightarrow> tuple_key \<Rightarrow> (err, TupleRecord list) result option" where
  "Read s store key = map_option (map_sum id fst) (read s store key None)"

definition ReadPage :: "ctx \<Rightarrow> MemoryBackend \<Rightarrow> string \<Rightarrow> tuple_key \<Rightarrow> PaginationOptions \<Rightarrow>
    (err, tuple list \<times> string) result option" where
  "ReadPage c s store key options =
     (case read s store key (Some options) of
        None \<Rightarrow> None
      | Some (Inl e) \<Rightarrow> Some (Inl e)
      | Some (Inr (records, token)) \<Rightarrow>
          (case ToArray c records of Inl e \<Rightarrow> Some (Inl e) | Inr ts \<Rightarrow> Some (Inr (ts, token))))"

definition ReadUserTuple :: "MemoryBackend \<Rightarrow> string \<Rightarrow> tuple_key \<Rightarrow> (err, tuple) result" where
  "ReadUserTuple s store key =
     (case List.find (\<lambda>t. match t key) (mb_tuples s store) of
        Some t \<Rightarrow> Inr (AsTuple t)
      | None \<Rightarrow> Inl ErrNotFound)"

definition ReadUsersetTuples ::
  "MemoryBackend \<Rightarrow> string \<Rightarrow> ReadUsersetTuplesFilter \<Rightarrow> (err, TupleRecord list) result" where
  "ReadUsersetTuples s store flt =
     Inr (concat (map (\<lambda>t.
       if match t (NewTupleKey (ruf_Object flt) (ruf_Relation flt) []) \<and>
          GetUserTypeFromUser (tr_User t) = UserSet
       then if ruf_AllowedUserTypeRestrictions flt = [] then [t]
            else let userType = GetType (tr_User t);
                     userRelation = snd (SplitObjectRelation (tr_User t))
                 in map (\<lambda>_. t)
                      (filter (\<lambda>allowedType. rr_type allowedType = userType \<and>
                                            rr_GetRelation allowedType = userRelation)
                        (ruf_AllowedUserTypeRestrictions flt))
       else []) (mb_tuples s store)))"

definition ReadStartingWithUser ::
  "MemoryBackend \<Rightarrow> string \<Rightarrow> ReadStartingWithUserFilter \<Rightarrow> (err, TupleRecord list) result" where
  "ReadStartingWithUser s store flt =
     Inr (sort_key tr_ObjectID (concat (map (\<lambda>t.
       if tr_ObjectType t \<noteq> rsf_ObjectType flt then []
       else if tr_Relation t \<noteq> rsf_Relation flt then []
       else if (case rsf_ObjectIDs flt of None \<Rightarrow> False | Some ids \<Rightarrow> tr_ObjectID t \<notin> set ids) then []
       else map (\<lambda>_. t)
              (filter (\<lambda>userFilter.
                 (if snd userFilter \<noteq> [] then GetObjectRelationAsString userFilter
                  else fst userFilter) = tr_User t) (rsf_UserFilter flt)))
       (mb_tuples s store))))"

section \<open>Writing tuples\<close>

definition find :: "TupleRecord list \<Rightarrow> tuple_key \<Rightarrow> bool" where
  "find records tupleKey \<longleftrightarrow> (\<exists>tr\<in>set records. match tr tupleKey)"

fun validate_deletes :: "TupleRecord list \<Rightarrow> tuple_key_nc list \<Rightarrow> err option" where
  "validate_deletes records [] = None"
| "validate_deletes records (tk # tks) =
     (if \<not> find records (TupleKeyWithoutConditionToTupleKey tk)
      then Some (InvalidWriteInputError tk TUPLE_OPERATION_DELETE)
      else validate_deletes records tks)"

fun validate_writes :: "TupleRecord list \<Rightarrow> tuple_key list \<Rightarrow> err option" where
  "validate_writes records [] = None"
| "validate_writes records (tk # tks) =
     (if find records tk then Some (InvalidWriteInputError tk TUPLE_OPERATION_WRITE)
      else validate_writes records tks)"

definition validateTuples ::
  "TupleRecord list \<Rightarrow> tuple_key_nc list \<Rightarrow> tuple_key list \<Rightarrow> err option" where
  "validateTuples records deletes writes =
     (case validate_deletes records deletes of
        Some e \<Rightarrow> Some e
      | None \<Rightarrow> validate_writes records writes)"

text \<open>
  The two loops of \<^verbatim>\<open>Write\<close>. The first keeps the records that no delete matches and logs the others;
  the second appends the records that are written. \<open>k\<close> counts the ULIDs drawn so far.
\<close>

fun delete_loop :: "int \<Rightarrow> (nat \<Rightarrow> ulid) \<Rightarrow> nat \<Rightarrow> tuple_key_nc list \<Rightarrow> TupleRecord list \<Rightarrow>
    TupleRecord list \<times> tupleChangeRec list \<times> nat" where
  "delete_loop now mk k deletes [] = ([], [], k)"
| "delete_loop now mk k deletes (tr # trs) =
     (if \<exists>d\<in>set deletes. match tr (TupleKeyWithoutConditionToTupleKey d)
      then let tk = t_key (AsTuple tr);
               change = \<lparr>Change = \<lparr>tc_tuple_key = NewTupleKey (tk_object tk) (tk_relation tk) (tk_user tk),
                                   tc_operation = TUPLE_OPERATION_DELETE, tc_timestamp = now\<rparr>,
                         Ulid = mk k\<rparr>;
               (records, changes, k') = delete_loop now mk (k + 1) deletes trs
           in (records, change # changes, k')
      else let (records, changes, k') = delete_loop now mk k deletes trs
           in (tr # records, changes, k'))"

fun write_loop :: "(ulid \<Rightarrow> string) \<Rightarrow> string \<Rightarrow> int \<Rightarrow> (nat \<Rightarrow> ulid) \<Rightarrow> nat \<Rightarrow> TupleRecord list \<Rightarrow>
    tuple_key list \<Rightarrow> TupleRecord list \<times> tupleChangeRec list" where
  "write_loop ulid_String store now mk k records [] = (records, [])"
| "write_loop ulid_String store now mk k records (t # ts) =
     (if \<exists>et\<in>set records. match et t
      then write_loop ulid_String store now mk k records ts
      else let (conditionName, conditionContext) =
                 (case tk_condition t of None \<Rightarrow> ([], None) | Some c \<Rightarrow> (cond_name c, cond_context c));
               (objectType, objectID) = SplitObject (tk_object t);
               record = \<lparr>tr_Store = store, tr_ObjectType = objectType, tr_ObjectID = objectID,
                         tr_Relation = tk_relation t, tr_User = tk_user t, tr_UserObjectType = [],
                         tr_UserObjectID = [], tr_UserRelation = [],
                         tr_ConditionName = conditionName, tr_ConditionContext = conditionContext,
                         tr_Ulid = ulid_String (mk k), tr_InsertedAt = now\<rparr>;
               tk = NewTupleKeyWithCondition (BuildObject objectType objectID) (tk_relation t)
                      (tk_user t) conditionName conditionContext;
               change = \<lparr>Change = \<lparr>tc_tuple_key = tk, tc_operation = TUPLE_OPERATION_WRITE,
                                   tc_timestamp = now\<rparr>,
                         Ulid = mk (k + 1)\<rparr>;
               (records', changes) =
                 write_loop ulid_String store now mk (k + 2) (records @ [record]) ts
           in (records', change # changes))"

definition Write :: "(ulid \<Rightarrow> string) \<Rightarrow> int \<Rightarrow> (nat \<Rightarrow> ulid) \<Rightarrow> MemoryBackend \<Rightarrow> string \<Rightarrow>
    tuple_key_nc list \<Rightarrow> tuple_key list \<Rightarrow> (err, MemoryBackend) result" where
  "Write ulid_String now mk s store deletes writes =
     (case validateTuples (mb_tuples s store) deletes writes of
        Some e \<Rightarrow> Inl e
      | None \<Rightarrow>
          let (kept, deleted, k) = delete_loop now mk 0 deletes (mb_tuples s store);
              (records, written) = write_loop ulid_String store now mk k kept writes
          in Inr (s\<lparr>mb_tuples := (mb_tuples s)(store := records),
                   mb_changes := (mb_changes s)(store := mb_changes s store @ deleted @ written)\<rparr>))"

section \<open>The changelog\<close>

text \<open>The loop of \<^verbatim>\<open>ReadChanges\<close> over the changes of the store.\<close>

fun scan_changes :: "string \<Rightarrow> int \<Rightarrow> ulid option \<Rightarrow> bool \<Rightarrow> tupleChangeRec list \<Rightarrow> tupleChangeRec list" where
  "scan_changes objectType limit from desc [] = []"
| "scan_changes objectType limit from desc (rec # recs) =
     (if objectType = [] \<or> HasPrefix (tk_object (tc_tuple_key (Change rec))) (objectType @ '':'')
      then if tc_timestamp (Change rec) > limit then []
           else if (case from of
                      None \<Rightarrow> False
                    | Some f \<Rightarrow> \<not> desc \<and> Ulid rec \<le> f \<or> desc \<and> Ulid rec \<ge> f)
           then scan_changes objectType limit from desc recs
           else rec # scan_changes objectType limit from desc recs
      else scan_changes objectType limit from desc recs)"

definition ReadChanges :: "(string \<Rightarrow> ulid option) \<Rightarrow> (ulid \<Rightarrow> string) \<Rightarrow> int \<Rightarrow> MemoryBackend \<Rightarrow>
    string \<Rightarrow> ReadChangesFilter \<Rightarrow> ReadChangesOptions \<Rightarrow> (err, tuple_change list \<times> string) result" where
  "ReadChanges ulid_Parse ulid_String now s store flt options =
     (let token = From (rco_Pagination options);
          parsed = (if token \<noteq> []
                    then (case ulid_Parse token of None \<Rightarrow> None | Some u \<Rightarrow> Some (Some u))
                    else Some None)
      in case parsed of
           None \<Rightarrow> Inl ErrInvalidContinuationToken
         | Some from \<Rightarrow>
             let allChanges = scan_changes (rcf_ObjectType flt) (now - rcf_HorizonOffset flt) from
                                (rco_SortDesc options) (mb_changes s store)
             in if allChanges = [] then Inl ErrNotFound
                else let pageSize = (if PageSize (rco_Pagination options) > 0
                                     then PageSize (rco_Pagination options) else DefaultPageSize);
                         ordered = (if rco_SortDesc options then rev allChanges else allChanges);
                         page = take (nat pageSize) ordered
                     in if page = [] then Inl ErrNotFound
                        else Inr (map Change page, ulid_String (Ulid (last page))))"

section \<open>Authorization models\<close>

definition findAuthorizationModelByID ::
  "string \<Rightarrow> (string \<times> AuthorizationModelEntry) list \<Rightarrow> authorization_model option" where
  "findAuthorizationModelByID modelID configurations =
     (if modelID \<noteq> [] then map_option ame_model (map_of configurations modelID)
      else map_option (\<lambda>(_, entry). ame_model entry)
             (List.find (\<lambda>(_, entry). ame_latest entry) configurations))"

definition ReadAuthorizationModel ::
  "MemoryBackend \<Rightarrow> string \<Rightarrow> string \<Rightarrow> (err, authorization_model) result" where
  "ReadAuthorizationModel s store modelID =
     (case mb_authorizationModels s store of
        None \<Rightarrow> Inl ErrNotFound
      | Some tm \<Rightarrow>
          (case findAuthorizationModelByID modelID tm of
             Some model \<Rightarrow> if am_type_definitions model = [] then Inl ErrNotFound else Inr model
           | None \<Rightarrow> Inl ErrNotFound))"

text \<open>
  A page of a slice: \<^verbatim>\<open>items[from:to]\<close> with \<^verbatim>\<open>to\<close> at most the length, which panics unless
  \<open>0 \<le> from \<le> to\<close>, and the token of the next page.
\<close>

definition slice_page :: "'a list \<Rightarrow> PaginationOptions \<Rightarrow> (err, 'a list \<times> string) result option" where
  "slice_page items p =
     (let pageSize = (if PageSize p > 0 then PageSize p else DefaultPageSize)
      in case (if From p \<noteq> [] then ParseInt 32 (From p) else Some 0) of
           None \<Rightarrow> Some (Inl (SyntaxError (From p)))
         | Some from \<Rightarrow>
             let to = min (go_int (from + pageSize)) (int (length items))
             in if 0 \<le> from \<and> from \<le> to
                then Some (Inr (take (nat (to - from)) (drop (nat from) items),
                                if to \<noteq> int (length items) then Itoa to else []))
                else None)"

definition ReadAuthorizationModels :: "MemoryBackend \<Rightarrow> string \<Rightarrow> PaginationOptions \<Rightarrow>
    (err, authorization_model list \<times> string) result option" where
  "ReadAuthorizationModels s store options =
     (let entries = (case mb_authorizationModels s store of None \<Rightarrow> [] | Some tm \<Rightarrow> tm);
          models = rev (sort_key am_id (map (\<lambda>(_, entry). ame_model entry) entries))
      in slice_page models options)"

definition FindLatestAuthorizationModel ::
  "MemoryBackend \<Rightarrow> string \<Rightarrow> (err, authorization_model) result" where
  "FindLatestAuthorizationModel s store =
     (case mb_authorizationModels s store of
        None \<Rightarrow> Inl ErrNotFound
      | Some tm \<Rightarrow>
          (case findAuthorizationModelByID [] tm of
             None \<Rightarrow> Inl ErrNotFound
           | Some nsc \<Rightarrow> Inr nsc))"

definition WriteAuthorizationModel ::
  "MemoryBackend \<Rightarrow> string \<Rightarrow> authorization_model \<Rightarrow> MemoryBackend" where
  "WriteAuthorizationModel s store model =
     (let tm = (case mb_authorizationModels s store of None \<Rightarrow> [] | Some tm \<Rightarrow> tm);
          tm' = map (\<lambda>(i, entry). (i, entry\<lparr>ame_latest := False\<rparr>)) tm
      in s\<lparr>mb_authorizationModels := (mb_authorizationModels s)(store \<mapsto>
             AList.update (am_id model) \<lparr>ame_model = model, ame_latest = True\<rparr> tm')\<rparr>)"

section \<open>Stores and assertions\<close>

definition CreateStore :: "int \<Rightarrow> MemoryBackend \<Rightarrow> store \<Rightarrow> (err, store \<times> MemoryBackend) result" where
  "CreateStore now s newStore =
     (if map_of (mb_stores s) (st_id newStore) \<noteq> None then Inl ErrCollision
      else let st = \<lparr>st_id = st_id newStore, st_name = st_name newStore, st_created_at = now,
                     st_updated_at = now\<rparr>
           in Inr (st, s\<lparr>mb_stores := AList.update (st_id newStore) st (mb_stores s)\<rparr>))"

definition DeleteStore :: "MemoryBackend \<Rightarrow> string \<Rightarrow> MemoryBackend" where
  "DeleteStore s storeID = s\<lparr>mb_stores := AList.delete storeID (mb_stores s)\<rparr>"

definition GetStore :: "MemoryBackend \<Rightarrow> string \<Rightarrow> (err, store) result" where
  "GetStore s storeID =
     (case map_of (mb_stores s) storeID of None \<Rightarrow> Inl ErrNotFound | Some st \<Rightarrow> Inr st)"

definition ListStores :: "MemoryBackend \<Rightarrow> ListStoresOptions \<Rightarrow>
    (err, store list \<times> string) result option" where
  "ListStores s options =
     (let stores = map snd (mb_stores s);
          stores = (if lso_IDs options \<noteq> []
                    then concat (map (\<lambda>storeID. filter (\<lambda>st. st_id st = storeID) stores) (lso_IDs options))
                    else stores);
          stores = (if lso_Name options \<noteq> [] then filter (\<lambda>st. st_name st = lso_Name options) stores
                    else stores);
          stores = sort_key st_id stores
      in case slice_page stores (lso_Pagination options) of
           Some (Inr (res, token)) \<Rightarrow> if res = [] then Some (Inr ([], [])) else Some (Inr (res, token))
         | r \<Rightarrow> r)"

definition assertionsID :: "string \<Rightarrow> string \<Rightarrow> string" where
  "assertionsID store modelID = store @ ''|'' @ modelID"

definition WriteAssertions ::
  "MemoryBackend \<Rightarrow> string \<Rightarrow> string \<Rightarrow> assertion list \<Rightarrow> MemoryBackend" where
  "WriteAssertions s store modelID asserts =
     s\<lparr>mb_assertions := (mb_assertions s)(assertionsID store modelID \<mapsto> asserts)\<rparr>"

definition ReadAssertions :: "MemoryBackend \<Rightarrow> string \<Rightarrow> string \<Rightarrow> assertion list" where
  "ReadAssertions s store modelID =
     (case mb_assertions s (assertionsID store modelID) of None \<Rightarrow> [] | Some as \<Rightarrow> as)"

section \<open>What a store holds\<close>

text \<open>
  The abstract view of a store: a map from the object, relation and user of a tuple to its
  condition.
\<close>

type_synonym tuple_id = "string \<times> string \<times> string"

definition tk_id :: "'a tuple_key_nc_scheme \<Rightarrow> tuple_id" where
  "tk_id tk = (tk_object tk, tk_relation tk, tk_user tk)"

definition rec_id :: "TupleRecord \<Rightarrow> tuple_id" where
  "rec_id r = (BuildObject (tr_ObjectType r) (tr_ObjectID r), tr_Relation r, tr_User r)"

definition rec_cond :: "TupleRecord \<Rightarrow> rel_condition option" where
  "rec_cond r = NewRelationshipCondition (tr_ConditionName r) (tr_ConditionContext r)"

definition abs_records :: "TupleRecord list \<Rightarrow> (tuple_id \<rightharpoonup> rel_condition option)" where
  "abs_records recs = map_of (map (\<lambda>r. (rec_id r, rec_cond r)) recs)"

definition write_cond :: "tuple_key \<Rightarrow> rel_condition option" where
  "write_cond t =
     (case tk_condition t of
        None \<Rightarrow> None
      | Some c \<Rightarrow> NewRelationshipCondition (cond_name c) (cond_context c))"

text \<open>A key whose object has a type and an id, and that has a relation and a user.\<close>

definition full_key :: "'a tuple_key_nc_scheme \<Rightarrow> bool" where
  "full_key tk \<longleftrightarrow>
     fst (SplitObject (tk_object tk)) \<noteq> [] \<and> snd (SplitObject (tk_object tk)) \<noteq> [] \<and>
     tk_relation tk \<noteq> [] \<and> tk_user tk \<noteq> []"

definition wf_record :: "TupleRecord \<Rightarrow> bool" where
  "wf_record r \<longleftrightarrow>
     tr_ObjectType r \<noteq> [] \<and> CHR '':'' \<notin> set (tr_ObjectType r) \<and> tr_ObjectID r \<noteq> [] \<and>
     tr_Relation r \<noteq> [] \<and> tr_User r \<noteq> []"

definition wf_store :: "TupleRecord list \<Rightarrow> bool" where
  "wf_store recs \<longleftrightarrow> (\<forall>r\<in>set recs. wf_record r) \<and> distinct (map rec_id recs)"

text \<open>The effect of a change, and of a changelog read from its beginning.\<close>

definition apply_change ::
  "(tuple_id \<rightharpoonup> rel_condition option) \<Rightarrow> tuple_change \<Rightarrow> (tuple_id \<rightharpoonup> rel_condition option)" where
  "apply_change m c =
     (case tc_operation c of
        TUPLE_OPERATION_WRITE \<Rightarrow> m(tk_id (tc_tuple_key c) \<mapsto> tk_condition (tc_tuple_key c))
      | TUPLE_OPERATION_DELETE \<Rightarrow> m(tk_id (tc_tuple_key c) := None))"

definition replay :: "tuple_change list \<Rightarrow> (tuple_id \<rightharpoonup> rel_condition option)" where
  "replay cs = foldl apply_change Map.empty cs"

lemma match_full:
  assumes "wf_record r" and "full_key tk"
  shows "match r tk \<longleftrightarrow> rec_id r = tk_id tk"
proof -
  obtain t i where ti: "SplitObject (tk_object tk) = (t, i)" by (cases "SplitObject (tk_object tk)")
  with assms(2) have "t \<noteq> []" "i \<noteq> []" by (auto simp: full_key_def)
  with ti have ob: "tk_object tk = BuildObject t i" "CHR '':'' \<notin> set t"
    using SplitObject_eq_iff by blast+
  moreover have "BuildObject (tr_ObjectType r) (tr_ObjectID r) = BuildObject t i \<longleftrightarrow>
      tr_ObjectType r = t \<and> tr_ObjectID r = i"
    using assms(1) ob(2) by (simp add: BuildObject_inject wf_record_def)
  moreover have "BuildObject t i \<noteq> []" by (simp add: BuildObject_def)
  ultimately show ?thesis
    using assms ti \<open>i \<noteq> []\<close>
    by (auto simp: match_def rec_id_def tk_id_def full_key_def)
qed

lemma full_key_conv [simp]:
  "full_key (TupleKeyWithoutConditionToTupleKey tk) \<longleftrightarrow> full_key tk"
  "tk_id (TupleKeyWithoutConditionToTupleKey tk) = tk_id tk"
  by (simp_all add: full_key_def tk_id_def TupleKeyWithoutConditionToTupleKey_def)

lemma abs_records_dom: "k \<in> dom (abs_records recs) \<longleftrightarrow> k \<in> rec_id ` set recs"
  by (auto simp: abs_records_def dom_map_of_conv_image_fst image_image)

lemma find_full:
  "\<forall>r\<in>set recs. wf_record r \<Longrightarrow> full_key tk \<Longrightarrow> find recs tk \<longleftrightarrow> tk_id tk \<in> dom (abs_records recs)"
  by (auto simp: find_def match_full abs_records_dom) (metis image_eqI)

section \<open>The effect of Write\<close>

definition deleted_by :: "tuple_key_nc list \<Rightarrow> TupleRecord \<Rightarrow> bool" where
  "deleted_by deletes r \<longleftrightarrow> (\<exists>d\<in>set deletes. match r (TupleKeyWithoutConditionToTupleKey d))"

definition delete_change :: "int \<Rightarrow> TupleRecord \<Rightarrow> tuple_change" where
  "delete_change now r =
     (let tk = t_key (AsTuple r)
      in \<lparr>tc_tuple_key = NewTupleKey (tk_object tk) (tk_relation tk) (tk_user tk),
          tc_operation = TUPLE_OPERATION_DELETE, tc_timestamp = now\<rparr>)"

lemma delete_loop_Cons:
  "delete_loop now mk k deletes (r # recs) =
     (if deleted_by deletes r
      then let (kept, chs, k') = delete_loop now mk (Suc k) deletes recs
           in (kept, \<lparr>Change = delete_change now r, Ulid = mk k\<rparr> # chs, k')
      else let (kept, chs, k') = delete_loop now mk k deletes recs in (r # kept, chs, k'))"
  by (simp add: deleted_by_def delete_change_def Let_def)

lemma delete_loop_spec:
  "delete_loop now mk k deletes recs = (kept, chs, k') \<Longrightarrow>
     kept = filter (\<lambda>r. \<not> deleted_by deletes r) recs \<and>
     map Change chs = map (delete_change now) (filter (deleted_by deletes) recs) \<and>
     k \<le> k' \<and> map Ulid chs = map mk [k..<k']"
proof (induction recs arbitrary: k kept chs)
  case (Cons r recs)
  show ?case
  proof (cases "deleted_by deletes r")
    case True
    with Cons.prems obtain chs' where
      rec: "delete_loop now mk (Suc k) deletes recs = (kept, chs', k')"
        "chs = \<lparr>Change = delete_change now r, Ulid = mk k\<rparr> # chs'"
      by (auto simp: delete_loop_Cons Let_def simp del: delete_loop.simps split: prod.splits)
    from Cons.IH [OF rec(1)] rec(2) True show ?thesis by (simp add: upt_conv_Cons)
  next
    case False
    with Cons.prems obtain kept' where
      "delete_loop now mk k deletes recs = (kept', chs, k')" "kept = r # kept'"
      by (auto simp: delete_loop_Cons Let_def simp del: delete_loop.simps split: prod.splits)
    with Cons.IH False show ?thesis by auto
  qed
qed simp

lemma AsTuple_id [simp]: "wf_record r \<Longrightarrow> tk_id (t_key (AsTuple r)) = rec_id r"
  by (simp add: AsTuple_def tk_id_def rec_id_def wf_record_def NewTupleKeyWithCondition_def Let_def)

lemma AsTuple_cond [simp]: "tk_condition (t_key (AsTuple r)) = rec_cond r"
  by (simp add: AsTuple_def rec_cond_def NewTupleKeyWithCondition_def Let_def)

lemma abs_records_Nil [simp]: "abs_records [] = Map.empty"
  by (simp add: abs_records_def)

lemma abs_records_Cons [simp]: "abs_records (r # rs) = (abs_records rs)(rec_id r \<mapsto> rec_cond r)"
  by (simp add: abs_records_def)

lemma abs_records_append: "abs_records (xs @ ys) = abs_records ys ++ abs_records xs"
  by (simp add: abs_records_def)

lemma abs_records_None: "abs_records rs k = None \<longleftrightarrow> k \<notin> rec_id ` set rs"
  by (metis abs_records_dom domIff)

text \<open>Replaying the deletions of some records removes these records from the map.\<close>

lemma foldl_deletes:
  assumes "\<forall>r\<in>set rs. wf_record r"
  shows "foldl apply_change m (map (delete_change now) rs) = m |` (- rec_id ` set rs)"
  using assms
proof (induction rs arbitrary: m)
  case (Cons r rs)
  have "tk_id (tc_tuple_key (delete_change now r)) = rec_id r"
    using Cons.prems AsTuple_id [of r]
    by (simp add: tk_id_def NewTupleKey_def delete_change_def Let_def)
  then have "apply_change m (delete_change now r) = m(rec_id r := None)"
    by (simp add: apply_change_def) (simp add: delete_change_def Let_def)
  then have "foldl apply_change m (map (delete_change now) (r # rs)) =
      m(rec_id r := None) |` (- rec_id ` set rs)"
    using Cons by simp
  also have "\<dots> = m |` (- rec_id ` set (r # rs))"
    by (rule ext) (simp add: restrict_map_def)
  finally show ?case .
qed (auto simp: restrict_map_def)

lemma abs_records_filter:
  assumes "wf_store recs"
  shows "abs_records (filter P recs) = abs_records recs |` (- rec_id ` set (filter (\<lambda>r. \<not> P r) recs))"
  using assms
proof (induction recs)
  case (Cons r recs)
  then have "rec_id r \<notin> rec_id ` set recs" and IH: "abs_records (filter P recs) =
      abs_records recs |` (- rec_id ` set (filter (\<lambda>r. \<not> P r) recs))"
    by (auto simp: wf_store_def)
  then show ?case
    by (auto simp: IH restrict_map_def fun_eq_iff abs_records_None)
qed (simp add: restrict_map_def)

definition new_record :: "(ulid \<Rightarrow> string) \<Rightarrow> string \<Rightarrow> int \<Rightarrow> ulid \<Rightarrow> tuple_key \<Rightarrow> TupleRecord" where
  "new_record ulid_String store now u t =
     (let (name, context) =
            (case tk_condition t of None \<Rightarrow> ([], None) | Some c \<Rightarrow> (cond_name c, cond_context c))
      in \<lparr>tr_Store = store, tr_ObjectType = fst (SplitObject (tk_object t)),
          tr_ObjectID = snd (SplitObject (tk_object t)), tr_Relation = tk_relation t,
          tr_User = tk_user t, tr_UserObjectType = [], tr_UserObjectID = [], tr_UserRelation = [],
          tr_ConditionName = name, tr_ConditionContext = context, tr_Ulid = ulid_String u,
          tr_InsertedAt = now\<rparr>)"

definition write_change :: "int \<Rightarrow> tuple_key \<Rightarrow> tuple_change" where
  "write_change now t =
     (let (name, context) =
            (case tk_condition t of None \<Rightarrow> ([], None) | Some c \<Rightarrow> (cond_name c, cond_context c))
      in \<lparr>tc_tuple_key = NewTupleKeyWithCondition
             (BuildObject (fst (SplitObject (tk_object t))) (snd (SplitObject (tk_object t))))
             (tk_relation t) (tk_user t) name context,
          tc_operation = TUPLE_OPERATION_WRITE, tc_timestamp = now\<rparr>)"

lemma write_loop_Cons:
  "write_loop us store now mk k recs (t # ts) =
     (if find recs t then write_loop us store now mk k recs ts
      else let (recs', chs) = write_loop us store now mk (k + 2) (recs @ [new_record us store now (mk k) t]) ts
           in (recs', \<lparr>Change = write_change now t, Ulid = mk (k + 1)\<rparr> # chs))"
  by (simp add: find_def new_record_def write_change_def Let_def split: prod.split option.split)

lemma full_key_object:
  "full_key t \<Longrightarrow> BuildObject (fst (SplitObject (tk_object t))) (snd (SplitObject (tk_object t))) = tk_object t"
  by (metis BuildObject_SplitObject SplitObject_no_colon fst_conv full_key_def)

lemma new_record_facts:
  assumes "full_key t"
  shows "wf_record (new_record us store now u t)" "rec_id (new_record us store now u t) = tk_id t"
    "rec_cond (new_record us store now u t) = write_cond t"
  using assms full_key_object [OF assms]
  by (auto simp: new_record_def wf_record_def rec_id_def tk_id_def rec_cond_def write_cond_def
      NewRelationshipCondition_def full_key_def Let_def split: option.split)

lemma write_change_facts:
  assumes "full_key t"
  shows "apply_change m (write_change now t) = m(tk_id t \<mapsto> write_cond t)"
    "tc_timestamp (write_change now t) = now"
  using full_key_object [OF assms]
  by (auto simp: write_change_def apply_change_def tk_id_def write_cond_def
      NewTupleKeyWithCondition_def NewRelationshipCondition_def Let_def split: option.split)

lemma wf_store_snoc:
  "wf_store recs \<Longrightarrow> full_key t \<Longrightarrow> \<not> find recs t \<Longrightarrow> wf_store (recs @ [new_record us store now u t])"
  by (auto simp: wf_store_def new_record_facts find_def match_full)

lemma map_add_override:
  "k \<in> dom m' \<Longrightarrow> m(k \<mapsto> v) ++ m' = m ++ m'"
  "k \<notin> dom m' \<Longrightarrow> m ++ m'(k \<mapsto> v) = m(k \<mapsto> v) ++ m'"
  by (rule ext; auto simp: map_add_def split: option.split)+

lemma write_loop_spec:
  assumes "wf_store recs" and "\<forall>t\<in>set ts. full_key t"
    and "write_loop us store now mk k recs ts = (recs', chs)"
  shows "wf_store recs' \<and>
     abs_records recs' = map_of (map (\<lambda>t. (tk_id t, write_cond t)) ts) ++ abs_records recs \<and>
     foldl apply_change (abs_records recs) (map Change chs) = abs_records recs' \<and>
     (\<forall>c\<in>set chs. tc_timestamp (Change c) = now) \<and>
     (strict_mono mk \<longrightarrow> sorted_wrt (<) (map Ulid chs) \<and> (\<forall>c\<in>set chs. mk k < Ulid c))"
  using assms
proof (induction ts arbitrary: recs k chs)
  case (Cons t ts)
  show ?case
  proof (cases "find recs t")
    case True
    with Cons.prems have dom: "tk_id t \<in> dom (abs_records recs)"
      using find_full [of recs t] by (simp add: wf_store_def)
    from True Cons have "wf_store recs' \<and>
      abs_records recs' = map_of (map (\<lambda>t. (tk_id t, write_cond t)) ts) ++ abs_records recs \<and>
      foldl apply_change (abs_records recs) (map Change chs) = abs_records recs' \<and>
      (\<forall>c\<in>set chs. tc_timestamp (Change c) = now) \<and>
      (strict_mono mk \<longrightarrow> sorted_wrt (<) (map Ulid chs) \<and> (\<forall>c\<in>set chs. mk k < Ulid c))"
      by (simp add: write_loop_Cons del: write_loop.simps)
    moreover have "m(tk_id t \<mapsto> write_cond t) ++ abs_records recs = m ++ abs_records recs" for m
      using dom by (rule map_add_override)
    ultimately show ?thesis by (simp add: fun_upd_def)
  next
    case False
    let ?r = "new_record us store now (mk k) t"
    have t: "full_key t" using Cons.prems(2) by simp
    from False Cons.prems(3) obtain chs' where
      rec: "write_loop us store now mk (k + 2) (recs @ [?r]) ts = (recs', chs')"
        "chs = \<lparr>Change = write_change now t, Ulid = mk (k + 1)\<rparr> # chs'"
      by (auto simp: write_loop_Cons Let_def simp del: write_loop.simps split: prod.splits)
    have "tk_id t \<notin> dom (abs_records recs)"
      using find_full [of recs t] False Cons.prems(1) t by (simp add: wf_store_def)
    then have abs: "abs_records (recs @ [?r]) = (abs_records recs)(tk_id t \<mapsto> write_cond t)"
      by (auto simp: abs_records_append new_record_facts [OF t] map_add_def fun_eq_iff split: option.split)
    then have add: "m ++ abs_records (recs @ [?r]) = m(tk_id t \<mapsto> write_cond t) ++ abs_records recs" for m
      using \<open>tk_id t \<notin> dom (abs_records recs)\<close> by (simp only: map_add_override(2) not_False_eq_True)
    have IH: "wf_store recs' \<and>
      abs_records recs' = map_of (map (\<lambda>t. (tk_id t, write_cond t)) ts) ++ abs_records (recs @ [?r]) \<and>
      foldl apply_change (abs_records (recs @ [?r])) (map Change chs') = abs_records recs' \<and>
      (\<forall>c\<in>set chs'. tc_timestamp (Change c) = now) \<and>
      (strict_mono mk \<longrightarrow> sorted_wrt (<) (map Ulid chs') \<and> (\<forall>c\<in>set chs'. mk (k + 2) < Ulid c))"
      using Cons.prems(2) wf_store_snoc [OF Cons.prems(1) t False] by (intro Cons.IH rec(1)) auto
    show ?thesis
    proof (intro conjI impI)
      show "wf_store recs'" using IH by simp
      show "abs_records recs' = map_of (map (\<lambda>t. (tk_id t, write_cond t)) (t # ts)) ++ abs_records recs"
        using IH add by (simp add: fun_upd_def)
      show "foldl apply_change (abs_records recs) (map Change chs) = abs_records recs'"
        using IH abs rec(2) write_change_facts(1) [OF t] by simp
      show "\<forall>c\<in>set chs. tc_timestamp (Change c) = now"
        using IH rec(2) write_change_facts(2) [OF t] by simp
      assume mono: "strict_mono mk"
      then have lt: "mk k < mk (k + 1)" "mk (k + 1) < mk (k + 2)"
        by (simp_all add: strict_mono_less)
      with IH mono have "\<forall>c\<in>set chs'. mk (k + 1) < Ulid c" by (blast intro: order.strict_trans)
      with IH mono lt show "sorted_wrt (<) (map Ulid chs)" "\<forall>c\<in>set chs. mk k < Ulid c"
        using rec(2) by (auto intro: order.strict_trans)
    qed
  qed
qed simp

lemma validate_deletes_None: "validate_deletes recs ds = None \<longleftrightarrow>
    (\<forall>d\<in>set ds. find recs (TupleKeyWithoutConditionToTupleKey d))"
  by (induction ds) auto

lemma validate_writes_None: "validate_writes recs ws = None \<longleftrightarrow> (\<forall>w\<in>set ws. \<not> find recs w)"
  by (induction ws) auto

lemma validate_Is:
  "validate_deletes recs ds = Some e \<Longrightarrow> errors_Is e ErrInvalidWriteInput"
  "validate_writes recs ws = Some e \<Longrightarrow> errors_Is e ErrInvalidWriteInput"
  by (induction ds, auto split: if_splits) (induction ws, auto split: if_splits)

lemma validateTuples_spec:
  assumes "\<forall>r\<in>set recs. wf_record r" and "\<forall>d\<in>set ds. full_key d" and "\<forall>w\<in>set ws. full_key w"
  shows "validateTuples recs ds ws = None \<longleftrightarrow>
      (\<forall>d\<in>set ds. tk_id d \<in> dom (abs_records recs)) \<and> (\<forall>w\<in>set ws. tk_id w \<notin> dom (abs_records recs))"
    and "validateTuples recs ds ws = Some e \<Longrightarrow> errors_Is e ErrInvalidWriteInput"
proof -
  have "find recs (TupleKeyWithoutConditionToTupleKey d) \<longleftrightarrow> tk_id d \<in> dom (abs_records recs)"
    if "d \<in> set ds" for d
    using find_full [OF assms(1), of "TupleKeyWithoutConditionToTupleKey d"] assms(2) that by simp
  moreover have "find recs w \<longleftrightarrow> tk_id w \<in> dom (abs_records recs)" if "w \<in> set ws" for w
    using find_full [OF assms(1)] assms(3) that by blast
  ultimately show "validateTuples recs ds ws = None \<longleftrightarrow>
      (\<forall>d\<in>set ds. tk_id d \<in> dom (abs_records recs)) \<and> (\<forall>w\<in>set ws. tk_id w \<notin> dom (abs_records recs))"
    unfolding validateTuples_def
    by (simp add: validate_writes_None option.case_eq_if validate_deletes_None flip: not_None_eq) blast
  show "validateTuples recs ds ws = Some e \<Longrightarrow> errors_Is e ErrInvalidWriteInput"
    by (auto simp: validateTuples_def split: option.splits dest: validate_Is)
qed

text \<open>What a successful \<^verbatim>\<open>Write\<close> leaves in the store and appends to its changelog.\<close>

lemma Write_effect:
  assumes wf: "wf_store (mb_tuples s store)" and ws: "\<forall>w\<in>set ws. full_key w"
    and ok: "Write us now mk s store ds ws = Inr s'"
  obtains recs chs where
    "s' = s\<lparr>mb_tuples := (mb_tuples s)(store := recs),
            mb_changes := (mb_changes s)(store := mb_changes s store @ chs)\<rparr>"
    "wf_store recs"
    "abs_records recs = map_of (map (\<lambda>t. (tk_id t, write_cond t)) ws) ++
       (abs_records (mb_tuples s store) |` (- rec_id ` set (filter (deleted_by ds) (mb_tuples s store))))"
    "foldl apply_change (abs_records (mb_tuples s store)) (map Change chs) = abs_records recs"
    "\<forall>c\<in>set chs. tc_timestamp (Change c) = now"
    "strict_mono mk \<longrightarrow> sorted_wrt (<) (map Ulid chs) \<and> (\<forall>c\<in>set chs. mk 0 \<le> Ulid c)"
proof -
  let ?recs = "mb_tuples s store"
  obtain kept dels k where del: "delete_loop now mk 0 ds ?recs = (kept, dels, k)"
    by (cases "delete_loop now mk 0 ds ?recs")
  obtain recs wrs where wr: "write_loop us store now mk k kept ws = (recs, wrs)"
    by (cases "write_loop us store now mk k kept ws")
  note d = delete_loop_spec [OF del]
  have wfr: "\<forall>r\<in>set ?recs. wf_record r" using wf by (simp add: wf_store_def)
  have "wf_store kept" using wf d by (auto simp: wf_store_def distinct_map_filter)
  note w = write_loop_spec [OF this ws wr]
  have kept: "abs_records kept = abs_records ?recs |` (- rec_id ` set (filter (deleted_by ds) ?recs))"
    using abs_records_filter [OF wf, of "\<lambda>r. \<not> deleted_by ds r"] d by simp
  have replay: "foldl apply_change (abs_records ?recs) (map Change dels) = abs_records kept"
    using foldl_deletes [of "filter (deleted_by ds) ?recs" "abs_records ?recs" now] wfr d kept by simp
  have dts: "\<forall>c\<in>set dels. tc_timestamp (Change c) = now"
  proof
    fix c assume "c \<in> set dels"
    then have "Change c \<in> set (map Change dels)" by simp
    then show "tc_timestamp (Change c) = now" using d by (auto simp: delete_change_def Let_def)
  qed
  have ulids: "map Ulid dels = map mk [0..<k]" using d by simp
  show thesis
  proof (rule that [where recs = recs and chs = "dels @ wrs"])
    show "s' = s\<lparr>mb_tuples := (mb_tuples s)(store := recs),
            mb_changes := (mb_changes s)(store := mb_changes s store @ dels @ wrs)\<rparr>"
      using ok by (auto simp: Write_def del wr split: option.splits)
    have "sorted_wrt (<) (map Ulid (dels @ wrs))" if "strict_mono mk"
      using w that ulids
      by (auto simp: sorted_wrt_append sorted_wrt_map strict_mono_less sorted_wrt_upt
          intro: order.strict_trans [of _ "mk k"])
    moreover have "\<forall>c\<in>set (dels @ wrs). mk 0 \<le> Ulid c" if "strict_mono mk"
    proof -
      have "Ulid c \<in> mk ` {0..<k}" if "c \<in> set dels" for c
        using ulids that by (metis image_eqI list.set_map set_upt)
      moreover have "mk 0 \<le> mk i" for i using \<open>strict_mono mk\<close> by (simp add: strict_mono_less_eq)
      ultimately show ?thesis using w that by (fastforce intro: order.trans [of _ "mk k"])
    qed
    ultimately show "strict_mono mk \<longrightarrow>
        sorted_wrt (<) (map Ulid (dels @ wrs)) \<and> (\<forall>c\<in>set (dels @ wrs). mk 0 \<le> Ulid c)"
      by blast
  qed (use w kept replay dts in auto)
qed

lemma deleted_ids:
  assumes wf: "wf_store recs" and ds: "\<forall>d\<in>set ds. full_key d"
  shows "abs_records recs |` (- rec_id ` set (filter (deleted_by ds) recs)) = abs_records recs |` (- tk_id ` set ds)"
proof -
  have "deleted_by ds r \<longleftrightarrow> rec_id r \<in> tk_id ` set ds" if "r \<in> set recs" for r
    using match_full [of r "TupleKeyWithoutConditionToTupleKey _"] wf ds that
    by (auto simp: deleted_by_def wf_store_def image_iff)
  then have "set (filter (deleted_by ds) recs) = {r \<in> set recs. rec_id r \<in> tk_id ` set ds}" by auto
  then have "rec_id ` set (filter (deleted_by ds) recs) = rec_id ` set recs \<inter> tk_id ` set ds" by blast
  then show ?thesis by (auto simp: restrict_map_def abs_records_None fun_eq_iff)
qed

section \<open>Reachable states\<close>

text \<open>
  The states of a backend that starts empty and serves any sequence of operations. The generator
  hands out increasing ULIDs, above those handed out before, and the clock does not run backwards;
  the keys written are complete, which the callers validate.
\<close>

inductive reachable :: "(ulid \<Rightarrow> string) \<Rightarrow> MemoryBackend \<Rightarrow> bool" for us where
  reachable_New: "reachable us New"
| reachable_Write: "reachable us s \<Longrightarrow> \<forall>w\<in>set ws. full_key w \<Longrightarrow>
    strict_mono mk \<Longrightarrow> \<forall>c\<in>set (mb_changes s store). Ulid c < mk 0 \<Longrightarrow>
    \<forall>c\<in>set (mb_changes s store). tc_timestamp (Change c) \<le> now \<Longrightarrow>
    Write us now mk s store ds ws = Inr s' \<Longrightarrow> reachable us s'"
| reachable_WriteAuthorizationModel:
    "reachable us s \<Longrightarrow> reachable us (WriteAuthorizationModel s store model)"
| reachable_CreateStore:
    "reachable us s \<Longrightarrow> CreateStore now s newStore = Inr (st, s') \<Longrightarrow> reachable us s'"
| reachable_DeleteStore: "reachable us s \<Longrightarrow> reachable us (DeleteStore s storeID)"
| reachable_WriteAssertions:
    "reachable us s \<Longrightarrow> reachable us (WriteAssertions s store modelID asserts)"

definition store_inv :: "MemoryBackend \<Rightarrow> string \<Rightarrow> bool" where
  "store_inv s store \<longleftrightarrow>
     wf_store (mb_tuples s store) \<and>
     abs_records (mb_tuples s store) = replay (map Change (mb_changes s store)) \<and>
     sorted_wrt (<) (map Ulid (mb_changes s store)) \<and>
     sorted (map (tc_timestamp \<circ> Change) (mb_changes s store))"

lemma store_inv_Write:
  assumes inv: "\<forall>st. store_inv s st" and "\<forall>w\<in>set ws. full_key w"
    and mono: "strict_mono mk" and fresh: "\<forall>c\<in>set (mb_changes s store). Ulid c < mk 0"
    and clock: "\<forall>c\<in>set (mb_changes s store). tc_timestamp (Change c) \<le> now"
    and ok: "Write us now mk s store ds ws = Inr s'"
  shows "store_inv s' st"
proof -
  have "wf_store (mb_tuples s store)" using inv by (simp add: store_inv_def)
  then obtain recs chs where
    s': "s' = s\<lparr>mb_tuples := (mb_tuples s)(store := recs),
            mb_changes := (mb_changes s)(store := mb_changes s store @ chs)\<rparr>"
    and recs: "wf_store recs"
      "foldl apply_change (abs_records (mb_tuples s store)) (map Change chs) = abs_records recs"
    and chs: "\<forall>c\<in>set chs. tc_timestamp (Change c) = now"
      "strict_mono mk \<longrightarrow> sorted_wrt (<) (map Ulid chs) \<and> (\<forall>c\<in>set chs. mk 0 \<le> Ulid c)"
    by (rule Write_effect [OF _ assms(2) ok])
  have "abs_records recs = replay (map Change (mb_changes s store @ chs))"
    using inv recs(2) by (simp add: store_inv_def replay_def)
  moreover have "sorted_wrt (<) (map Ulid (mb_changes s store @ chs))"
    using inv chs(2) mono fresh by (auto simp: store_inv_def sorted_wrt_append intro: less_le_trans)
  moreover have "sorted (map (tc_timestamp \<circ> Change) (mb_changes s store @ chs))"
  proof -
    have "map (tc_timestamp \<circ> Change) chs = replicate (length chs) now"
      using chs(1) by (simp add: map_replicate_const [symmetric] cong: map_cong)
    then show ?thesis
      using inv clock chs(1) by (auto simp: store_inv_def sorted_append)
  qed
  ultimately show ?thesis
    using inv recs(1) by (auto simp: store_inv_def s')
qed

lemma reachable_store_inv: "reachable us s \<Longrightarrow> store_inv s st"
proof (induction arbitrary: st rule: reachable.induct)
  case reachable_New
  show ?case by (simp add: store_inv_def New_def wf_store_def replay_def)
next
  case (reachable_Write s ws mk store now ds s')
  then show ?case using store_inv_Write by blast
qed (auto simp: store_inv_def WriteAuthorizationModel_def CreateStore_def DeleteStore_def
    WriteAssertions_def Let_def split: if_splits)

section \<open>Following continuation tokens\<close>

text \<open>
  A client that reads page after page, passing on the continuation token: of \<^verbatim>\<open>ReadPage\<close> until the
  token is empty, of \<^verbatim>\<open>ReadChanges\<close> until nothing is found.
\<close>

partial_function (option) read_pages ::
  "MemoryBackend \<Rightarrow> string \<Rightarrow> tuple_key \<Rightarrow> int \<Rightarrow> string \<Rightarrow> tuple list option" where
  "read_pages s store key pageSize token =
     (case ReadPage Live s store key \<lparr>PageSize = pageSize, From = token\<rparr> of
        None \<Rightarrow> None
      | Some r \<Rightarrow>
          (case r of
             Inl e \<Rightarrow> None
           | Inr (ts, token') \<Rightarrow>
               if token' = [] then Some ts
               else Option.bind (read_pages s store key pageSize token') (\<lambda>rest. Some (ts @ rest))))"

partial_function (option) read_all_changes ::
  "(string \<Rightarrow> ulid option) \<Rightarrow> (ulid \<Rightarrow> string) \<Rightarrow> int \<Rightarrow> MemoryBackend \<Rightarrow> string \<Rightarrow> ReadChangesFilter \<Rightarrow>
   int \<Rightarrow> bool \<Rightarrow> string \<Rightarrow> tuple_change list option" where
  "read_all_changes ulid_Parse ulid_String now s store flt pageSize desc token =
     (case ReadChanges ulid_Parse ulid_String now s store flt
             \<lparr>rco_Pagination = \<lparr>PageSize = pageSize, From = token\<rparr>, rco_SortDesc = desc\<rparr> of
        Inl e \<Rightarrow> if e = ErrNotFound then Some [] else None
      | Inr (cs, token') \<Rightarrow>
          Option.bind (read_all_changes ulid_Parse ulid_String now s store flt pageSize desc token')
            (\<lambda>rest. Some (cs @ rest)))"

definition matching :: "MemoryBackend \<Rightarrow> string \<Rightarrow> tuple_key \<Rightarrow> TupleRecord list" where
  "matching s store tk =
     (if tk_object tk = [] \<and> tk_relation tk = [] \<and> tk_user tk = [] then mb_tuples s store
      else filter (\<lambda>t. match t tk) (mb_tuples s store))"

lemma ToArray_Live [simp]: "ToArray Live recs = Inr (map AsTuple recs)"
  by (induction recs) auto

lemma ReadPage_at:
  assumes "0 < pageSize" and "k \<le> length (matching s store key)"
    and "int (length (matching s store key)) + pageSize < 2 ^ 63"
    and "token = (if k = 0 then [] else Itoa (int k))"
  shows "ReadPage Live s store key \<lparr>PageSize = pageSize, From = token\<rparr> =
    Some (Inr (map AsTuple (take (nat pageSize) (drop k (matching s store key))),
               if k + nat pageSize < length (matching s store key) then Itoa (int (k + nat pageSize)) else []))"
proof -
  have "(if token = [] then Some 0 else Atoi token) = Some (int k)"
    using assms by simp
  moreover have "go_int (int k + pageSize) = int (k + nat pageSize)"
    using assms by (subst go_int_id) simp_all
  ultimately show ?thesis
    using assms by (auto simp: ReadPage_def read_def matching_def Let_def)
qed

lemma read_pages_at:
  assumes "0 < pageSize" and "k \<le> length (matching s store key)"
    and "int (length (matching s store key)) + pageSize < 2 ^ 63"
    and "token = (if k = 0 then [] else Itoa (int k))"
  shows "read_pages s store key pageSize token = Some (map AsTuple (drop k (matching s store key)))"
  using assms
proof (induction "length (matching s store key) - k" arbitrary: k token rule: less_induct)
  case less
  let ?m = "matching s store key"
  note page = ReadPage_at [OF less.prems]
  show ?case
  proof (cases "k + nat pageSize < length ?m")
    case True
    have "read_pages s store key pageSize (Itoa (int (k + nat pageSize))) =
        Some (map AsTuple (drop (k + nat pageSize) ?m))"
      using less.prems True by (intro less.hyps) auto
    moreover have "take (nat pageSize) (drop k ?m) @ drop (k + nat pageSize) ?m = drop k ?m"
      by (metis add.commute append_take_drop_id drop_drop)
    ultimately show ?thesis
      using page True
      by (simp add: read_pages.simps [of s store key pageSize token] flip: map_append)
  next
    case False
    with page show ?thesis
      by (simp add: read_pages.simps [of s store key pageSize token])
  qed
qed

text \<open>The changes that \<^verbatim>\<open>ReadChanges\<close> gives page by page, in the order it gives them.\<close>

definition visible_changes :: "int \<Rightarrow> MemoryBackend \<Rightarrow> string \<Rightarrow> ReadChangesFilter \<Rightarrow> bool \<Rightarrow> tupleChangeRec list" where
  "visible_changes now s store flt desc =
     (let all = scan_changes (rcf_ObjectType flt) (now - rcf_HorizonOffset flt) None desc (mb_changes s store)
      in if desc then rev all else all)"

definition after :: "bool \<Rightarrow> ulid \<Rightarrow> ulid \<Rightarrow> bool" where
  "after desc u v \<longleftrightarrow> (if desc then v < u else u < v)"

lemma scan_from:
  "scan_changes ot lim (Some f) desc recs = filter (\<lambda>r. after desc f (Ulid r)) (scan_changes ot lim None desc recs)"
  by (induction recs) (auto simp: after_def)

lemma scan_subset: "set (scan_changes ot lim from desc recs) \<subseteq> set recs"
  by (induction recs) auto

lemma scan_sorted:
  "sorted_wrt (<) (map Ulid recs) \<Longrightarrow> sorted_wrt (<) (map Ulid (scan_changes ot lim None desc recs))"
  using scan_subset by (induction recs) fastforce+

lemma visible_sorted:
  "sorted_wrt (<) (map Ulid (mb_changes s store)) \<Longrightarrow>
   sorted_wrt (after desc) (map Ulid (visible_changes now s store flt desc))"
  using scan_sorted [of "mb_changes s store" "rcf_ObjectType flt" "now - rcf_HorizonOffset flt" desc]
  by (auto simp: visible_changes_def Let_def after_def sorted_wrt_rev rev_map [symmetric] sorted_wrt_map)

lemma filter_after:
  assumes "sorted_wrt (after desc) (map Ulid xs)" and "k < length xs"
  shows "filter (\<lambda>r. after desc (Ulid (xs ! k)) (Ulid r)) xs = drop (Suc k) xs"
proof -
  have "filter (\<lambda>r. after desc (Ulid (xs ! k)) (Ulid r)) (take (Suc k) xs) = []"
  proof (clarsimp simp: filter_empty_conv in_set_conv_nth)
    fix i
    assume "i < Suc k" and "i < length xs" and "after desc (Ulid (xs ! k)) (Ulid (xs ! i))"
    moreover have "i < k \<Longrightarrow> after desc (Ulid (xs ! i)) (Ulid (xs ! k))"
      using assms by (simp add: sorted_wrt_iff_nth_less)
    ultimately show False by (auto simp: after_def less_Suc_eq split: if_splits)
  qed
  moreover have "filter (\<lambda>r. after desc (Ulid (xs ! k)) (Ulid r)) (drop (Suc k) xs) = drop (Suc k) xs"
    using assms by (auto simp: filter_id_conv in_set_conv_nth sorted_wrt_iff_nth_less)
  ultimately show ?thesis by (metis append_Nil append_take_drop_id filter_append)
qed

lemma ReadChanges_at:
  assumes parse: "\<And>u. ulid_Parse (ulid_String u) = Some u" "\<And>u. ulid_String u \<noteq> []"
    and sorted: "sorted_wrt (<) (map Ulid (mb_changes s store))"
    and vis: "vis = visible_changes now s store flt desc" and "0 < pageSize" and "k \<le> length vis"
    and token: "token = (if k = 0 then [] else ulid_String (Ulid (vis ! (k - 1))))"
  shows "ReadChanges ulid_Parse ulid_String now s store flt
      \<lparr>rco_Pagination = \<lparr>PageSize = pageSize, From = token\<rparr>, rco_SortDesc = desc\<rparr> =
    (if k = length vis then Inl ErrNotFound
     else let k' = min (k + nat pageSize) (length vis)
          in Inr (map Change (take (nat pageSize) (drop k vis)), ulid_String (Ulid (vis ! (k' - 1)))))"
proof -
  let ?from = "if k = 0 then None else Some (Ulid (vis ! (k - 1)))"
  let ?all = "scan_changes (rcf_ObjectType flt) (now - rcf_HorizonOffset flt) ?from desc (mb_changes s store)"
  have ordered: "(if desc then rev ?all else ?all) = drop k vis"
  proof (cases k)
    case 0
    then show ?thesis by (simp add: vis visible_changes_def Let_def)
  next
    case (Suc j)
    then have "(if desc then rev ?all else ?all) = filter (\<lambda>r. after desc (Ulid (vis ! j)) (Ulid r)) vis"
      by (simp add: scan_from vis visible_changes_def Let_def rev_filter)
    also have "\<dots> = drop k vis"
      using visible_sorted [OF sorted, of desc now flt] Suc assms(6) by (simp add: vis filter_after)
    finally show ?thesis .
  qed
  then have empty: "?all = [] \<longleftrightarrow> k = length vis"
    using assms(6) by (metis (no_types, lifting) drop_eq_Nil le_antisym rev_is_Nil_conv order_refl)
  have parsed: "(if token \<noteq> [] then (case ulid_Parse token of None \<Rightarrow> None | Some u \<Rightarrow> Some (Some u))
      else Some None) = Some ?from"
    using parse by (simp add: token)
  have last: "last (take (nat pageSize) (drop k vis)) = vis ! (min (k + nat pageSize) (length vis) - 1)"
    if "k < length vis"
    using that \<open>0 < pageSize\<close> by (subst last_conv_nth) (auto simp: min_def intro!: arg_cong [of _ _ "(!) vis"])
  have "ReadChanges ulid_Parse ulid_String now s store flt
      \<lparr>rco_Pagination = \<lparr>PageSize = pageSize, From = token\<rparr>, rco_SortDesc = desc\<rparr> =
    (if ?all = [] then Inl ErrNotFound
     else let page = take (nat pageSize) (if desc then rev ?all else ?all)
          in if page = [] then Inl ErrNotFound
             else Inr (map Change page, ulid_String (Ulid (last page))))"
    unfolding ReadChanges_def Let_def ReadChangesOptions.simps PaginationOptions.simps parsed
    using \<open>0 < pageSize\<close> by simp
  then show ?thesis
    unfolding ordered empty using \<open>0 < pageSize\<close> assms(6) last by (auto simp: Let_def)
qed

lemma read_all_changes_at:
  assumes parse: "\<And>u. ulid_Parse (ulid_String u) = Some u" "\<And>u. ulid_String u \<noteq> []"
    and sorted: "sorted_wrt (<) (map Ulid (mb_changes s store))"
    and vis: "vis = visible_changes now s store flt desc" and size: "0 < pageSize" and "k \<le> length vis"
    and "token = (if k = 0 then [] else ulid_String (Ulid (vis ! (k - 1))))"
  shows "read_all_changes ulid_Parse ulid_String now s store flt pageSize desc token =
    Some (map Change (drop k vis))"
  using assms(6,7)
proof (induction "length vis - k" arbitrary: k token rule: less_induct)
  case less
  note page = ReadChanges_at [OF parse sorted vis size less.prems]
  show ?case
  proof (cases "k = length vis")
    case True
    with page show ?thesis by (simp add: read_all_changes.simps [of _ _ _ _ _ _ _ _ token])
  next
    case False
    let ?k = "min (k + nat pageSize) (length vis)"
    have "read_all_changes ulid_Parse ulid_String now s store flt pageSize desc
        (ulid_String (Ulid (vis ! (?k - 1)))) = Some (map Change (drop ?k vis))"
      using False size less.prems by (intro less.hyps) auto
    moreover have "take (nat pageSize) (drop k vis) @ drop ?k vis = drop k vis"
      by (simp add: min_def) (metis add.commute append_take_drop_id drop_drop)
    ultimately show ?thesis
      using page False
      by (simp add: read_all_changes.simps [of _ _ _ _ _ _ _ _ token] Let_def flip: map_append)
  qed
qed

section \<open>The iterator of the backend\<close>

interpretation memory_iterator: iterator staticIterator "map AsTuple" "\<lambda>_. True"
  by unfold_locales
     (auto simp: staticIterator_def memory_Next_def memory_Head_def split: option.splits list.splits)

section \<open>Properties\<close>

text \<open>
  C23: a write of complete keys either fails with \<^verbatim>\<open>ErrInvalidWriteInput\<close>, exactly when a tuple to be
  deleted is missing or one to be written is there, or it succeeds; then the store holds what it held
  without the deleted tuples, and the written ones with their conditions, each once, and nothing of
  another store has changed.
\<close>

theorem Write_correct:
  assumes "wf_store (mb_tuples s store)" and "\<forall>d\<in>set ds. full_key d" and "\<forall>w\<in>set ws. full_key w"
  shows "case Write us now mk s store ds ws of
     Inl e \<Rightarrow> errors_Is e ErrInvalidWriteInput \<and>
       ((\<exists>d\<in>set ds. tk_id d \<notin> dom (abs_records (mb_tuples s store))) \<or>
        (\<exists>w\<in>set ws. tk_id w \<in> dom (abs_records (mb_tuples s store))))
   | Inr s' \<Rightarrow>
       (\<forall>d\<in>set ds. tk_id d \<in> dom (abs_records (mb_tuples s store))) \<and>
       (\<forall>w\<in>set ws. tk_id w \<notin> dom (abs_records (mb_tuples s store))) \<and>
       wf_store (mb_tuples s' store) \<and>
       abs_records (mb_tuples s' store) =
         map_of (map (\<lambda>t. (tk_id t, write_cond t)) ws) ++
         (abs_records (mb_tuples s store) |` (- tk_id ` set ds)) \<and>
       (\<forall>other. other \<noteq> store \<longrightarrow> mb_tuples s' other = mb_tuples s other \<and>
                                   mb_changes s' other = mb_changes s other)"
proof (cases "Write us now mk s store ds ws")
  case (Inl e)
  then have "validateTuples (mb_tuples s store) ds ws = Some e"
    by (auto simp: Write_def split: option.splits prod.splits)
  with validateTuples_spec [of "mb_tuples s store" ds ws] assms Inl show ?thesis
    by (auto simp: wf_store_def)
next
  case (Inr s')
  then have "validateTuples (mb_tuples s store) ds ws = None"
    by (auto simp: Write_def split: option.splits)
  then have val: "(\<forall>d\<in>set ds. tk_id d \<in> dom (abs_records (mb_tuples s store))) \<and>
      (\<forall>w\<in>set ws. tk_id w \<notin> dom (abs_records (mb_tuples s store)))"
    using validateTuples_spec(1) [of "mb_tuples s store" ds ws] assms by (simp add: wf_store_def)
  obtain recs chs where eff:
    "s' = s\<lparr>mb_tuples := (mb_tuples s)(store := recs),
            mb_changes := (mb_changes s)(store := mb_changes s store @ chs)\<rparr>"
    "wf_store recs"
    "abs_records recs = map_of (map (\<lambda>t. (tk_id t, write_cond t)) ws) ++
       (abs_records (mb_tuples s store) |` (- tk_id ` set ds))"
    unfolding deleted_ids [OF assms(1,2), symmetric] by (rule Write_effect [OF assms(1,3) Inr])
  show ?thesis
    unfolding Inr sum.case using val eff by simp
qed

definition example_state :: MemoryBackend where
  "example_state =
     projr (Write utoa 5 (\<lambda>k. k) New ''s'' []
       [NewTupleKey ''doc:1'' ''viewer'' ''user:anne'', NewTupleKey ''doc:2'' ''viewer'' ''user:bob''])"

lemma example_state_Write:
  "Write utoa 5 (\<lambda>k. k) New ''s'' []
     [NewTupleKey ''doc:1'' ''viewer'' ''user:anne'', NewTupleKey ''doc:2'' ''viewer'' ''user:bob''] =
   Inr example_state"
  unfolding example_state_def
  by (simp add: Write_def validateTuples_def find_def New_def Let_def split: prod.split)

lemma example_state_reachable: "reachable utoa example_state"
  by (rule reachable_Write [OF reachable_New _ _ _ _ example_state_Write])
     (simp_all add: full_key_def NewTupleKey_def SplitObject_def New_def strict_mono_def)

theorem Write_correct_witness:
  "case Write utoa 7 (\<lambda>k. k + 10) example_state ''s''
     [TupleKeyToTupleKeyWithoutCondition (NewTupleKey ''doc:1'' ''viewer'' ''user:anne'')] [] of
     Inl e \<Rightarrow> False
   | Inr s' \<Rightarrow> abs_records (mb_tuples s' ''s'') (''doc:1'', ''viewer'', ''user:anne'') = None"
proof -
  have wf: "wf_store (mb_tuples example_state ''s'')"
    using reachable_store_inv [OF example_state_reachable] by (simp add: store_inv_def)
  let ?d = "TupleKeyToTupleKeyWithoutCondition (NewTupleKey ''doc:1'' ''viewer'' ''user:anne'')"
  have "tk_id ?d \<in> dom (abs_records (mb_tuples example_state ''s''))" by code_simp
  moreover have "full_key ?d" by code_simp
  moreover have "tk_id ?d = (''doc:1'', ''viewer'', ''user:anne'')" by code_simp
  ultimately show ?thesis
    using Write_correct [OF wf, of "[?d]" "[]" utoa 7 "\<lambda>k. k + 10"]
    by (auto split: sum.splits)
qed

text \<open>
  C24: the changelog is a faithful history. In every reachable state, replaying the changes of a
  store from the beginning gives exactly the tuples, with their conditions, that it holds; no tuple
  is stored twice; and the ULIDs and the timestamps of the changes are in order.
\<close>

theorem changelog_replay:
  assumes "reachable us s"
  shows "replay (map Change (mb_changes s store)) = abs_records (mb_tuples s store) \<and>
         distinct (map rec_id (mb_tuples s store)) \<and>
         sorted_wrt (<) (map Ulid (mb_changes s store)) \<and>
         sorted (map (tc_timestamp \<circ> Change) (mb_changes s store))"
  using reachable_store_inv [OF assms, of store] by (simp add: store_inv_def wf_store_def)

theorem changelog_replay_witness:
  "replay (map Change (mb_changes example_state ''s'')) (''doc:1'', ''viewer'', ''user:anne'') = Some None"
proof -
  have "abs_records (mb_tuples example_state ''s'') (''doc:1'', ''viewer'', ''user:anne'') = Some None"
    by code_simp
  with changelog_replay [OF example_state_reachable, of "''s''"] show ?thesis by simp
qed

text \<open>
  C25: a client that follows the continuation tokens of \<^verbatim>\<open>ReadPage\<close>, with any page size, reads every
  tuple that matches the key exactly once, in the order they are stored, and comes to an end.
\<close>

theorem ReadPage_complete:
  assumes "0 < pageSize" and "int (length (matching s store key)) + pageSize < 2 ^ 63"
  shows "read_pages s store key pageSize [] = Some (map AsTuple (matching s store key))"
  using read_pages_at [OF assms(1) _ assms(2), of 0 "[]"] by simp

theorem ReadPage_complete_witness:
  "read_pages example_state ''s'' (NewTupleKey [] [] []) 1 [] =
     Some (map AsTuple (mb_tuples example_state ''s'')) \<and> length (mb_tuples example_state ''s'') = 2"
proof -
  have "length (mb_tuples example_state ''s'') = 2" by code_simp
  then show ?thesis
    using ReadPage_complete [of 1 example_state "''s''" "NewTupleKey [] [] []"]
    by (simp add: matching_def NewTupleKey_def)
qed

text \<open>
  C26: a client that follows the continuation tokens of \<^verbatim>\<open>ReadChanges\<close>, oldest or newest first, reads
  every change the filter admits exactly once, in order, and then is told that nothing is left. Of
  the text form of ULIDs this needs that parsing inverts printing.
\<close>

theorem ReadChanges_complete:
  assumes "\<forall>u. ulid_Parse (ulid_String u) = Some u" and "\<forall>u. ulid_String u \<noteq> []"
    and "reachable us s" and "0 < pageSize"
  shows "read_all_changes ulid_Parse ulid_String now s store flt pageSize desc [] =
     Some (map Change (visible_changes now s store flt desc))"
proof -
  have "sorted_wrt (<) (map Ulid (mb_changes s store))"
    using reachable_store_inv [OF assms(3), of store] by (simp add: store_inv_def)
  with read_all_changes_at [of ulid_Parse ulid_String s store _ now flt desc pageSize 0 "[]"] assms
  show ?thesis by simp
qed

theorem ReadChanges_complete_witness:
  "read_all_changes (atou 0) utoa 9 example_state ''s'' \<lparr>rcf_ObjectType = ''doc'', rcf_HorizonOffset = 2\<rparr>
     1 True [] =
   Some (map Change (visible_changes 9 example_state ''s''
                       \<lparr>rcf_ObjectType = ''doc'', rcf_HorizonOffset = 2\<rparr> True)) \<and>
   length (visible_changes 9 example_state ''s'' \<lparr>rcf_ObjectType = ''doc'', rcf_HorizonOffset = 2\<rparr> True) = 2"
proof -
  have "length (visible_changes 9 example_state ''s''
      \<lparr>rcf_ObjectType = ''doc'', rcf_HorizonOffset = 2\<rparr> True) = 2" by code_simp
  then show ?thesis
    using ReadChanges_complete [of "atou 0" utoa utoa example_state 1 9 "''s''"
        "\<lparr>rcf_ObjectType = ''doc'', rcf_HorizonOffset = 2\<rparr>" True] example_state_reachable
    by simp
qed

lemma find_latest_update:
  "\<forall>(i, entry)\<in>set tm. \<not> ame_latest entry \<Longrightarrow> ame_latest e \<Longrightarrow>
   \<exists>j. List.find (\<lambda>(_, entry). ame_latest entry) (AList.update k e tm) = Some (j, e)"
  by (induction tm) auto

lemma map_of_cleared:
  "map_of (map (\<lambda>(i, entry). (i, entry\<lparr>ame_latest := False\<rparr>)) tm) i =
   map_option (\<lambda>entry. entry\<lparr>ame_latest := False\<rparr>) (map_of tm i)"
  by (induction tm) auto

text \<open>
  The model written last is the latest one, it is found under its id, and every other model of
  the store, and every model of another store, is found as before.
\<close>

theorem WriteAuthorizationModel_latest:
  assumes "am_id m \<noteq> []" and "am_type_definitions m \<noteq> []"
  shows "FindLatestAuthorizationModel (WriteAuthorizationModel s store m) store = Inr m \<and>
    ReadAuthorizationModel (WriteAuthorizationModel s store m) store (am_id m) = Inr m \<and>
    (\<forall>store' i. i \<noteq> [] \<and> (store', i) \<noteq> (store, am_id m) \<longrightarrow>
       ReadAuthorizationModel (WriteAuthorizationModel s store m) store' i =
       ReadAuthorizationModel s store' i)"
proof (intro conjI allI impI)
  let ?tm = "map (\<lambda>(i, entry). (i, entry\<lparr>ame_latest := False\<rparr>))
    (case mb_authorizationModels s store of None \<Rightarrow> [] | Some tm \<Rightarrow> tm)"
  have "\<exists>j. List.find (\<lambda>(_, entry). ame_latest entry)
      (AList.update (am_id m) \<lparr>ame_model = m, ame_latest = True\<rparr> ?tm) =
      Some (j, \<lparr>ame_model = m, ame_latest = True\<rparr>)"
    by (rule find_latest_update) auto
  then show "FindLatestAuthorizationModel (WriteAuthorizationModel s store m) store = Inr m"
    by (auto simp: FindLatestAuthorizationModel_def WriteAuthorizationModel_def
        findAuthorizationModelByID_def Let_def)
  show "ReadAuthorizationModel (WriteAuthorizationModel s store m) store (am_id m) = Inr m"
    using assms by (simp add: ReadAuthorizationModel_def WriteAuthorizationModel_def
        findAuthorizationModelByID_def Let_def update_conv')
next
  fix store' i
  assume "i \<noteq> [] \<and> (store', i) \<noteq> (store, am_id m)"
  then show "ReadAuthorizationModel (WriteAuthorizationModel s store m) store' i =
      ReadAuthorizationModel s store' i"
    by (cases "store' = store"; cases "mb_authorizationModels s store")
       (auto simp: ReadAuthorizationModel_def WriteAuthorizationModel_def findAuthorizationModelByID_def
          map_of_cleared update_conv' Let_def option.case_eq_if option.map_sel split: option.splits)
qed

theorem WriteAuthorizationModel_latest_witness:
  "FindLatestAuthorizationModel
     (WriteAuthorizationModel New ''s''
        \<lparr>am_id = ''m1'', am_schema_version = ''1.1'',
         am_type_definitions = [\<lparr>td_type = ''user'', td_relations = [], td_metadata = None\<rparr>],
         am_conditions = []\<rparr>) ''s'' =
   Inr \<lparr>am_id = ''m1'', am_schema_version = ''1.1'',
         am_type_definitions = [\<lparr>td_type = ''user'', td_relations = [], td_metadata = None\<rparr>],
         am_conditions = []\<rparr>"
  using WriteAuthorizationModel_latest [of "\<lparr>am_id = ''m1'', am_schema_version = ''1.1'',
         am_type_definitions = [\<lparr>td_type = ''user'', td_relations = [], td_metadata = None\<rparr>],
         am_conditions = []\<rparr>" New "''s''"]
  by simp

text \<open>
  C27: \<^verbatim>\<open>ListStores\<close> panics on a continuation token that lies beyond the stores there are. A client
  that pages through the stores while stores are deleted holds such a token.
\<close>

theorem ListStores_stale_token_panics:
  assumes "From p = Itoa (int n)" and "length (mb_stores s) < n" and "n < 2 ^ 31"
  shows "ListStores s \<lparr>lso_IDs = [], lso_Name = [], lso_Pagination = p\<rparr> = None"
proof -
  have "ParseInt 32 (Itoa (int n)) = Some (int n)"
    using assms(3) by (intro ParseInt_Itoa) auto
  with assms show ?thesis
    by (simp add: ListStores_def slice_page_def Let_def)
qed

theorem ListStores_stale_token_panics_witness:
  "let st = \<lambda>i. \<lparr>st_id = i, st_name = ''n'', st_created_at = 0, st_updated_at = 0\<rparr>;
       s = New\<lparr>mb_stores := [(''a'', st ''a''), (''b'', st ''b''), (''c'', st ''c'')]\<rparr>;
       opts = \<lambda>t. \<lparr>lso_IDs = [], lso_Name = [], lso_Pagination = \<lparr>PageSize = 2, From = t\<rparr>\<rparr>
   in ListStores s (opts []) = Some (Inr ([st ''a'', st ''b''], ''2'')) \<and>
      ListStores (DeleteStore (DeleteStore s ''a'') ''b'') (opts ''2'') = None"
proof -
  let ?st = "\<lambda>i. \<lparr>st_id = i, st_name = ''n'', st_created_at = 0, st_updated_at = 0\<rparr>"
  let ?s = "New\<lparr>mb_stores := [(''a'', ?st ''a''), (''b'', ?st ''b''), (''c'', ?st ''c'')]\<rparr>"
  let ?opts = "\<lambda>t. \<lparr>lso_IDs = [], lso_Name = [], lso_Pagination = \<lparr>PageSize = 2, From = t\<rparr>\<rparr>"
  have "ListStores ?s (?opts []) = Some (Inr ([?st ''a'', ?st ''b''], ''2''))" by code_simp
  moreover have "Itoa (int 2) = ''2''" by code_simp
  ultimately show ?thesis
    using ListStores_stale_token_panics [of "\<lparr>PageSize = 2, From = ''2''\<rparr>" 2
        "DeleteStore (DeleteStore ?s ''a'') ''b''"]
    by (simp add: DeleteStore_def)
qed

end
