(* ===== verification/TypeSystem.thy ===== *)
theory TypeSystem
  imports Storage
begin

text \<open>
  The type system (\<^verbatim>\<open>pkg/typesystem/typesystem.go\<close>): the authorization model indexed for lookup, the
  queries on it, and the analyses of rewrites.

  The two graphs of package \<^verbatim>\<open>language/pkg/go/graph\<close> that a type system carries are built by code that
  is not part of the repository. They are fields here, read through the methods the program calls;
  the functions that build them are parameters of \<open>NewTypeSystem\<close>.
\<close>

section \<open>Graphs\<close>

text \<open>
  The authorization model graph, by its method \<^verbatim>\<open>PathExists\<close>, and the weighted graph: nodes are
  identified by their unique label; a weight is given per user type, and missing where that type
  cannot be reached.
\<close>

record AuthorizationModelGraph =
  ag_ListObjectsDirection :: bool
  ag_PathExists :: "string \<Rightarrow> string \<Rightarrow> (err, bool) result"

datatype EdgeType = DirectEdge | RewriteEdge | TTUEdge | ComputedEdge

record WeightedEdge =
  we_EdgeType :: EdgeType
  we_To :: string
  we_TuplesetRelation :: string
  we_Weights :: "string \<rightharpoonup> int"

record WeightedGraph =
  wg_NodeWeights :: "string \<rightharpoonup> (string \<rightharpoonup> int)"
  wg_Edges :: "string \<rightharpoonup> WeightedEdge list"

text \<open>\<^verbatim>\<open>graph.Infinite\<close>.\<close>

definition Infinite :: int where
  "Infinite = 2147483647"

section \<open>The type system\<close>

record relation =
  rel_name :: string
  rel_rewrite :: userset
  rel_types :: "relation_reference list"

record TypeSystem =
  ts_typeDefinitions :: "string \<rightharpoonup> type_definition"
  ts_relations :: "string \<rightharpoonup> (string \<times> relation) list"
  ts_conditions :: "(string \<times> condition) list"
  ts_ttuRelations :: "string \<rightharpoonup> (string \<times> (string \<times> string) list) list"
  ts_modelID :: string
  ts_schemaVersion :: string
  ts_authorizationModelGraph :: AuthorizationModelGraph
  ts_authzWeightedGraph :: "WeightedGraph option"

definition IsSchemaVersionSupported :: "string \<Rightarrow> bool" where
  "IsSchemaVersionSupported version \<longleftrightarrow> version = ''1.1'' \<or> version = ''1.2''"

definition DirectRelationReference :: "string \<Rightarrow> string \<Rightarrow> relation_reference" where
  "DirectRelationReference objectType rel =
     \<lparr>rr_type = objectType, rr_ref = (if rel \<noteq> [] then RelationRef rel else NoRef), rr_condition = []\<rparr>"

definition WildcardRelationReference :: "string \<Rightarrow> relation_reference" where
  "WildcardRelationReference objectType =
     \<lparr>rr_type = objectType, rr_ref = WildcardRef, rr_condition = []\<rparr>"

definition ConditionedRelationReference :: "relation_reference \<Rightarrow> string \<Rightarrow> relation_reference" where
  "ConditionedRelationReference rel cond = rel\<lparr>rr_condition := cond\<rparr>"

text \<open>The tuple-to-usersets of a rewrite, as pairs of the tupleset and the computed relation.\<close>

fun flattenUserset :: "userset \<Rightarrow> (string \<times> string) list" where
  "flattenUserset (TupleToUserset tupleset computed) = [(tupleset, computed)]"
| "flattenUserset (Union us) = concat (map flattenUserset us)"
| "flattenUserset (Intersection us) = concat (map flattenUserset us)"
| "flattenUserset (Difference base sub) = flattenUserset base @ flattenUserset sub"
| "flattenUserset _ = []"

definition new_relation :: "type_definition \<Rightarrow> string \<Rightarrow> userset \<Rightarrow> relation" where
  "new_relation td name rewrite =
     \<lparr>rel_name = name, rel_rewrite = rewrite,
      rel_types = (case td_metadata td of
                     None \<Rightarrow> []
                   | Some md \<Rightarrow> (case map_of md name of
                                   None \<Rightarrow> []
                                 | Some rm \<Rightarrow> directly_related_user_types rm))\<rparr>"

text \<open>A later definition of a type replaces an earlier one, as it does in a Go map.\<close>

definition NewTypeSystem ::
  "(authorization_model \<Rightarrow> (err, AuthorizationModelGraph) result) \<Rightarrow>
   (AuthorizationModelGraph \<Rightarrow> (err, AuthorizationModelGraph) result) \<Rightarrow>
   (authorization_model \<Rightarrow> WeightedGraph option) \<Rightarrow>
   authorization_model \<Rightarrow> (err, TypeSystem) result" where
  "NewTypeSystem NewAuthorizationModelGraph Reversed BuildWeighted model =
     (let tds = rev (am_type_definitions model);
          build = (\<lambda>g. Inr
            \<lparr>ts_typeDefinitions = map_of (map (\<lambda>td. (td_type td, td)) tds),
             ts_relations = map_of (map (\<lambda>td. (td_type td,
                map (\<lambda>(r, rewrite). (r, new_relation td r rewrite)) (td_relations td))) tds),
             ts_conditions = am_conditions model,
             ts_ttuRelations = map_of (map (\<lambda>td. (td_type td,
                map (\<lambda>(r, rewrite). (r, flattenUserset rewrite)) (td_relations td))) tds),
             ts_modelID = am_id model,
             ts_schemaVersion = am_schema_version model,
             ts_authorizationModelGraph = g,
             ts_authzWeightedGraph = BuildWeighted model\<rparr>)
      in case NewAuthorizationModelGraph model of
           Inl e \<Rightarrow> Inl e
         | Inr g \<Rightarrow> if ag_ListObjectsDirection g then build g
                    else (case Reversed g of Inl e \<Rightarrow> Inl e | Inr g' \<Rightarrow> build g'))"

section \<open>Lookups\<close>

definition GetTypeDefinition :: "TypeSystem \<Rightarrow> string \<Rightarrow> type_definition option" where
  "GetTypeDefinition t objectType = ts_typeDefinitions t objectType"

text \<open>\<^verbatim>\<open>t.relations[objectType]\<close>; a missing entry of the map reads as an empty one.\<close>

definition relations_of :: "TypeSystem \<Rightarrow> string \<Rightarrow> (string \<times> relation) list" where
  "relations_of t objectType = (case ts_relations t objectType of None \<Rightarrow> [] | Some rs \<Rightarrow> rs)"

definition GetRelations :: "TypeSystem \<Rightarrow> string \<Rightarrow> (err, (string \<times> relation) list) result" where
  "GetRelations t objectType =
     (case GetTypeDefinition t objectType of
        None \<Rightarrow> Inl (ObjectTypeUndefinedError objectType)
      | Some _ \<Rightarrow> Inr (relations_of t objectType))"

definition GetRelation :: "TypeSystem \<Rightarrow> string \<Rightarrow> string \<Rightarrow> (err, relation) result" where
  "GetRelation t objectType rel =
     (case GetRelations t objectType of
        Inl e \<Rightarrow> Inl e
      | Inr relations \<Rightarrow>
          (case map_of relations rel of
             None \<Rightarrow> Inl (RelationUndefinedError objectType rel)
           | Some r \<Rightarrow> Inr r))"

definition GetCondition :: "TypeSystem \<Rightarrow> string \<Rightarrow> condition option" where
  "GetCondition t name = map_of (ts_conditions t) name"

definition GetDirectlyRelatedUserTypes ::
  "TypeSystem \<Rightarrow> string \<Rightarrow> string \<Rightarrow> (err, relation_reference list) result" where
  "GetDirectlyRelatedUserTypes t objectType rel = map_sum id rel_types (GetRelation t objectType rel)"

definition DirectlyRelatedUsersets ::
  "TypeSystem \<Rightarrow> string \<Rightarrow> string \<Rightarrow> (err, relation_reference list) result" where
  "DirectlyRelatedUsersets t objectType rel =
     map_sum id (filter (\<lambda>ref. rr_GetRelation ref \<noteq> [])) (GetDirectlyRelatedUserTypes t objectType rel)"

definition RelationEquals :: "relation_reference \<Rightarrow> relation_reference \<Rightarrow> bool" where
  "RelationEquals a b =
     (if rr_type a \<noteq> rr_type b then False
      else if rr_ref a = NoRef \<and> rr_ref b = NoRef then True
      else if rr_GetWildcard a \<and> rr_GetWildcard b then True
      else rr_GetRelation a \<noteq> [] \<and> rr_GetRelation b \<noteq> [] \<and> rr_GetRelation a = rr_GetRelation b)"

definition IsDirectlyRelated ::
  "TypeSystem \<Rightarrow> relation_reference \<Rightarrow> relation_reference \<Rightarrow> (err, bool) result" where
  "IsDirectlyRelated t target source =
     map_sum id (\<lambda>r. \<exists>typeRestriction\<in>set (rel_types r). RelationEquals source typeRestriction)
       (GetRelation t (rr_type target) (rr_GetRelation target))"

definition PubliclyAssignableReferences ::
  "TypeSystem \<Rightarrow> relation_reference \<Rightarrow> string \<Rightarrow> (err, relation_reference option) result" where
  "PubliclyAssignableReferences t target objectType =
     map_sum id (\<lambda>r. List.find (\<lambda>ref. rr_type ref = objectType \<and> rr_GetWildcard ref) (rel_types r))
       (GetRelation t (rr_type target) (rr_GetRelation target))"

definition IsPubliclyAssignable ::
  "TypeSystem \<Rightarrow> relation_reference \<Rightarrow> string \<Rightarrow> (err, bool) result" where
  "IsPubliclyAssignable t target objectType =
     map_sum id (\<lambda>ref. ref \<noteq> None) (PubliclyAssignableReferences t target objectType)"

definition HasTypeInfo :: "TypeSystem \<Rightarrow> string \<Rightarrow> string \<Rightarrow> (err, bool) result" where
  "HasTypeInfo t objectType rel =
     map_sum id (\<lambda>r. IsSchemaVersionSupported (ts_schemaVersion t)) (GetRelation t objectType rel)"

definition IsTuplesetRelation :: "TypeSystem \<Rightarrow> string \<Rightarrow> string \<Rightarrow> (err, bool) result" where
  "IsTuplesetRelation t objectType rel =
     map_sum id
       (\<lambda>_. \<exists>(_, ttuDefinitions) \<in> set (case ts_ttuRelations t objectType of None \<Rightarrow> [] | Some m \<Rightarrow> m).
              \<exists>ttuDef\<in>set ttuDefinitions. fst ttuDef = rel)
       (GetRelation t objectType rel)"

definition PathExists :: "TypeSystem \<Rightarrow> string \<Rightarrow> string \<Rightarrow> string \<Rightarrow> (err, bool) result" where
  "PathExists t user rel objectType =
     (let (userType, _, userRelation) = ToUserParts user;
          isUserset = (userRelation \<noteq> []);
          fromLabel = (if isUserset then ToObjectRelationString userType userRelation else userType);
          toLabel = ToObjectRelationString objectType rel
      in case ag_PathExists (ts_authorizationModelGraph t) fromLabel toLabel of
           Inl e \<Rightarrow> Inl e
         | Inr normalPathExists \<Rightarrow>
             if normalPathExists then Inr True
             else if isUserset then Inr False
             else case ag_PathExists (ts_authorizationModelGraph t) (TypedPublicWildcard userType) toLabel of
                    Inl _ \<Rightarrow> Inr False
                  | Inr wildcardPathExists \<Rightarrow> Inr wildcardPathExists)"

section \<open>Walking rewrites\<close>

text \<open>
  \<^verbatim>\<open>WalkUsersetRewrite\<close>: the handler is applied to the nodes in preorder until it gives a value; it is
  applied to a leaf twice.
\<close>

fun WalkUsersetRewrite :: "(userset \<Rightarrow> 'r option) \<Rightarrow> userset \<Rightarrow> (err, 'r option) result"
  and walk_children :: "(userset \<Rightarrow> 'r option) \<Rightarrow> userset list \<Rightarrow> (err, 'r option) result" where
  "WalkUsersetRewrite handler (Union us) =
     (case handler (Union us) of Some r \<Rightarrow> Inr (Some r) | None \<Rightarrow> walk_children handler us)"
| "WalkUsersetRewrite handler (Intersection us) =
     (case handler (Intersection us) of Some r \<Rightarrow> Inr (Some r) | None \<Rightarrow> walk_children handler us)"
| "WalkUsersetRewrite handler (Difference base sub) =
     (case handler (Difference base sub) of
        Some r \<Rightarrow> Inr (Some r)
      | None \<Rightarrow> (case WalkUsersetRewrite handler base of
                   Inl e \<Rightarrow> Inl e
                 | Inr (Some r) \<Rightarrow> Inr (Some r)
                 | Inr None \<Rightarrow> WalkUsersetRewrite handler sub))"
| "WalkUsersetRewrite handler Unset =
     (case handler Unset of
        Some r \<Rightarrow> Inr (Some r)
      | None \<Rightarrow> Inl (ErrText ''unexpected userset rewrite type encountered''))"
| "WalkUsersetRewrite handler u =
     (case handler u of Some r \<Rightarrow> Inr (Some r) | None \<Rightarrow> Inr (handler u))"
| "walk_children handler [] = Inr None"
| "walk_children handler (u # us) =
     (case WalkUsersetRewrite handler u of
        Inl e \<Rightarrow> Inl e
      | Inr (Some r) \<Rightarrow> Inr (Some r)
      | Inr None \<Rightarrow> walk_children handler us)"

text \<open>\<open>None\<close> is the panic on a malformed rewrite.\<close>

definition RewriteContainsSelf :: "userset \<Rightarrow> bool option" where
  "RewriteContainsSelf rewrite =
     (case WalkUsersetRewrite (\<lambda>r. if r = This then Some True else None) rewrite of
        Inl _ \<Rightarrow> None
      | Inr None \<Rightarrow> Some False
      | Inr (Some b) \<Rightarrow> Some b)"

definition IsDirectlyAssignable :: "relation \<Rightarrow> bool option" where
  "IsDirectlyAssignable r = RewriteContainsSelf (rel_rewrite r)"

section \<open>Cycles through computed relations\<close>

text \<open>
  The visited keys are strings \<^verbatim>\<open>type#relation\<close>. The copy of the map that a call hands on differs from
  its own map by nothing that a sibling adds, so the map is passed by value.
\<close>

definition unvisited :: "TypeSystem \<Rightarrow> string \<Rightarrow> string set \<Rightarrow> string set" where
  "unvisited t objectType visited =
     {r \<in> fst ` set (relations_of t objectType). ToObjectRelationString objectType r \<notin> visited}"

lemma unvisited_finite [simp]: "finite (unvisited t objectType visited)"
  by (simp add: unvisited_def)

lemma GetRelation_Inr:
  "GetRelation t objectType rel = Inr r \<longleftrightarrow>
     ts_typeDefinitions t objectType \<noteq> None \<and> map_of (relations_of t objectType) rel = Some r"
  by (auto simp: GetRelation_def GetRelations_def GetTypeDefinition_def split: option.splits)

lemma unvisited_decreases:
  assumes "GetRelation t objectType rel' = Inr r"
    and "ToObjectRelationString objectType rel' \<notin> visited"
  shows "card (unvisited t objectType (insert (ToObjectRelationString objectType rel') visited))
       < card (unvisited t objectType visited)"
proof (rule psubset_card_mono)
  have "rel' \<in> unvisited t objectType visited"
    using assms by (force simp: unvisited_def GetRelation_Inr dest: map_of_SomeD)
  then show "unvisited t objectType (insert (ToObjectRelationString objectType rel') visited)
      \<subset> unvisited t objectType visited"
    by (auto simp: unvisited_def)
qed simp

function hasCycle :: "TypeSystem \<Rightarrow> string \<Rightarrow> string \<Rightarrow> userset \<Rightarrow> string set \<Rightarrow> (err, bool) result"
  and hasCycle_children ::
    "TypeSystem \<Rightarrow> string \<Rightarrow> string \<Rightarrow> userset list \<Rightarrow> string set \<Rightarrow> (err, bool) result" where
  "hasCycle t objectType relationName rewrite visited0 =
     (let visited = insert (ToObjectRelationString objectType relationName) visited0
      in case rewrite of
           This \<Rightarrow> Inr False
         | TupleToUserset _ _ \<Rightarrow> Inr False
         | ComputedUserset rewrittenRelation \<Rightarrow>
             if ToObjectRelationString objectType rewrittenRelation \<in> visited then Inr True
             else (case GetRelation t objectType rewrittenRelation of
                     Inl e \<Rightarrow> Inl e
                   | Inr r \<Rightarrow> hasCycle t objectType rewrittenRelation (rel_rewrite r) visited)
         | Union us \<Rightarrow> hasCycle_children t objectType relationName us visited
         | Intersection us \<Rightarrow> hasCycle_children t objectType relationName us visited
         | Difference base sub \<Rightarrow> hasCycle_children t objectType relationName [base, sub] visited
         | Unset \<Rightarrow> Inr False)"
| "hasCycle_children t objectType relationName [] visited = Inr False"
| "hasCycle_children t objectType relationName (child # children) visited =
     (case hasCycle t objectType relationName child visited of
        Inl e \<Rightarrow> Inl e
      | Inr b \<Rightarrow> if b then Inr True
                 else hasCycle_children t objectType relationName children visited)"
  by pat_completeness auto

termination
  by (relation "inv_image (less_than <*lex*> less_than)
        (case_sum
          (\<lambda>(t, ot, rn, rw, visited).
             (card (unvisited t ot (insert (ToObjectRelationString ot rn) visited)), usize rw))
          (\<lambda>(t, ot, rn, us, visited).
             (card (unvisited t ot (insert (ToObjectRelationString ot rn) visited)), 1 + sum_list (map usize us))))")
     (auto intro: unvisited_decreases simp: insert_absorb)

definition HasCycle :: "TypeSystem \<Rightarrow> string \<Rightarrow> string \<Rightarrow> (err, bool) result" where
  "HasCycle t objectType relationName =
     (case GetRelation t objectType relationName of
        Inl e \<Rightarrow> Inl e
      | Inr r \<Rightarrow> hasCycle t objectType relationName (rel_rewrite r) {})"

text \<open>The leaves of a rewrite: its nodes that are not set operators.\<close>

fun leaves :: "userset \<Rightarrow> userset set" where
  "leaves (Union us) = (\<Union>w\<in>set us. leaves w)"
| "leaves (Intersection us) = (\<Union>w\<in>set us. leaves w)"
| "leaves (Difference base sub) = leaves base \<union> leaves sub"
| "leaves w = {w}"

text \<open>The computed relations of a rewrite, and the graph they form on the relations of a type.\<close>

fun computed_refs :: "userset \<Rightarrow> string set" where
  "computed_refs (ComputedUserset r) = {r}"
| "computed_refs (Union us) = \<Union> (computed_refs ` set us)"
| "computed_refs (Intersection us) = \<Union> (computed_refs ` set us)"
| "computed_refs (Difference base sub) = computed_refs base \<union> computed_refs sub"
| "computed_refs _ = {}"

lemma computed_refs_leaves: "computed_refs w = {c. ComputedUserset c \<in> leaves w}"
  by (induction w rule: computed_refs.induct) auto

lemma walk_self:
  "Unset \<notin> leaves w \<Longrightarrow>
     WalkUsersetRewrite (\<lambda>r. if r = This then Some True else None) w = Inr (if This \<in> leaves w then Some True else None)"
  "Unset \<notin> (\<Union>w\<in>set us. leaves w) \<Longrightarrow>
     walk_children (\<lambda>r. if r = This then Some True else None) us =
       Inr (if This \<in> (\<Union>w\<in>set us. leaves w) then Some True else None)"
  by (induction "\<lambda>r. if r = This then Some True else None" w and "\<lambda>r. if r = This then Some True else None" us
        rule: WalkUsersetRewrite_walk_children.induct) auto

lemma RewriteContainsSelf_leaves: "Unset \<notin> leaves w \<Longrightarrow> RewriteContainsSelf w = Some (This \<in> leaves w)"
  by (simp add: RewriteContainsSelf_def walk_self)

definition computes :: "TypeSystem \<Rightarrow> string \<Rightarrow> (string \<times> string) set" where
  "computes t objectType =
     {(r, c). \<exists>rel. GetRelation t objectType r = Inr rel \<and> c \<in> computed_refs (rel_rewrite rel)}"

lemma ToObjectRelationString_inject [simp]:
  "ToObjectRelationString objectType r = ToObjectRelationString objectType r' \<longleftrightarrow> r = r'"
  by (simp add: ToObjectRelationString_def)

declare hasCycle.simps [simp del]

lemma hasCycle_simps [simp]:
  "hasCycle t ot rn Unset visited = Inr False"
  "hasCycle t ot rn This visited = Inr False"
  "hasCycle t ot rn (TupleToUserset a b) visited = Inr False"
  "hasCycle t ot rn (Union us) visited =
     hasCycle_children t ot rn us (insert (ToObjectRelationString ot rn) visited)"
  "hasCycle t ot rn (Intersection us) visited =
     hasCycle_children t ot rn us (insert (ToObjectRelationString ot rn) visited)"
  "hasCycle t ot rn (Difference base sub) visited =
     hasCycle_children t ot rn [base, sub] (insert (ToObjectRelationString ot rn) visited)"
  by (subst hasCycle.simps, simp add: Let_def)+

lemma hasCycle_computed:
  "hasCycle t ot rn (ComputedUserset c) visited =
     (if ToObjectRelationString ot c \<in> insert (ToObjectRelationString ot rn) visited then Inr True
      else case GetRelation t ot c of
             Inl e \<Rightarrow> Inl e
           | Inr r \<Rightarrow> hasCycle t ot c (rel_rewrite r) (insert (ToObjectRelationString ot rn) visited))"
  by (subst hasCycle.simps) (simp add: Let_def)

lemma hasCycle_False:
  "hasCycle t ot rn rw visited = Inr False \<Longrightarrow>
     \<forall>c\<in>computed_refs rw.
       ToObjectRelationString ot c \<notin> insert (ToObjectRelationString ot rn) visited \<and>
       (\<exists>r. GetRelation t ot c = Inr r \<and>
            hasCycle t ot c (rel_rewrite r) (insert (ToObjectRelationString ot rn) visited) = Inr False)"
  "hasCycle_children t ot rn us visited = Inr False \<Longrightarrow>
     \<forall>u\<in>set us. \<forall>c\<in>computed_refs u.
       ToObjectRelationString ot c \<notin> insert (ToObjectRelationString ot rn) visited \<and>
       (\<exists>r. GetRelation t ot c = Inr r \<and>
            hasCycle t ot c (rel_rewrite r) (insert (ToObjectRelationString ot rn) visited) = Inr False)"
proof (induction t ot rn rw visited and t ot rn us visited rule: hasCycle_hasCycle_children.induct)
  case (1 t ot rn rw visited)
  from 1(5) show ?case
  proof (cases rw)
    case (ComputedUserset c)
    with 1(5) show ?thesis
      by (auto simp: hasCycle_computed split: if_splits sum.splits)
  next
    case (Union us)
    with 1(2) [OF refl Union] 1(5) show ?thesis
      by (auto simp: insert_absorb simp del: hasCycle_children.simps)
  next
    case (Intersection us)
    with 1(3) [OF refl Intersection] 1(5) show ?thesis
      by (auto simp: insert_absorb simp del: hasCycle_children.simps)
  next
    case (Difference b s)
    then have "hasCycle_children t ot rn [b, s] (insert (ToObjectRelationString ot rn) visited) = Inr False"
      using 1(5) by (simp del: hasCycle_children.simps)
    from 1(4) [OF refl Difference this] show ?thesis
      unfolding Difference computed_refs.simps insert_absorb2 ball_Un by simp
  qed simp_all
qed (auto split: sum.splits if_splits)

lemma hasCycle_True:
  "hasCycle t ot rn rw visited = Inr True \<Longrightarrow> computed_refs rw \<subseteq> {c. (rn, c) \<in> computes t ot} \<Longrightarrow>
     \<forall>v\<in>visited. \<exists>x. v = ToObjectRelationString ot x \<and> (x, rn) \<in> (computes t ot)\<^sup>* \<Longrightarrow>
     \<exists>x. (rn, x) \<in> (computes t ot)\<^sup>* \<and> (x, x) \<in> (computes t ot)\<^sup>+"
  "hasCycle_children t ot rn us visited = Inr True \<Longrightarrow>
     \<Union> (computed_refs ` set us) \<subseteq> {c. (rn, c) \<in> computes t ot} \<Longrightarrow>
     \<forall>v\<in>visited. \<exists>x. v = ToObjectRelationString ot x \<and> (x, rn) \<in> (computes t ot)\<^sup>* \<Longrightarrow>
     \<exists>x. (rn, x) \<in> (computes t ot)\<^sup>* \<and> (x, x) \<in> (computes t ot)\<^sup>+"
proof (induction t ot rn rw visited and t ot rn us visited rule: hasCycle_hasCycle_children.induct)
  case (1 t ot rn rw visited)
  let ?C = "computes t ot"
  let ?visited = "insert (ToObjectRelationString ot rn) visited"
  have vis: "\<forall>v\<in>?visited. \<exists>x. v = ToObjectRelationString ot x \<and> (x, rn) \<in> ?C\<^sup>*"
    using 1(7) by auto
  show ?case
  proof (cases rw)
    case (ComputedUserset c)
    then have step: "(rn, c) \<in> ?C" using 1(6) by auto
    show ?thesis
    proof (cases "ToObjectRelationString ot c \<in> ?visited")
      case True
      with vis have "(c, rn) \<in> ?C\<^sup>*" by auto
      then have "(c, c) \<in> ?C\<^sup>+" using step by (rule rtrancl_into_trancl1)
      with step show ?thesis by blast
    next
      case False
      with ComputedUserset 1(5) obtain r where r: "GetRelation t ot c = Inr r"
        "hasCycle t ot c (rel_rewrite r) ?visited = Inr True"
        by (auto simp: hasCycle_computed split: sum.splits if_splits)
      have "computed_refs (rel_rewrite r) \<subseteq> {d. (c, d) \<in> ?C}" using r(1) by (auto simp: computes_def)
      moreover have "\<forall>v\<in>?visited. \<exists>x. v = ToObjectRelationString ot x \<and> (x, c) \<in> ?C\<^sup>*"
        using vis step by (meson rtrancl.rtrancl_into_rtrancl)
      ultimately have "\<exists>x. (c, x) \<in> ?C\<^sup>* \<and> (x, x) \<in> ?C\<^sup>+"
        using 1(1) [OF refl ComputedUserset False r(1) r(2)] by blast
      with step show ?thesis by (meson converse_rtrancl_into_rtrancl)
    qed
  next
    case (Union us)
    with 1(2) [OF refl Union] 1(5,6) vis show ?thesis by (auto simp del: hasCycle_children.simps)
  next
    case (Intersection us)
    with 1(3) [OF refl Intersection] 1(5,6) vis show ?thesis by (auto simp del: hasCycle_children.simps)
  next
    case (Difference b s)
    with 1(4) [OF refl Difference] 1(5,6) vis show ?thesis by (simp del: hasCycle_children.simps)
  qed (use 1(5) in simp_all)
next
  case (3 t ot rn child children visited)
  then show ?case by (auto split: sum.splits if_splits)
qed simp

lemma hasCycle_safe:
  assumes "hasCycle t ot x (rel_rewrite r) visited = Inr False" and "GetRelation t ot x = Inr r"
    and "(x, y) \<in> (computes t ot)\<^sup>+"
  shows "\<exists>r' visited'. visited \<subseteq> visited' \<and> ToObjectRelationString ot x \<in> visited' \<and>
     ToObjectRelationString ot y \<notin> visited' \<and>
     GetRelation t ot y = Inr r' \<and> hasCycle t ot y (rel_rewrite r') visited' = Inr False"
  using assms(3)
proof (induction rule: trancl_induct)
  case (base y)
  with assms(2) have "y \<in> computed_refs (rel_rewrite r)" by (auto simp: computes_def)
  with hasCycle_False(1) [OF assms(1)] obtain r' where
    "ToObjectRelationString ot y \<notin> insert (ToObjectRelationString ot x) visited"
    "GetRelation t ot y = Inr r'"
    "hasCycle t ot y (rel_rewrite r') (insert (ToObjectRelationString ot x) visited) = Inr False"
    by metis
  then show ?case by (intro exI [of _ r'] exI [of _ "insert (ToObjectRelationString ot x) visited"]) auto
next
  case (step y z)
  then obtain r' visited' where IH: "visited \<subseteq> visited'" "ToObjectRelationString ot x \<in> visited'"
    "GetRelation t ot y = Inr r'" "hasCycle t ot y (rel_rewrite r') visited' = Inr False" by blast
  with step(2) have "z \<in> computed_refs (rel_rewrite r')" by (auto simp: computes_def)
  with hasCycle_False(1) [OF IH(4)] obtain r'' where
    "ToObjectRelationString ot z \<notin> insert (ToObjectRelationString ot y) visited'"
    "GetRelation t ot z = Inr r''"
    "hasCycle t ot z (rel_rewrite r'') (insert (ToObjectRelationString ot y) visited') = Inr False"
    by metis
  with IH show ?case
    by (intro exI [of _ r''] exI [of _ "insert (ToObjectRelationString ot y) visited'"]) auto
qed

lemma hasCycle_Inl:
  "hasCycle t ot rn rw visited = Inl e \<Longrightarrow> computed_refs rw \<subseteq> {c. (rn, c) \<in> computes t ot} \<Longrightarrow>
     \<exists>c. (rn, c) \<in> (computes t ot)\<^sup>* \<and> (\<forall>r. GetRelation t ot c \<noteq> Inr r)"
  "hasCycle_children t ot rn us visited = Inl e \<Longrightarrow>
     \<Union> (computed_refs ` set us) \<subseteq> {c. (rn, c) \<in> computes t ot} \<Longrightarrow>
     \<exists>c. (rn, c) \<in> (computes t ot)\<^sup>* \<and> (\<forall>r. GetRelation t ot c \<noteq> Inr r)"
proof (induction t ot rn rw visited and t ot rn us visited rule: hasCycle_hasCycle_children.induct)
  case (1 t ot rn rw visited)
  let ?C = "computes t ot"
  show ?case
  proof (cases rw)
    case (ComputedUserset c)
    then have step: "(rn, c) \<in> ?C" using 1(6) by auto
    show ?thesis
    proof (cases "GetRelation t ot c")
      case (Inl e')
      with step show ?thesis by (intro exI [of _ c]) auto
    next
      case (Inr r)
      with ComputedUserset 1(5) have nv:
        "ToObjectRelationString ot c \<notin> insert (ToObjectRelationString ot rn) visited"
        and rec: "hasCycle t ot c (rel_rewrite r) (insert (ToObjectRelationString ot rn) visited) = Inl e"
        by (auto simp: hasCycle_computed split: if_splits)
      have "computed_refs (rel_rewrite r) \<subseteq> {d. (c, d) \<in> ?C}" using Inr by (auto simp: computes_def)
      with 1(1) [OF refl ComputedUserset nv Inr rec] step show ?thesis
        by (meson converse_rtrancl_into_rtrancl)
    qed
  next
    case (Union us)
    with 1(2) [OF refl Union] 1(5,6) show ?thesis by (simp del: hasCycle_children.simps)
  next
    case (Intersection us)
    with 1(3) [OF refl Intersection] 1(5,6) show ?thesis by (simp del: hasCycle_children.simps)
  next
    case (Difference b s)
    with 1(4) [OF refl Difference] 1(5,6) show ?thesis by (simp del: hasCycle_children.simps)
  qed (use 1(5) in simp_all)
next
  case (3 t ot rn child children visited)
  then show ?case by (auto split: sum.splits if_splits)
qed simp

section \<open>Properties\<close>

lemma HasCycle_decides:
  assumes "\<forall>x. (rel, x) \<in> (computes t objectType)\<^sup>* \<longrightarrow> (\<exists>r. GetRelation t objectType x = Inr r)"
  shows "HasCycle t objectType rel =
    Inr (\<exists>x. (rel, x) \<in> (computes t objectType)\<^sup>* \<and> (x, x) \<in> (computes t objectType)\<^sup>+)"
proof -
  from assms obtain r where r1: "GetRelation t objectType rel = Inr r" by blast
  have sub: "computed_refs (rel_rewrite r) \<subseteq> {c. (rel, c) \<in> computes t objectType}"
    using r1 by (auto simp: computes_def)
  with hasCycle_Inl(1) [OF _ sub] assms obtain b where
    "hasCycle t objectType rel (rel_rewrite r) {} = Inr b" by (metis sum.exhaust)
  note r = r1 this
  have "b \<longleftrightarrow> (\<exists>x. (rel, x) \<in> (computes t objectType)\<^sup>* \<and> (x, x) \<in> (computes t objectType)\<^sup>+)"
  proof (cases b)
    case True
    with hasCycle_True(1) [OF _ sub, of "{}"] r(2) show ?thesis by simp
  next
    case False
    have "(x, x) \<notin> (computes t objectType)\<^sup>+" if "(rel, x) \<in> (computes t objectType)\<^sup>*" for x
    proof
      assume loop: "(x, x) \<in> (computes t objectType)\<^sup>+"
      have f: "hasCycle t objectType rel (rel_rewrite r) {} = Inr False" using r(2) False by simp
      obtain r' visited where "GetRelation t objectType x = Inr r'"
        "hasCycle t objectType x (rel_rewrite r') visited = Inr False"
      proof (cases "x = rel")
        case True
        with that r(1) f show thesis by blast
      next
        case False
        with \<open>(rel, x) \<in> (computes t objectType)\<^sup>*\<close> have "(rel, x) \<in> (computes t objectType)\<^sup>+"
          by (simp add: rtrancl_eq_or_trancl)
        from hasCycle_safe [OF f r(1) this] that show thesis by metis
      qed
      from hasCycle_safe [OF this(2,1) loop] show False by metis
    qed
    with False show ?thesis by blast
  qed
  with r show ?thesis by (simp add: HasCycle_def)
qed

text \<open>
  C28: on a relation that reaches defined relations only through computed usersets, \<^verbatim>\<open>HasCycle\<close>
  returns without an error and answers whether it reaches a cycle: a relation that, through the
  computed usersets of the rewrites, is reached from itself.
\<close>

theorem HasCycle_correct:
  assumes "\<forall>x. (rel, x) \<in> (computes t objectType)\<^sup>* \<longrightarrow> (\<exists>r. GetRelation t objectType x = Inr r)"
  shows "HasCycle t objectType rel =
    Inr (\<exists>x. (rel, x) \<in> (computes t objectType)\<^sup>* \<and> (x, x) \<in> (computes t objectType)\<^sup>+)"
  using assms by (rule HasCycle_decides)

text \<open>A type system with a cycle between two computed relations, to show the claim at work.\<close>

definition example_types :: TypeSystem where
  "example_types =
     (let td = \<lparr>td_type = ''doc'',
                td_relations = [(''a'', ComputedUserset ''b''), (''b'', Union [This, ComputedUserset ''a'']),
                                (''c'', This), (''d'', Union [This, ComputedUserset ''c''])],
                td_metadata = None\<rparr>
      in projr (NewTypeSystem (\<lambda>_. Inr \<lparr>ag_ListObjectsDirection = True, ag_PathExists = (\<lambda>_ _. Inr True)\<rparr>)
                  Inr (\<lambda>_. None)
                  \<lparr>am_id = ''m'', am_schema_version = ''1.1'', am_type_definitions = [td], am_conditions = []\<rparr>))"

lemma computes_closed:
  assumes "rel \<in> S"
    and "\<forall>r\<in>S. \<exists>r'. GetRelation t objectType r = Inr r' \<and> computed_refs (rel_rewrite r') \<subseteq> S"
  shows "\<forall>x. (rel, x) \<in> (computes t objectType)\<^sup>* \<longrightarrow> (\<exists>r. GetRelation t objectType x = Inr r)"
proof (intro allI impI)
  fix x
  assume "(rel, x) \<in> (computes t objectType)\<^sup>*"
  then have "x \<in> S"
  proof (induction rule: rtrancl_induct)
    case (step y z)
    from step(2) obtain r where "GetRelation t objectType y = Inr r" "z \<in> computed_refs (rel_rewrite r)"
      by (auto simp: computes_def)
    with step(3) assms(2) show ?case by force
  qed (use assms in simp)
  with assms(2) show "\<exists>r. GetRelation t objectType x = Inr r" by blast
qed

theorem HasCycle_correct_witness:
  "\<exists>x. (''a'', x) \<in> (computes example_types ''doc'')\<^sup>* \<and> (x, x) \<in> (computes example_types ''doc'')\<^sup>+"
proof -
  have "\<forall>x. (''a'', x) \<in> (computes example_types ''doc'')\<^sup>* \<longrightarrow>
      (\<exists>r. GetRelation example_types ''doc'' x = Inr r)"
    by (rule computes_closed [where S = "{''a'', ''b''}"])
       (simp_all add: example_types_def NewTypeSystem_def Let_def GetRelation_def GetRelations_def
          GetTypeDefinition_def relations_of_def new_relation_def)
  moreover have "HasCycle example_types ''doc'' ''a'' = Inr True" by code_simp
  ultimately show ?thesis using HasCycle_correct [of "''a''" example_types "''doc''"] by simp
qed

end
