(* ===== verification/Entrypoints.thy ===== *)
theory Entrypoints
  imports TypeSystem
begin

text \<open>
  The search for entrypoints in model validation (\<^verbatim>\<open>hasEntrypoints\<close> in
  \<^verbatim>\<open>pkg/typesystem/typesystem.go\<close>): whether any concrete user can get into a relation. The function
  copies its map of visited relations with \<^verbatim>\<open>maps.Clone\<close>, which shares the inner maps between the
  copies; the model has a heap of inner maps, and a visited map gives the address of the inner map
  of a type.
\<close>

section \<open>Maps of maps\<close>

type_synonym inner_maps = "(string \<rightharpoonup> bool) list"

type_synonym visited_map = "string \<rightharpoonup> nat"

definition visited_at :: "visited_map \<Rightarrow> inner_maps \<Rightarrow> string \<Rightarrow> string \<Rightarrow> bool option" where
  "visited_at v h typeName relationName =
     (case v typeName of None \<Rightarrow> None | Some i \<Rightarrow> (h ! i) relationName)"

definition set_visited :: "visited_map \<Rightarrow> string \<Rightarrow> string \<Rightarrow> bool \<Rightarrow> inner_maps \<Rightarrow> inner_maps" where
  "set_visited v typeName relationName b h =
     (case v typeName of None \<Rightarrow> h | Some i \<Rightarrow> h[i := (h ! i)(relationName \<mapsto> b)])"

definition mark_visited :: "visited_map \<Rightarrow> inner_maps \<Rightarrow> string \<Rightarrow> string \<Rightarrow> visited_map \<times> inner_maps" where
  "mark_visited vis h typeName relationName =
     (case vis typeName of
        Some i \<Rightarrow> (vis, set_visited vis typeName relationName False h)
      | None \<Rightarrow> (vis(typeName \<mapsto> length h), h @ [[relationName \<mapsto> False]]))"

section \<open>The search\<close>

text \<open>
  A result says whether there is an entrypoint and whether a loop was met. \<open>None\<close> is only for too
  little fuel. The loops over types and operands take the recursive call as an argument.
\<close>

type_synonym entry_result = "((err, bool \<times> bool) result \<times> inner_maps) option"

type_synonym entry_call = "string \<Rightarrow> string \<Rightarrow> userset \<Rightarrow> visited_map \<Rightarrow> inner_maps \<Rightarrow> entry_result"

definition undefined_type_definition :: err where
  "undefined_type_definition = ErrText ''undefined type definition''"

fun assignable_types_loop :: "entry_call \<Rightarrow> TypeSystem \<Rightarrow> visited_map \<Rightarrow> string \<Rightarrow> string \<Rightarrow>
    relation_reference list \<Rightarrow> inner_maps \<Rightarrow> entry_result" where
  "assignable_types_loop rec t v typeName relationName [] h = Some (Inr (False, False), h)"
| "assignable_types_loop rec t v typeName relationName (assignableType # refs) h =
     (if rr_ref assignableType = NoRef \<or> rr_GetWildcard assignableType
      then Some (Inr (True, False), set_visited v typeName relationName True h)
      else let assignableTypeName = rr_type assignableType; assignableRelationName = rr_GetRelation assignableType
           in case map_of (relations_of t assignableTypeName) assignableRelationName of
                None \<Rightarrow> Some (Inl undefined_type_definition, h)
              | Some assignableRelation \<Rightarrow>
                  if visited_at v h assignableTypeName assignableRelationName \<noteq> None
                  then assignable_types_loop rec t v typeName relationName refs h
                  else (case rec assignableTypeName assignableRelationName (rel_rewrite assignableRelation) v h of
                          None \<Rightarrow> None
                        | Some (Inl e, h') \<Rightarrow> Some (Inl e, h')
                        | Some (Inr (hasEntrypoint, _), h') \<Rightarrow>
                            if hasEntrypoint then Some (Inr (True, False), h')
                            else assignable_types_loop rec t v typeName relationName refs h'))"

fun tupleset_types_loop :: "entry_call \<Rightarrow> TypeSystem \<Rightarrow> visited_map \<Rightarrow> string \<Rightarrow>
    relation_reference list \<Rightarrow> inner_maps \<Rightarrow> entry_result" where
  "tupleset_types_loop rec t v computedRelationName [] h = Some (Inr (False, False), h)"
| "tupleset_types_loop rec t v computedRelationName (assignableType # refs) h =
     (let assignableTypeName = rr_type assignableType
      in case map_of (relations_of t assignableTypeName) computedRelationName of
           None \<Rightarrow> tupleset_types_loop rec t v computedRelationName refs h
         | Some assignableRelation \<Rightarrow>
             (case visited_at v h assignableTypeName computedRelationName of
                Some hasEntrypoint \<Rightarrow>
                  if hasEntrypoint then Some (Inr (True, False), h)
                  else tupleset_types_loop rec t v computedRelationName refs h
              | None \<Rightarrow>
                  (case rec assignableTypeName computedRelationName (rel_rewrite assignableRelation) v h of
                     None \<Rightarrow> None
                   | Some (Inl e, h') \<Rightarrow> Some (Inl e, h')
                   | Some (Inr (hasEntrypoint, _), h') \<Rightarrow>
                       if hasEntrypoint then Some (Inr (True, False), h')
                       else tupleset_types_loop rec t v computedRelationName refs h')))"

fun any_child_loop :: "(userset \<Rightarrow> inner_maps \<Rightarrow> entry_result) \<Rightarrow> userset list \<Rightarrow> bool \<Rightarrow> inner_maps \<Rightarrow> entry_result" where
  "any_child_loop rec [] loop h = Some (Inr (False, loop), h)"
| "any_child_loop rec (child # children) loop h =
     (case rec child h of
        None \<Rightarrow> None
      | Some (Inl e, h') \<Rightarrow> Some (Inl e, h')
      | Some (Inr (hasEntrypoint, childLoop), h') \<Rightarrow>
          if hasEntrypoint then Some (Inr (True, False), h')
          else any_child_loop rec children (loop \<or> childLoop) h')"

fun all_children_loop :: "(userset \<Rightarrow> inner_maps \<Rightarrow> entry_result) \<Rightarrow> userset list \<Rightarrow> inner_maps \<Rightarrow> entry_result" where
  "all_children_loop rec [] h = Some (Inr (True, False), h)"
| "all_children_loop rec (child # children) h =
     (case rec child h of
        None \<Rightarrow> None
      | Some (Inl e, h') \<Rightarrow> Some (Inl e, h')
      | Some (Inr (hasEntrypoint, childLoop), h') \<Rightarrow>
          if \<not> hasEntrypoint then Some (Inr (False, childLoop), h')
          else all_children_loop rec children h')"

primrec hasEntrypoints :: "nat \<Rightarrow> TypeSystem \<Rightarrow> string \<Rightarrow> string \<Rightarrow> userset \<Rightarrow> visited_map \<Rightarrow> inner_maps \<Rightarrow> entry_result" where
  "hasEntrypoints 0 = (\<lambda>t typeName relationName rewrite visitedRelations h0. None)"
| "hasEntrypoints (Suc n) = (\<lambda>t typeName relationName rewrite visitedRelations h0.
     let (v, h) = mark_visited visitedRelations h0 typeName relationName
     in case map_of (relations_of t typeName) relationName of
          None \<Rightarrow> Some (Inl undefined_type_definition, h)
        | Some relation \<Rightarrow>
            (case rewrite of
               This \<Rightarrow>
                 assignable_types_loop (hasEntrypoints n t) t v typeName relationName (rel_types relation) h
             | ComputedUserset computedRelationName \<Rightarrow>
                 (case map_of (relations_of t typeName) computedRelationName of
                    None \<Rightarrow> Some (Inl undefined_type_definition, h)
                  | Some computedRelation \<Rightarrow>
                      (case visited_at v h typeName computedRelationName of
                         Some hasEntrypoint \<Rightarrow> Some (Inr (hasEntrypoint, True), h)
                       | None \<Rightarrow> hasEntrypoints n t typeName computedRelationName (rel_rewrite computedRelation) v h))
             | TupleToUserset tuplesetRelationName computedRelationName \<Rightarrow>
                 (case map_of (relations_of t typeName) tuplesetRelationName of
                    None \<Rightarrow> Some (Inl undefined_type_definition, h)
                  | Some tuplesetRelation \<Rightarrow>
                      tupleset_types_loop (hasEntrypoints n t) t v computedRelationName (rel_types tuplesetRelation) h)
             | Union us \<Rightarrow>
                 any_child_loop (\<lambda>child. hasEntrypoints n t typeName relationName child visitedRelations) us False h
             | Intersection us \<Rightarrow>
                 all_children_loop (\<lambda>child. hasEntrypoints n t typeName relationName child visitedRelations) us h
             | Difference base sub \<Rightarrow>
                 all_children_loop (\<lambda>child. hasEntrypoints n t typeName relationName child visitedRelations) [base, sub] h
             | Unset \<Rightarrow> Some (Inl (ErrText ''hasEntrypoints unknown rewrite''), h)))"
section \<open>What an entrypoint is\<close>

inductive entry :: "TypeSystem \<Rightarrow> string \<Rightarrow> string \<Rightarrow> bool"
  and entry_rewrite :: "TypeSystem \<Rightarrow> string \<Rightarrow> string \<Rightarrow> userset \<Rightarrow> bool" for t where
  entry_relation: "map_of (relations_of t ot) rel = Some r \<Longrightarrow> entry_rewrite t ot rel (rel_rewrite r) \<Longrightarrow> entry t ot rel"
| entry_direct: "map_of (relations_of t ot) rel = Some r \<Longrightarrow> ref \<in> set (rel_types r) \<Longrightarrow>
    rr_ref ref = NoRef \<or> rr_GetWildcard ref \<Longrightarrow> entry_rewrite t ot rel This"
| entry_userset: "map_of (relations_of t ot) rel = Some r \<Longrightarrow> ref \<in> set (rel_types r) \<Longrightarrow>
    entry t (rr_type ref) (rr_GetRelation ref) \<Longrightarrow> entry_rewrite t ot rel This"
| entry_computed: "entry t ot c \<Longrightarrow> entry_rewrite t ot rel (ComputedUserset c)"
| entry_ttu: "map_of (relations_of t ot) ts = Some r \<Longrightarrow> ref \<in> set (rel_types r) \<Longrightarrow> entry t (rr_type ref) c \<Longrightarrow>
    entry_rewrite t ot rel (TupleToUserset ts c)"
| entry_union: "w \<in> set us \<Longrightarrow> entry_rewrite t ot rel w \<Longrightarrow> entry_rewrite t ot rel (Union us)"
| entry_inter: "(\<And>w. w \<in> set us \<Longrightarrow> entry_rewrite t ot rel w) \<Longrightarrow> entry_rewrite t ot rel (Intersection us)"
| entry_diff: "entry_rewrite t ot rel base \<Longrightarrow> entry_rewrite t ot rel sub \<Longrightarrow> entry_rewrite t ot rel (Difference base sub)"

section \<open>The visited map during the search\<close>

definition wf_visited :: "visited_map \<Rightarrow> inner_maps \<Rightarrow> bool" where
  "wf_visited v h \<longleftrightarrow> (\<forall>a i. v a = Some i \<longrightarrow> i < length h) \<and> inj_on v (dom v)"

lemma visited_at_set:
  assumes "wf_visited v h" and "v a \<noteq> None"
  shows "visited_at v (set_visited v a c b h) a' c' = (if a' = a \<and> c' = c then Some b else visited_at v h a' c')"
proof -
  from assms(2) obtain i where i: "v a = Some i" by blast
  with assms(1) have "i < length h" by (auto simp: wf_visited_def)
  moreover have "v a' = Some i \<longleftrightarrow> a' = a"
    using assms(1) i by (auto simp: wf_visited_def inj_on_def dom_def)
  ultimately show ?thesis
    by (auto simp: visited_at_def set_visited_def i nth_list_update split: option.splits)
qed

lemma set_visited_length [simp]: "length (set_visited v a c b h) = length h"
  by (simp add: set_visited_def split: option.split)

lemma wf_visited_longer: "wf_visited v h \<Longrightarrow> length h \<le> length h' \<Longrightarrow> wf_visited v h'"
  by (fastforce simp: wf_visited_def)

lemma wf_visited_sub: "wf_visited v h \<Longrightarrow> vis \<subseteq>\<^sub>m v \<Longrightarrow> wf_visited vis h"
  by (force simp: wf_visited_def map_le_def inj_on_def dom_def)

lemma visited_at_sub: "vis \<subseteq>\<^sub>m v \<Longrightarrow> visited_at vis h a c = (if vis a = None then None else visited_at v h a c)"
  by (auto simp: visited_at_def map_le_def dom_def split: option.splits)

lemma mark_visited_facts:
  assumes "wf_visited vis h0" and "mark_visited vis h0 a c = (v, h)"
  shows "wf_visited v h" and "vis \<subseteq>\<^sub>m v" and "v a \<noteq> None" and "length h0 \<le> length h"
    and "visited_at v h a' c' = (if a' = a \<and> c' = c then Some False else visited_at vis h0 a' c')"
proof -
  have "wf_visited v h \<and> vis \<subseteq>\<^sub>m v \<and> v a \<noteq> None \<and> length h0 \<le> length h \<and>
      visited_at v h a' c' = (if a' = a \<and> c' = c then Some False else visited_at vis h0 a' c')"
  proof (cases "vis a")
    case None
    with assms(2) have v: "v = vis(a \<mapsto> length h0)" "h = h0 @ [[c \<mapsto> False]]" by (simp_all add: mark_visited_def)
    have lt: "vis a' = Some i \<Longrightarrow> i < length h0" for a' i using assms(1) by (simp add: wf_visited_def)
    have "wf_visited v h"
      using assms(1) None v lt by (auto simp: wf_visited_def inj_on_def dom_def less_Suc_eq) (metis less_irrefl)+
    moreover have "visited_at v h a' c' = (if a' = a \<and> c' = c then Some False else visited_at vis h0 a' c')"
      using None lt by (auto simp: visited_at_def v nth_append split: option.splits)
    ultimately show ?thesis
      using None by (auto simp: v map_le_def)
  next
    case (Some i)
    with assms(2) have v: "v = vis" "h = set_visited vis a c False h0" by (auto simp: mark_visited_def)
    have "wf_visited v h" using wf_visited_longer [OF assms(1), of h] by (simp add: v)
    with visited_at_set [OF assms(1), of a c False a' c'] Some show ?thesis by (simp add: v)
  qed
  then show "wf_visited v h" "vis \<subseteq>\<^sub>m v" "v a \<noteq> None" "length h0 \<le> length h"
    "visited_at v h a' c' = (if a' = a \<and> c' = c then Some False else visited_at vis h0 a' c')"
    by blast+
qed

text \<open>
  Between the calls every mark that says \<open>True\<close> is right, except perhaps that of the relation the
  search is in, and no call changes the mark of another relation that has been visited.
\<close>

definition true_marks :: "TypeSystem \<Rightarrow> visited_map \<Rightarrow> inner_maps \<Rightarrow> string \<times> string \<Rightarrow> bool" where
  "true_marks t v h x \<longleftrightarrow> (\<forall>a c. (a, c) \<noteq> x \<and> visited_at v h a c = Some True \<longrightarrow> entry t a c)"

definition keeps :: "visited_map \<Rightarrow> inner_maps \<Rightarrow> inner_maps \<Rightarrow> string \<times> string \<Rightarrow> bool" where
  "keeps v h h' x \<longleftrightarrow> length h \<le> length h' \<and>
     (\<forall>a c. visited_at v h a c \<noteq> None \<longrightarrow>
        visited_at v h' a c \<noteq> None \<and> ((a, c) \<noteq> x \<longrightarrow> visited_at v h' a c = visited_at v h a c))"

definition found :: "(err, bool \<times> bool) result \<Rightarrow> bool" where
  "found res \<longleftrightarrow> (\<exists>l. res = Inr (True, l))"

lemma found_simps [simp]: "\<not> found (Inl e)" "found (Inr (b, l)) = b"
  by (auto simp: found_def)

definition call_ok :: "TypeSystem \<Rightarrow> string \<Rightarrow> string \<Rightarrow> userset \<Rightarrow> visited_map \<Rightarrow> inner_maps \<Rightarrow>
    (err, bool \<times> bool) result \<Rightarrow> inner_maps \<Rightarrow> bool" where
  "call_ok t a c w vis h res h' \<longleftrightarrow> keeps vis h h' (a, c) \<and> true_marks t vis h' (a, c) \<and>
     (if found res then entry_rewrite t a c w else visited_at vis h' a c \<noteq> Some True)"

definition calls_ok :: "TypeSystem \<Rightarrow> entry_call \<Rightarrow> bool" where
  "calls_ok t rec \<longleftrightarrow> (\<forall>a c w vis h res h'. wf_visited vis h \<and> true_marks t vis h (a, c) \<and>
     rec a c w vis h = Some (res, h') \<longrightarrow> call_ok t a c w vis h res h')"

lemma keeps_refl [simp]: "keeps v h h x"
  by (simp add: keeps_def)

lemma keeps_trans: "keeps v h h' x \<Longrightarrow> keeps v h' h'' x \<Longrightarrow> keeps v h h'' x"
  unfolding keeps_def by (metis order_trans)

lemma keeps_wf: "keeps v h h' x \<Longrightarrow> wf_visited v h \<Longrightarrow> wf_visited v h'"
  by (auto simp: keeps_def intro: wf_visited_longer)

text \<open>A call for a relation that has not been visited.\<close>

lemma fresh_call:
  assumes "calls_ok t rec" and "wf_visited v h" and "true_marks t v h x" and "visited_at v h a c = None"
    and "visited_at v h (fst x) (snd x) = Some False"
    and "map_of (relations_of t a) c = Some r" and "rec a c (rel_rewrite r) v h = Some (res, h')"
  shows "keeps v h h' x" and "true_marks t v h' x" and "visited_at v h' (fst x) (snd x) = Some False"
    and "wf_visited v h'" and "found res \<Longrightarrow> entry t a c"
proof -
  have "entry t a' c'" if "visited_at v h a' c' = Some True" for a' c'
  proof -
    have "(a', c') \<noteq> x" using that assms(5) by auto
    with that assms(3) show ?thesis by (simp add: true_marks_def)
  qed
  then have "true_marks t v h (a, c)" by (simp add: true_marks_def)
  with assms(1,2,7) have ok: "call_ok t a c (rel_rewrite r) v h res h'"
    unfolding calls_ok_def by blast
  then show e: "found res \<Longrightarrow> entry t a c" using assms(6) by (auto simp: call_ok_def intro: entry_relation)
  from ok have k: "keeps v h h' (a, c)" and tm: "true_marks t v h' (a, c)"
    and nf: "\<not> found res \<Longrightarrow> visited_at v h' a c \<noteq> Some True"
    by (auto simp: call_ok_def split: if_splits)
  have same: "visited_at v h' a' c' = visited_at v h a' c'" if "visited_at v h a' c' \<noteq> None" for a' c'
  proof -
    have "(a', c') \<noteq> (a, c)" using that assms(4) by auto
    with that k show ?thesis unfolding keeps_def by blast
  qed
  with k show "keeps v h h' x" by (simp add: keeps_def)
  have "entry t a' c'" if "visited_at v h' a' c' = Some True" for a' c'
  proof (cases "(a', c') = (a, c)")
    case True
    with nf e that show ?thesis by auto
  next
    case False
    with tm that show ?thesis unfolding true_marks_def by blast
  qed
  then show "true_marks t v h' x" by (simp add: true_marks_def)
  from same [of "fst x" "snd x"] assms(5) show "visited_at v h' (fst x) (snd x) = Some False" by simp
  from k assms(2) show "wf_visited v h'" by (rule keeps_wf)
qed


lemma assignable_types_loop_ok:
  assumes "calls_ok t rec" and "map_of (relations_of t a) c = Some r"
  shows "set refs \<subseteq> set (rel_types r) \<Longrightarrow> wf_visited v h \<Longrightarrow> v a \<noteq> None \<Longrightarrow> true_marks t v h (a, c) \<Longrightarrow>
    visited_at v h a c = Some False \<Longrightarrow> assignable_types_loop rec t v a c refs h = Some (res, h') \<Longrightarrow>
    call_ok t a c This v h res h'"
proof (induction refs arbitrary: h)
  case Nil
  then show ?case by (auto simp: call_ok_def)
next
  case (Cons ref refs)
  note h = Cons.prems(2-5)
  have ref: "ref \<in> set (rel_types r)" using Cons.prems(1) by simp
  show ?case
  proof (cases "rr_ref ref = NoRef \<or> rr_GetWildcard ref")
    case True
    with Cons.prems(6) have "res = Inr (True, False)" "h' = set_visited v a c True h" by auto
    moreover have "entry_rewrite t a c This" using assms(2) ref True by (rule entry_direct)
    ultimately show ?thesis
      using h visited_at_set [OF h(1,2), of c True]
      by (auto simp: call_ok_def keeps_def true_marks_def split: if_splits)
  next
    case direct: False
    let ?a = "rr_type ref" and ?c = "rr_GetRelation ref"
    show ?thesis
    proof (cases "map_of (relations_of t ?a) ?c")
      case None
      with direct Cons.prems show ?thesis by (auto simp: call_ok_def)
    next
      case rel: (Some r')
      show ?thesis
      proof (cases "visited_at v h ?a ?c")
        case (Some b)
        with direct rel Cons show ?thesis by auto
      next
        case fresh: None
        with direct rel Cons.prems(6) obtain res1 h1 where
          call: "rec ?a ?c (rel_rewrite r') v h = Some (res1, h1)" by (auto split: option.splits)
        note f = fresh_call [OF assms(1) h(1) h(3) fresh _ rel call, unfolded fst_conv snd_conv, OF h(4)]
        show ?thesis
        proof (cases res1)
          case (Inl e)
          with direct rel fresh call Cons.prems(6) f show ?thesis by (auto simp: call_ok_def)
        next
          case (Inr p)
          then obtain b l where p: "res1 = Inr (b, l)" by (cases p) auto
          show ?thesis
          proof (cases b)
            case True
            then have "entry_rewrite t a c This"
              using assms(2) ref f(5) p by (auto intro: entry_userset)
            with True p direct rel fresh call Cons.prems(6) f show ?thesis by (auto simp: call_ok_def)
          next
            case False
            with p direct rel fresh call Cons.prems(6) have "assignable_types_loop rec t v a c refs h1 = Some (res, h')"
              by auto
            then have "call_ok t a c This v h1 res h'"
              using Cons.IH Cons.prems(1,3) f by auto
            with f(1) show ?thesis unfolding call_ok_def using keeps_trans by blast
          qed
        qed
      qed
    qed
  qed
qed
lemma tupleset_types_loop_ok:
  assumes "calls_ok t rec" and "map_of (relations_of t a) ts = Some r"
  shows "set refs \<subseteq> set (rel_types r) \<Longrightarrow> wf_visited v h \<Longrightarrow> true_marks t v h (a, c) \<Longrightarrow>
    visited_at v h a c = Some False \<Longrightarrow> tupleset_types_loop rec t v d refs h = Some (res, h') \<Longrightarrow>
    call_ok t a c (TupleToUserset ts d) v h res h'"
proof (induction refs arbitrary: h)
  case Nil
  then show ?case by (auto simp: call_ok_def)
next
  case (Cons ref refs)
  note h = Cons.prems(2-4)
  have ref: "ref \<in> set (rel_types r)" using Cons.prems(1) by simp
  let ?a = "rr_type ref"
  show ?case
  proof (cases "map_of (relations_of t ?a) d")
    case None
    with Cons show ?thesis by auto
  next
    case rel: (Some r')
    show ?thesis
    proof (cases "visited_at v h ?a d")
      case (Some b)
      show ?thesis
      proof (cases b)
        case True
        with Some h(3) have "(?a, d) \<noteq> (a, c)" by auto
        with Some True h(2) have "entry t ?a d" by (simp add: true_marks_def)
        with assms(2) ref have "entry_rewrite t a c (TupleToUserset ts d)" by (rule entry_ttu)
        with True Some rel Cons.prems show ?thesis by (auto simp: call_ok_def)
      next
        case False
        with Some rel Cons show ?thesis by auto
      qed
    next
      case fresh: None
      with rel Cons.prems(5) obtain res1 h1 where
        call: "rec ?a d (rel_rewrite r') v h = Some (res1, h1)" by (auto split: option.splits)
      note f = fresh_call [OF assms(1) h(1) h(2) fresh _ rel call, unfolded fst_conv snd_conv, OF h(3)]
      show ?thesis
      proof (cases res1)
        case (Inl e)
        with rel fresh call Cons.prems(5) f show ?thesis by (auto simp: call_ok_def)
      next
        case (Inr p)
        then obtain b l where p: "res1 = Inr (b, l)" by (cases p) auto
        show ?thesis
        proof (cases b)
          case True
          then have "entry_rewrite t a c (TupleToUserset ts d)"
            using assms(2) ref f(5) p by (auto intro: entry_ttu)
          with True p rel fresh call Cons.prems(5) f show ?thesis by (auto simp: call_ok_def)
        next
          case False
          with p rel fresh call Cons.prems(5) have "tupleset_types_loop rec t v d refs h1 = Some (res, h')" by auto
          then have "call_ok t a c (TupleToUserset ts d) v h1 res h'"
            using Cons.IH Cons.prems(1) f by auto
          with f(1) show ?thesis unfolding call_ok_def using keeps_trans by blast
        qed
      qed
    qed
  qed
qed

text \<open>The calls for the operands of a rewrite are for the same relation and the same map.\<close>

lemma operand_call:
  assumes "calls_ok t rec" and "wf_visited vis h" and "true_marks t vis h (a, c)" and "rec a c w vis h = Some (res, h')"
  shows "keeps vis h h' (a, c)" and "true_marks t vis h' (a, c)" and "wf_visited vis h'"
    and "found res \<Longrightarrow> entry_rewrite t a c w" and "\<not> found res \<Longrightarrow> visited_at vis h' a c \<noteq> Some True"
proof -
  have ok: "call_ok t a c w vis h res h'" using assms unfolding calls_ok_def by blast
  then show "keeps vis h h' (a, c)" "true_marks t vis h' (a, c)" "found res \<Longrightarrow> entry_rewrite t a c w"
    "\<not> found res \<Longrightarrow> visited_at vis h' a c \<noteq> Some True"
    by (auto simp: call_ok_def split: if_splits)
  then show "wf_visited vis h'" using assms(2) keeps_wf by blast
qed

lemma any_child_loop_ok:
  assumes "calls_ok t rec"
  shows "set us \<subseteq> set ws \<Longrightarrow> wf_visited vis h \<Longrightarrow> true_marks t vis h (a, c) \<Longrightarrow> visited_at vis h a c \<noteq> Some True \<Longrightarrow>
    any_child_loop (\<lambda>child. rec a c child vis) us loop h = Some (res, h') \<Longrightarrow> call_ok t a c (Union ws) vis h res h'"
proof (induction us arbitrary: h loop)
  case Nil
  then show ?case by (auto simp: call_ok_def)
next
  case (Cons u us)
  from Cons.prems(5) obtain res1 h1 where call: "rec a c u vis h = Some (res1, h1)" by (auto split: option.splits)
  note f = operand_call [OF assms Cons.prems(2,3) call]
  show ?case
  proof (cases res1)
    case (Inl e)
    with call Cons.prems(5) f show ?thesis by (auto simp: call_ok_def)
  next
    case (Inr p)
    then obtain b l where p: "res1 = Inr (b, l)" by (cases p) auto
    show ?thesis
    proof (cases b)
      case True
      then have "entry_rewrite t a c (Union ws)" using f(4) p Cons.prems(1) by (auto intro: entry_union)
      with True p call Cons.prems(5) f show ?thesis by (auto simp: call_ok_def)
    next
      case False
      with p call Cons.prems(5) have "any_child_loop (\<lambda>child. rec a c child vis) us (loop \<or> l) h1 = Some (res, h')" by auto
      then have "call_ok t a c (Union ws) vis h1 res h'"
        using Cons.IH Cons.prems(1) f p False by auto
      with f(1) show ?thesis unfolding call_ok_def using keeps_trans by blast
    qed
  qed
qed

lemma all_children_loop_ok:
  assumes "calls_ok t rec"
  shows "wf_visited vis h \<Longrightarrow> true_marks t vis h (a, c) \<Longrightarrow>
    all_children_loop (\<lambda>child. rec a c child vis) us h = Some (res, h') \<Longrightarrow>
    keeps vis h h' (a, c) \<and> true_marks t vis h' (a, c) \<and>
    (if found res then \<forall>w\<in>set us. entry_rewrite t a c w else visited_at vis h' a c \<noteq> Some True)"
proof (induction us arbitrary: h)
  case Nil
  then show ?case by auto
next
  case (Cons u us)
  from Cons.prems(3) obtain res1 h1 where call: "rec a c u vis h = Some (res1, h1)" by (auto split: option.splits)
  note f = operand_call [OF assms Cons.prems(1,2) call]
  show ?case
  proof (cases res1)
    case (Inl e)
    with call Cons.prems(3) f show ?thesis by auto
  next
    case (Inr p)
    then obtain b l where p: "res1 = Inr (b, l)" by (cases p) auto
    show ?thesis
    proof (cases b)
      case True
      with p call Cons.prems(3) have "all_children_loop (\<lambda>child. rec a c child vis) us h1 = Some (res, h')" by auto
      from Cons.IH [OF f(3,2) this] f(1,4) True p keeps_trans show ?thesis by (auto split: if_splits)
    next
      case False
      with p call Cons.prems(3) f show ?thesis by auto
    qed
  qed
qed
text \<open>What a call does to the map it makes is what it does to the map it was given.\<close>

lemma call_ok_given:
  assumes "wf_visited vis h0" and "mark_visited vis h0 a c = (v, h)" and "call_ok t a c w v h res h'"
  shows "call_ok t a c w vis h0 res h'"
proof -
  note m = mark_visited_facts [OF assms(1,2)]
  note sub = visited_at_sub [OF m(2)]
  have keep: "visited_at v h' a' c' \<noteq> None \<and> ((a', c') \<noteq> (a, c) \<longrightarrow> visited_at v h' a' c' = visited_at vis h0 a' c')"
    if "visited_at vis h0 a' c' \<noteq> None" for a' c'
  proof -
    have "visited_at v h a' c' \<noteq> None" using that m(5) [of a' c'] by (auto split: if_splits)
    then show ?thesis using assms(3) m(5) by (auto simp: call_ok_def keeps_def)
  qed
  have dom: "vis a' \<noteq> None" if "visited_at vis h0 a' c' \<noteq> None" for a' c'
    using that by (auto simp: visited_at_def split: option.splits)
  have eq: "visited_at vis h' a' c' = visited_at v h' a' c'" if "visited_at vis h0 a' c' \<noteq> None" for a' c'
    using dom [OF that] sub [of h' a' c'] by (simp split: if_splits)
  have "length h0 \<le> length h'" using m(4) assms(3) by (simp add: call_ok_def keeps_def)
  then have "keeps vis h0 h' (a, c)" unfolding keeps_def using keep eq by metis
  moreover have "true_marks t vis h' (a, c)"
    unfolding true_marks_def sub using assms(3) by (simp add: call_ok_def true_marks_def)
  moreover have "visited_at vis h' a c \<noteq> Some True" if "\<not> found res"
    unfolding sub using assms(3) that by (simp add: call_ok_def)
  ultimately show ?thesis using assms(3) by (auto simp: call_ok_def)
qed

lemma hasEntrypoints_ok: "calls_ok t (hasEntrypoints n t)"
proof (induction n)
  case 0
  show ?case by (simp add: calls_ok_def)
next
  case (Suc n)
  have "call_ok t a c w vis h0 res h'"
    if wf: "wf_visited vis h0" and tm: "true_marks t vis h0 (a, c)"
      and call: "hasEntrypoints (Suc n) t a c w vis h0 = Some (res, h')" for a c w vis h0 res h'
  proof -
    obtain v h where mark: "mark_visited vis h0 a c = (v, h)" by fastforce
    note m = mark_visited_facts [OF wf mark]
    have tm': "true_marks t v h (a, c)" using tm m(5) by (simp add: true_marks_def)
    have false: "visited_at v h a c = Some False" using m(5) by simp
    have stop: "call_ok t a c w v h (Inl e) h" for e using tm' false by (simp add: call_ok_def)
    have vis: "wf_visited vis h" "true_marks t vis h (a, c)" "visited_at vis h a c \<noteq> Some True"
      using wf_visited_longer [OF wf m(4)] tm' false visited_at_sub [OF m(2)] by (auto simp: true_marks_def)
    have keeps: "keeps vis h0 h (a, c)"
      using m(4,5) visited_at_sub [OF m(2), of h] by (auto simp: keeps_def visited_at_def split: option.splits)
    show ?thesis
    proof (cases "map_of (relations_of t a) c")
      case None
      with call have "res = Inl undefined_type_definition" "h' = h" by (simp_all add: mark)
      with stop call_ok_given [OF wf mark] show ?thesis by blast
    next
      case rel: (Some r)
      show ?thesis
      proof (cases w)
        case Unset
        with call rel have "res = Inl (ErrText ''hasEntrypoints unknown rewrite'')" "h' = h" by (simp_all add: mark)
        with stop call_ok_given [OF wf mark] show ?thesis by blast
      next
        case This
        with call rel have "assignable_types_loop (hasEntrypoints n t) t v a c (rel_types r) h = Some (res, h')"
          by (simp add: mark)
        from assignable_types_loop_ok [OF Suc rel order_refl m(1,3) tm' false this] This call_ok_given [OF wf mark]
        show ?thesis by blast
      next
        case (ComputedUserset d)
        show ?thesis
        proof (cases "map_of (relations_of t a) d")
          case None
          with call rel ComputedUserset have "res = Inl undefined_type_definition" "h' = h" by (simp_all add: mark)
          with stop call_ok_given [OF wf mark] show ?thesis by blast
        next
          case (Some r')
          show ?thesis
          proof (cases "visited_at v h a d")
            case visited: (Some b)
            with call rel ComputedUserset Some have res: "res = Inr (b, True)" "h' = h" by (simp_all add: mark)
            have "entry_rewrite t a c w" if b
            proof -
              have "d \<noteq> c" using visited false that by auto
              with tm' visited that have "entry t a d" by (simp add: true_marks_def)
              then show ?thesis unfolding ComputedUserset by (rule entry_computed)
            qed
            with res tm' false have "call_ok t a c w v h res h'" by (simp add: call_ok_def)
            then show ?thesis by (rule call_ok_given [OF wf mark])
          next
            case fresh: None
            with call rel ComputedUserset Some have rec: "hasEntrypoints n t a d (rel_rewrite r') v h = Some (res, h')"
              by (simp add: mark)
            note f = fresh_call [OF Suc m(1) tm' fresh _ Some rec, unfolded fst_conv snd_conv, OF false]
            have "call_ok t a c w v h res h'"
              using f ComputedUserset by (auto simp: call_ok_def intro: entry_computed)
            then show ?thesis by (rule call_ok_given [OF wf mark])
          qed
        qed
      next
        case (TupleToUserset ts d)
        show ?thesis
        proof (cases "map_of (relations_of t a) ts")
          case None
          with call rel TupleToUserset have "res = Inl undefined_type_definition" "h' = h" by (simp_all add: mark)
          with stop call_ok_given [OF wf mark] show ?thesis by blast
        next
          case (Some r')
          with call rel TupleToUserset have "tupleset_types_loop (hasEntrypoints n t) t v d (rel_types r') h = Some (res, h')"
            by (simp add: mark)
          from tupleset_types_loop_ok [OF Suc Some order_refl m(1) tm' false this] TupleToUserset call_ok_given [OF wf mark]
          show ?thesis by blast
        qed
      next
        case (Union us)
        with call rel have "any_child_loop (\<lambda>child. hasEntrypoints n t a c child vis) us False h = Some (res, h')"
          by (simp add: mark)
        from any_child_loop_ok [OF Suc order_refl vis this] keeps keeps_trans Union
        show ?thesis unfolding call_ok_def by blast
      next
        case (Intersection us)
        with call rel have "all_children_loop (\<lambda>child. hasEntrypoints n t a c child vis) us h = Some (res, h')"
          by (simp add: mark)
        from all_children_loop_ok [OF Suc vis(1,2) this] keeps keeps_trans Intersection
        show ?thesis unfolding call_ok_def by (auto split: if_splits intro: entry_inter)
      next
        case (Difference b s)
        with call rel have "all_children_loop (\<lambda>child. hasEntrypoints n t a c child vis) [b, s] h = Some (res, h')"
          by (simp add: mark)
        from all_children_loop_ok [OF Suc vis(1,2) this] keeps keeps_trans Difference
        show ?thesis unfolding call_ok_def by (auto split: if_splits intro: entry_diff)
      qed
    qed
  qed
  then show ?case unfolding calls_ok_def by blast
qed
section \<open>The search ends\<close>

lemma assignable_types_loop_returns:
  assumes "calls_ok t rec"
    and "\<And>a' c' r' h. visited_at v h a' c' = None \<Longrightarrow> map_of (relations_of t a') c' = Some r' \<Longrightarrow> wf_visited v h \<Longrightarrow>
      true_marks t v h (a, c) \<Longrightarrow> visited_at v h a c = Some False \<Longrightarrow> keeps v h0 h (a, c) \<Longrightarrow>
      \<exists>res h'. rec a' c' (rel_rewrite r') v h = Some (res, h')"
  shows "wf_visited v h \<Longrightarrow> true_marks t v h (a, c) \<Longrightarrow> visited_at v h a c = Some False \<Longrightarrow> keeps v h0 h (a, c) \<Longrightarrow>
    \<exists>res h'. assignable_types_loop rec t v a c refs h = Some (res, h')"
proof (induction refs arbitrary: h)
  case (Cons ref refs)
  let ?a = "rr_type ref" and ?c = "rr_GetRelation ref"
  show ?case
  proof (cases "map_of (relations_of t ?a) ?c")
    case rel: (Some r')
    show ?thesis
    proof (cases "visited_at v h ?a ?c")
      case fresh: None
      obtain res1 h1 where call: "rec ?a ?c (rel_rewrite r') v h = Some (res1, h1)"
        using assms(2) [OF fresh rel Cons.prems] by blast
      note f = fresh_call [OF assms(1) Cons.prems(1,2) fresh _ rel call, unfolded fst_conv snd_conv, OF Cons.prems(3)]
      from Cons.IH [OF f(4,2,3) keeps_trans [OF Cons.prems(4) f(1)]] rel fresh call show ?thesis
        by (auto split: sum.split)
    qed (use rel Cons in auto)
  qed auto
qed auto

lemma tupleset_types_loop_returns:
  assumes "calls_ok t rec"
    and "\<And>a' c' r' h. visited_at v h a' c' = None \<Longrightarrow> map_of (relations_of t a') c' = Some r' \<Longrightarrow> wf_visited v h \<Longrightarrow>
      true_marks t v h (a, c) \<Longrightarrow> visited_at v h a c = Some False \<Longrightarrow> keeps v h0 h (a, c) \<Longrightarrow>
      \<exists>res h'. rec a' c' (rel_rewrite r') v h = Some (res, h')"
  shows "wf_visited v h \<Longrightarrow> true_marks t v h (a, c) \<Longrightarrow> visited_at v h a c = Some False \<Longrightarrow> keeps v h0 h (a, c) \<Longrightarrow>
    \<exists>res h'. tupleset_types_loop rec t v d refs h = Some (res, h')"
proof (induction refs arbitrary: h)
  case (Cons ref refs)
  let ?a = "rr_type ref"
  show ?case
  proof (cases "map_of (relations_of t ?a) d")
    case rel: (Some r')
    show ?thesis
    proof (cases "visited_at v h ?a d")
      case fresh: None
      obtain res1 h1 where call: "rec ?a d (rel_rewrite r') v h = Some (res1, h1)"
        using assms(2) [OF fresh rel Cons.prems] by blast
      note f = fresh_call [OF assms(1) Cons.prems(1,2) fresh _ rel call, unfolded fst_conv snd_conv, OF Cons.prems(3)]
      from Cons.IH [OF f(4,2,3) keeps_trans [OF Cons.prems(4) f(1)]] rel fresh call show ?thesis
        by (auto split: sum.split)
    qed (use rel Cons in auto)
  qed (use Cons in auto)
qed auto

lemma children_loops_return:
  assumes "calls_ok t rec"
    and "\<And>w h. w \<in> set us \<Longrightarrow> wf_visited vis h \<Longrightarrow> true_marks t vis h (a, c) \<Longrightarrow> keeps vis h0 h (a, c) \<Longrightarrow>
      \<exists>res h'. rec a c w vis h = Some (res, h')"
    and "wf_visited vis h" and "true_marks t vis h (a, c)" and "keeps vis h0 h (a, c)"
  shows "\<exists>res h'. any_child_loop (\<lambda>child. rec a c child vis) us loop h = Some (res, h')"
    and "\<exists>res h'. all_children_loop (\<lambda>child. rec a c child vis) us h = Some (res, h')"
proof -
  have "set us' \<subseteq> set us \<Longrightarrow> wf_visited vis h \<Longrightarrow> true_marks t vis h (a, c) \<Longrightarrow> keeps vis h0 h (a, c) \<Longrightarrow>
      (\<exists>res h'. any_child_loop (\<lambda>child. rec a c child vis) us' loop h = Some (res, h')) \<and>
      (\<exists>res h'. all_children_loop (\<lambda>child. rec a c child vis) us' h = Some (res, h'))" for us' h loop
  proof (induction us' arbitrary: h loop)
    case (Cons u us')
    have "u \<in> set us" using Cons.prems(1) by simp
    with assms(2) Cons.prems(2-4) obtain res1 h1 where call: "rec a c u vis h = Some (res1, h1)" by blast
    note f = operand_call [OF assms(1) Cons.prems(2,3) call]
    from Cons.IH [OF _ f(3,2) keeps_trans [OF Cons.prems(4) f(1)]] Cons.prems(1) call show ?case
      by (auto split: sum.split)
  qed simp
  then show "\<exists>res h'. any_child_loop (\<lambda>child. rec a c child vis) us loop h = Some (res, h')"
    "\<exists>res h'. all_children_loop (\<lambda>child. rec a c child vis) us h = Some (res, h')"
    using assms(3-5) by blast+
qed

text \<open>The relations that the search has not visited, among all defined ones.\<close>

definition unvisited_in :: "(string \<times> string) set \<Rightarrow> visited_map \<Rightarrow> inner_maps \<Rightarrow> string \<times> string \<Rightarrow> nat" where
  "unvisited_in D v h x = card {y \<in> D. y \<noteq> x \<and> visited_at v h (fst y) (snd y) = None}"

lemma unvisited_in_keeps:
  assumes "finite D" and "keeps v h h' x"
  shows "unvisited_in D v h' x \<le> unvisited_in D v h x"
  unfolding unvisited_in_def using assms(1)
proof (rule card_mono [OF finite_subset [rotated]])
  show "{y \<in> D. y \<noteq> x \<and> visited_at v h' (fst y) (snd y) = None} \<subseteq> {y \<in> D. y \<noteq> x \<and> visited_at v h (fst y) (snd y) = None}"
    using assms(2) unfolding keeps_def by blast
qed auto

lemma unvisited_in_fresh:
  assumes "finite D" and "(a', c') \<in> D" and "visited_at v h a' c' = None" and "visited_at v h a c \<noteq> None"
  shows "unvisited_in D v h (a', c') < unvisited_in D v h (a, c)"
  unfolding unvisited_in_def
proof (rule psubset_card_mono)
  show "finite {y \<in> D. y \<noteq> (a, c) \<and> visited_at v h (fst y) (snd y) = None}" using assms(1) by simp
  have "(a', c') \<noteq> (a, c)" using assms(3,4) by auto
  then have "(a', c') \<in> {y \<in> D. y \<noteq> (a, c) \<and> visited_at v h (fst y) (snd y) = None}" using assms(2,3) by simp
  moreover have "{y \<in> D. y \<noteq> (a', c') \<and> visited_at v h (fst y) (snd y) = None} \<subseteq>
      {y \<in> D. y \<noteq> (a, c) \<and> visited_at v h (fst y) (snd y) = None}"
  proof (rule subsetI)
    fix y
    assume y: "y \<in> {y \<in> D. y \<noteq> (a', c') \<and> visited_at v h (fst y) (snd y) = None}"
    then have "y \<noteq> (a, c)" using assms(4) by auto
    with y show "y \<in> {y \<in> D. y \<noteq> (a, c) \<and> visited_at v h (fst y) (snd y) = None}" by simp
  qed
  ultimately show "{y \<in> D. y \<noteq> (a', c') \<and> visited_at v h (fst y) (snd y) = None} \<subset>
      {y \<in> D. y \<noteq> (a, c) \<and> visited_at v h (fst y) (snd y) = None}"
    by blast
qed

lemma unvisited_in_mark:
  assumes "wf_visited vis h0" and "mark_visited vis h0 a c = (v, h)"
  shows "unvisited_in D v h (a, c) = unvisited_in D vis h0 (a, c)"
proof -
  have "{y \<in> D. y \<noteq> (a, c) \<and> visited_at v h (fst y) (snd y) = None} =
      {y \<in> D. y \<noteq> (a, c) \<and> visited_at vis h0 (fst y) (snd y) = None}"
    using mark_visited_facts(5) [OF assms] by auto
  then show ?thesis by (simp add: unvisited_in_def)
qed


lemma hasEntrypoints_total:
  assumes "finite D"
    and D: "\<And>ot rel r. map_of (relations_of t ot) rel = Some r \<Longrightarrow> (ot, rel) \<in> D \<and> usize (rel_rewrite r) \<le> K"
  shows "wf_visited vis h0 \<Longrightarrow> true_marks t vis h0 (a, c) \<Longrightarrow> unvisited_in D vis h0 (a, c) * K + usize w < n \<Longrightarrow>
    \<exists>res h'. hasEntrypoints n t a c w vis h0 = Some (res, h')"
proof (induction n arbitrary: a c w vis h0)
  case (Suc n)
  obtain v h where mark: "mark_visited vis h0 a c = (v, h)" by fastforce
  note m = mark_visited_facts [OF Suc.prems(1) mark]
  note ok = hasEntrypoints_ok [of t n]
  have tm: "true_marks t v h (a, c)" using Suc.prems(2) m(5) by (simp add: true_marks_def)
  have false: "visited_at v h a c = Some False" using m(5) by simp
  have vis: "wf_visited vis h" "true_marks t vis h (a, c)"
    using wf_visited_longer [OF Suc.prems(1) m(4)] tm visited_at_sub [OF m(2)] by (auto simp: true_marks_def)
  have keeps: "keeps vis h0 h (a, c)"
    using m(4,5) visited_at_sub [OF m(2), of h] by (auto simp: keeps_def visited_at_def split: option.splits)
  have fresh: "\<exists>res h'. hasEntrypoints n t a' c' (rel_rewrite r') v h1 = Some (res, h')"
    if f: "visited_at v h1 a' c' = None" "map_of (relations_of t a') c' = Some r'" "wf_visited v h1"
      "true_marks t v h1 (a, c)" "visited_at v h1 a c = Some False" "keeps v h h1 (a, c)" for a' c' r' h1
  proof (rule Suc.IH [OF f(3)])
    show "true_marks t v h1 (a', c')"
      unfolding true_marks_def
    proof (intro allI impI)
      fix x y
      assume "(x, y) \<noteq> (a', c') \<and> visited_at v h1 x y = Some True"
      moreover from this f(5) have "(x, y) \<noteq> (a, c)" by auto
      ultimately show "entry t x y" using f(4) by (simp add: true_marks_def)
    qed
    have "unvisited_in D v h1 (a', c') < unvisited_in D v h1 (a, c)"
      using assms(1) D [OF f(2)] f(1,5) by (intro unvisited_in_fresh) simp_all
    also have "\<dots> \<le> unvisited_in D v h (a, c)" using assms(1) f(6) by (rule unvisited_in_keeps)
    finally have "unvisited_in D v h1 (a', c') < unvisited_in D vis h0 (a, c)"
      by (simp add: unvisited_in_mark [OF Suc.prems(1) mark])
    then have "Suc (unvisited_in D v h1 (a', c')) * K \<le> unvisited_in D vis h0 (a, c) * K"
      by (intro mult_le_mono1) simp
    then have "unvisited_in D v h1 (a', c') * K + K \<le> unvisited_in D vis h0 (a, c) * K" by simp
    moreover have "usize (rel_rewrite r') \<le> K" using D [OF f(2)] by simp
    ultimately show "unvisited_in D v h1 (a', c') * K + usize (rel_rewrite r') < n"
      using Suc.prems(3) usize_pos [of w] by linarith
  qed
  have child: "\<exists>res h'. hasEntrypoints n t a c u vis h1 = Some (res, h')"
    if "usize u < usize w" "wf_visited vis h1" "true_marks t vis h1 (a, c)" "keeps vis h0 h1 (a, c)" for u h1
  proof (rule Suc.IH [OF that(2,3)])
    have "unvisited_in D vis h1 (a, c) * K \<le> unvisited_in D vis h0 (a, c) * K"
      using unvisited_in_keeps [OF assms(1) that(4)] by (rule mult_le_mono1)
    with that(1) Suc.prems(3) show "unvisited_in D vis h1 (a, c) * K + usize u < n" by linarith
  qed
  show ?case
  proof (cases "map_of (relations_of t a) c")
    case None
    then show ?thesis by (simp add: mark)
  next
    case rel: (Some r)
    have smaller: "usize u < Suc (Suc (sum_list (map usize us)))" if "u \<in> set us" for u us
      using member_le_sum_list [of "usize u" "map usize us"] that by simp
    have this_loop: "\<exists>res h'. assignable_types_loop (hasEntrypoints n t) t v a c refs h = Some (res, h')" for refs
      by (rule assignable_types_loop_returns [OF ok _ m(1) tm false keeps_refl]) (rule fresh)
    have ttu_loop: "\<exists>res h'. tupleset_types_loop (hasEntrypoints n t) t v d refs h = Some (res, h')" for d refs
      by (rule tupleset_types_loop_returns [OF ok _ m(1) tm false keeps_refl]) (rule fresh)
    show ?thesis
    proof (cases w)
      case This
      with rel this_loop show ?thesis by (simp add: mark)
    next
      case (ComputedUserset d)
      with rel fresh [OF _ _ m(1) tm false keeps_refl, of a d] show ?thesis
        by (auto simp: mark split: option.split)
    next
      case (TupleToUserset ts d)
      with rel ttu_loop show ?thesis by (auto simp: mark split: option.split)
    next
      case (Union us)
      have "\<exists>res h'. any_child_loop (\<lambda>child. hasEntrypoints n t a c child vis) us False h = Some (res, h')"
        by (rule children_loops_return(1) [OF ok _ vis keeps], rule child) (simp_all add: Union smaller)
      with Union rel show ?thesis by (simp add: mark)
    next
      case (Intersection us)
      have "\<exists>res h'. all_children_loop (\<lambda>child. hasEntrypoints n t a c child vis) us h = Some (res, h')"
        by (rule children_loops_return(2) [OF ok _ vis keeps], rule child) (simp_all add: Intersection smaller)
      with Intersection rel show ?thesis by (simp add: mark)
    next
      case (Difference b s)
      have "\<exists>res h'. all_children_loop (\<lambda>child. hasEntrypoints n t a c child vis) [b, s] h = Some (res, h')"
        by (rule children_loops_return(2) [OF ok _ vis keeps], rule child) (auto simp: Difference)
      with Difference rel show ?thesis by (simp add: mark del: all_children_loop.simps)
    qed (use rel in \<open>simp add: mark\<close>)
  qed
qed simp


end
