(* ===== verification/ParamTypes.thy ===== *)
theory ParamTypes
  imports Storage
begin

text \<open>
  The types of condition parameters (\<^verbatim>\<open>internal/condition/types\<close>): decoding a type reference and
  converting the values of a context to them. Dynamic Go values are the datatype \<open>native\<close>. The
  parsers of the Go standard library for decimal floats, durations, times and addresses are
  arguments, collected in the record \<open>stdlib\<close>; an outer \<open>None\<close> is a panic.
\<close>

section \<open>Floating point\<close>

text \<open>
  A \<^verbatim>\<open>big.Float\<close>: a sign and a mantissa times a power of two, or a signed infinity. \<open>NewFloat\<close> reads the bits of a
  float64 and panics on a NaN.
\<close>

datatype bigFloat = Fin bool nat int | Inf bool

definition NewFloat :: "64 word \<Rightarrow> bigFloat option" where
  "NewFloat w =
     (let n = unat w; neg = (n \<ge> 2 ^ 63); ex = n div 2 ^ 52 mod 2 ^ 11; frac = n mod 2 ^ 52
      in if ex = 2047 then (if frac = 0 then Some (Inf neg) else None)
         else if ex = 0 then Some (Fin neg frac (- 1074))
         else Some (Fin neg (frac + 2 ^ 52) (int ex - 1075)))"

fun IsInt :: "bigFloat \<Rightarrow> bool" where
  "IsInt (Fin neg m e) = (0 \<le> e \<or> m mod 2 ^ nat (- e) = 0)"
| "IsInt (Inf _) = False"

text \<open>The value of an integral float.\<close>

fun int_value :: "bigFloat \<Rightarrow> int" where
  "int_value (Fin neg m e) =
     (if neg then - 1 else 1) * int (if 0 \<le> e then m * 2 ^ nat e else m div 2 ^ nat (- e))"
| "int_value (Inf _) = 0"

text \<open>\<^verbatim>\<open>Float.Int64\<close> on an integral value: values outside the range give the nearest bound.\<close>

definition Int64 :: "bigFloat \<Rightarrow> int" where
  "Int64 x = max (- (2 ^ 63)) (min (2 ^ 63 - 1) (int_value x))"

text \<open>
  \<^verbatim>\<open>Float.Float64\<close>: the bits of the float64 with exactly this value, and \<open>None\<close> when there is none
  (the accuracy is then \<^verbatim>\<open>Above\<close> or \<^verbatim>\<open>Below\<close>).
\<close>

fun odd_part :: "nat \<Rightarrow> int \<Rightarrow> nat \<times> int" where
  "odd_part m e = (if m \<noteq> 0 \<and> even m then odd_part (m div 2) (e + 1) else (m, e))"

fun bit_length :: "nat \<Rightarrow> nat" where
  "bit_length m = (if m = 0 then 0 else Suc (bit_length (m div 2)))"

definition Float64 :: "bigFloat \<Rightarrow> 64 word option" where
  "Float64 x =
     (case x of
        Inf neg \<Rightarrow> Some (of_nat ((if neg then 2 ^ 63 else 0) + 2047 * 2 ^ 52))
      | Fin neg m0 e0 \<Rightarrow>
          let (m, e) = odd_part m0 e0; b = bit_length m; top = e + int b - 1;
              sgn = (if neg then 2 ^ 63 else 0)
          in if m = 0 then Some (of_nat sgn)
             else if b \<le> 53 \<and> - 1022 \<le> top \<and> top \<le> 1023
             then Some (of_nat (sgn + nat (top + 1023) * 2 ^ 52 + (m * 2 ^ (53 - b) - 2 ^ 52)))
             else if - 1074 \<le> e \<and> top < - 1022
             then Some (of_nat (sgn + m * 2 ^ nat (e + 1074)))
             else None)"

section \<open>Dynamic values\<close>

datatype native =
    NNil
  | NBool bool
  | NString string
  | NInt64 int
  | NUint64 int
  | NFloat64 "64 word"
  | NDuration int
  | NTime int
  | NIPAddress "nat list"
  | NMap "(string \<times> native) list"
  | NList "native list"

text \<open>\<^verbatim>\<open>structpb.Value.AsInterface\<close>.\<close>

fun AsInterface :: "pvalue \<Rightarrow> native" where
  "AsInterface KindUnset = NNil"
| "AsInterface NullValue = NNil"
| "AsInterface (NumberValue w) = NFloat64 w"
| "AsInterface (StringValue s) = NString s"
| "AsInterface (BoolValue b) = NBool b"
| "AsInterface (StructValue fs) = NMap (map (\<lambda>(k, v). (k, AsInterface v)) fs)"
| "AsInterface (ListValue vs) = NList (map AsInterface vs)"

record stdlib =
  std_ParseFloat :: "string \<Rightarrow> bigFloat option"
  std_ParseDuration :: "string \<Rightarrow> int option"
  std_ParseTime :: "string \<Rightarrow> int option"
  std_ParseAddr :: "string \<Rightarrow> nat list option"

section \<open>Converters\<close>

type_synonym conversion = "(err, native) result option"

definition bool_converter :: "native \<Rightarrow> conversion" where
  "bool_converter value =
     Some (case value of NBool b \<Rightarrow> Inr (NBool b) | _ \<Rightarrow> Inl (ErrText ''expected type value bool''))"

definition string_converter :: "native \<Rightarrow> conversion" where
  "string_converter value =
     Some (case value of NString s \<Rightarrow> Inr (NString s) | _ \<Rightarrow> Inl (ErrText ''expected type value string''))"

datatype numeric = Int64T | Uint64T | Float64T

definition numericTypeConverterFunc :: "stdlib \<Rightarrow> numeric \<Rightarrow> native \<Rightarrow> conversion" where
  "numericTypeConverterFunc S T value =
     (let number = (\<lambda>x. Some (case T of
             Int64T \<Rightarrow> if \<not> IsInt x then Inl (ErrText ''expected an int value'') else Inr (NInt64 (Int64 x))
           | Uint64T \<Rightarrow> if \<not> IsInt x then Inl (ErrText ''expected a uint value'')
                        else if Int64 x < 0 then Inl (ErrText ''expected a uint value'')
                        else Inr (NUint64 (Int64 x))
           | Float64T \<Rightarrow> (case Float64 x of
                            None \<Rightarrow> Inl (ErrText ''number cannot be represented as a float64'')
                          | Some w \<Rightarrow> Inr (NFloat64 w))))
      in case (value, T) of
           (NInt64 v, Int64T) \<Rightarrow> Some (Inr value)
         | (NUint64 v, Uint64T) \<Rightarrow> Some (Inr value)
         | (NFloat64 w, Float64T) \<Rightarrow> Some (Inr value)
         | (NFloat64 w, _) \<Rightarrow> (case NewFloat w of None \<Rightarrow> None | Some x \<Rightarrow> number x)
         | (NString s, _) \<Rightarrow> (case std_ParseFloat S s of
                                None \<Rightarrow> Some (Inl (ErrText ''found invalid string value''))
                              | Some x \<Rightarrow> number x)
         | _ \<Rightarrow> Some (Inl (ErrText ''expected type value'')))"

definition anyTypeConverterFunc :: "native \<Rightarrow> conversion" where
  "anyTypeConverterFunc value = Some (Inr value)"

definition durationTypeConverterFunc :: "stdlib \<Rightarrow> native \<Rightarrow> conversion" where
  "durationTypeConverterFunc S value =
     Some (case value of
             NString s \<Rightarrow> (case std_ParseDuration S s of
                             None \<Rightarrow> Inl (ErrText ''expected a valid duration string'')
                           | Some d \<Rightarrow> Inr (NDuration d))
           | _ \<Rightarrow> Inl (ErrText ''expected a duration string''))"

definition timestampTypeConverterFunc :: "stdlib \<Rightarrow> native \<Rightarrow> conversion" where
  "timestampTypeConverterFunc S value =
     Some (case value of
             NString s \<Rightarrow> (case std_ParseTime S s of
                             None \<Rightarrow> Inl (ErrText ''expected RFC 3339 formatted timestamp string'')
                           | Some d \<Rightarrow> Inr (NTime d))
           | _ \<Rightarrow> Inl (ErrText ''expected RFC 3339 formatted timestamp string''))"

definition ParseIPAddress :: "stdlib \<Rightarrow> string \<Rightarrow> (err, native) result" where
  "ParseIPAddress S ip =
     (case std_ParseAddr S ip of
        None \<Rightarrow> Inl (ErrText ''unable to parse IP'')
      | Some addr \<Rightarrow> Inr (NIPAddress addr))"

definition ipaddressTypeConverterFunc :: "stdlib \<Rightarrow> native \<Rightarrow> conversion" where
  "ipaddressTypeConverterFunc S value =
     Some (case value of
             NIPAddress a \<Rightarrow> Inr value
           | NString s \<Rightarrow> (case ParseIPAddress S s of
                             Inl _ \<Rightarrow> Inl (ErrText ''expected a well-formed IP address'')
                           | Inr d \<Rightarrow> Inr d)
           | _ \<Rightarrow> Inl (ErrText ''expected an ipaddress string''))"

text \<open>The loop of the generic converters: the first failing item ends it.\<close>

fun convert_items :: "('b \<Rightarrow> string) \<Rightarrow> ('a \<Rightarrow> 'b \<times> conversion) \<Rightarrow> 'a list \<Rightarrow>
    (err, ('b \<times> native) list) result option" where
  "convert_items msg conv [] = Some (Inr [])"
| "convert_items msg conv (x # xs) =
     (case conv x of
        (k, None) \<Rightarrow> None
      | (k, Some (Inl e)) \<Rightarrow> Some (Inl (ErrWrap (msg k) e))
      | (k, Some (Inr v)) \<Rightarrow>
          (case convert_items msg conv xs of
             None \<Rightarrow> None
           | Some (Inl e) \<Rightarrow> Some (Inl e)
           | Some (Inr vs) \<Rightarrow> Some (Inr ((k, v) # vs))))"

section \<open>Parameter types\<close>

text \<open>
  A \<^verbatim>\<open>ParameterType\<close> by its name and its generic types; the converter that the registration
  attached to the name is the branch of \<open>ConvertValue\<close>.
\<close>

datatype ParameterType = PType string "ParameterType list"

definition genericTypeCount :: "string \<rightharpoonup> nat" where
  "genericTypeCount name =
     (if name \<in> {''TYPE_NAME_ANY'', ''TYPE_NAME_BOOL'', ''TYPE_NAME_STRING'', ''TYPE_NAME_INT'',
                 ''TYPE_NAME_UINT'', ''TYPE_NAME_DOUBLE'', ''TYPE_NAME_DURATION'',
                 ''TYPE_NAME_TIMESTAMP'', ''TYPE_NAME_IPADDRESS''} then Some 0
      else if name \<in> {''TYPE_NAME_MAP'', ''TYPE_NAME_LIST''} then Some 1
      else None)"

fun ConvertValue :: "stdlib \<Rightarrow> ParameterType \<Rightarrow> native \<Rightarrow> conversion" where
  "ConvertValue S (PType name gs) value =
     (if name = ''TYPE_NAME_ANY'' then anyTypeConverterFunc value
      else if name = ''TYPE_NAME_BOOL'' then bool_converter value
      else if name = ''TYPE_NAME_STRING'' then string_converter value
      else if name = ''TYPE_NAME_INT'' then numericTypeConverterFunc S Int64T value
      else if name = ''TYPE_NAME_UINT'' then numericTypeConverterFunc S Uint64T value
      else if name = ''TYPE_NAME_DOUBLE'' then numericTypeConverterFunc S Float64T value
      else if name = ''TYPE_NAME_DURATION'' then durationTypeConverterFunc S value
      else if name = ''TYPE_NAME_TIMESTAMP'' then timestampTypeConverterFunc S value
      else if name = ''TYPE_NAME_IPADDRESS'' then ipaddressTypeConverterFunc S value
      else case gs of
             [] \<Rightarrow> None
           | g # _ \<Rightarrow>
               if name = ''TYPE_NAME_MAP''
               then (case value of
                       NMap m \<Rightarrow> map_option (map_sum id NMap)
                         (convert_items (\<lambda>k. ''found an invalid value for key '' @ k)
                            (\<lambda>(k, item). (k, ConvertValue S g item)) m)
                     | _ \<Rightarrow> Some (Inl (ErrText ''map requires a map'')))
               else (case value of
                       NList l \<Rightarrow> map_option (map_sum id (NList \<circ> map snd))
                         (convert_items (\<lambda>i. ''found an invalid list item at index '' @ utoa i)
                            (\<lambda>(i, item). (i, ConvertValue S g item)) (enumerate 0 l))
                     | _ \<Rightarrow> Some (Inl (ErrText ''list requires a list''))))"

fun DecodeParameterType :: "param_type \<Rightarrow> (err, ParameterType) result"
  and decode_generics :: "param_type list \<Rightarrow> (err, ParameterType list) result" where
  "DecodeParameterType (ParamType name gs) =
     (case genericTypeCount name of
        None \<Rightarrow> Inl (ErrText ''unknown condition parameter type'')
      | Some n \<Rightarrow>
          if length gs \<noteq> n then Inl (ErrText ''condition parameter type requires generic types'')
          else (case decode_generics gs of Inl e \<Rightarrow> Inl e | Inr gs' \<Rightarrow> Inr (PType name gs')))"
| "decode_generics [] = Inr []"
| "decode_generics (g # gs) =
     (case DecodeParameterType g of
        Inl e \<Rightarrow> Inl e
      | Inr g' \<Rightarrow> (case decode_generics gs of Inl e \<Rightarrow> Inl e | Inr gs' \<Rightarrow> Inr (g' # gs')))"


text \<open>
  A number given for a parameter of type \<^verbatim>\<open>uint\<close> is accepted when it is integral and not
  negative, but one of \<open>2 ^ 63\<close> or more becomes \<open>2 ^ 63 - 1\<close> instead of being kept or refused: the
  value is read with \<^verbatim>\<open>Int64\<close> and its accuracy is ignored.
\<close>

theorem uint_parameter_saturates:
  assumes "NewFloat w = Some x" and "IsInt x"
  shows "ConvertValue S (PType ''TYPE_NAME_UINT'' gs) (NFloat64 w) =
           Some (if int_value x < 0 then Inl (ErrText ''expected a uint value'')
                 else Inr (NUint64 (min (2 ^ 63 - 1) (int_value x))))"
  using assms by (auto simp: numericTypeConverterFunc_def Let_def Int64_def)

theorem uint_parameter_saturates_witness:
  "ConvertValue \<lparr>std_ParseFloat = (\<lambda>_. None), std_ParseDuration = (\<lambda>_. None), std_ParseTime = (\<lambda>_. None),
      std_ParseAddr = (\<lambda>_. None)\<rparr> (PType ''TYPE_NAME_UINT'' []) (NFloat64 0x43F0000000000000) =
     Some (Inr (NUint64 (2 ^ 63 - 1))) \<and>
   NewFloat 0x43F0000000000000 = Some (Fin False (2 ^ 52) 12)"
proof -
  have f: "NewFloat 0x43F0000000000000 = Some (Fin False (2 ^ 52) 12)"
    by (simp add: NewFloat_def Let_def)
  show ?thesis
    using uint_parameter_saturates [OF f, of "\<lparr>std_ParseFloat = (\<lambda>_. None), std_ParseDuration = (\<lambda>_. None),
      std_ParseTime = (\<lambda>_. None), std_ParseAddr = (\<lambda>_. None)\<rparr>" "[]"] f
    by (simp del: ConvertValue.simps)
qed

end
