(* ===== verification/Conditions.thy ===== *)
theory Conditions
  imports TypeSystem ParamTypes
begin

text \<open>
  Conditions on tuples (\<^verbatim>\<open>internal/condition/condition.go\<close>, \<^verbatim>\<open>internal/condition/eval/eval.go\<close>). The
  expression language is package \<^verbatim>\<open>cel-go\<close>, which is not part of the repository: the record \<open>CEL\<close>
  holds the functions of it that the code calls, over an opaque type of its objects. An outer
  \<open>None\<close> is a panic.
\<close>

section \<open>Evaluable conditions\<close>

record 'c CEL =
  cel_Extend :: "(string \<times> ParameterType) list \<Rightarrow> (err, 'c) result"
  cel_CompileSource :: "'c \<Rightarrow> string \<Rightarrow> string \<Rightarrow> (err, 'c) result"
  cel_Program :: "'c \<Rightarrow> 'c \<Rightarrow> (err, 'c) result"
  cel_OutputIsBool :: "'c \<Rightarrow> bool"
  cel_PartialVars :: "'c option \<Rightarrow> (string \<times> native) list \<Rightarrow> (err, 'c) result option"
  cel_ResolveName :: "'c \<Rightarrow> string \<Rightarrow> bool"
  cel_ContextEval :: "'c \<Rightarrow> ctx \<Rightarrow> 'c \<Rightarrow> (err, 'c \<times> nat) result"
  cel_IsUnknown :: "'c \<Rightarrow> bool"
  cel_ToBool :: "'c \<Rightarrow> (err, bool) result"

record EvaluationResult =
  er_Cost :: nat
  er_ConditionMet :: bool
  er_MissingParameters :: "string list"

record 'c EvaluableCondition =
  ec_Condition :: condition
  ec_celEnv :: "'c option"
  ec_celProgram :: "'c option"
  ec_compileOnce :: bool

definition NewUncompiled :: "condition \<Rightarrow> 'c EvaluableCondition" where
  "NewUncompiled c = \<lparr>ec_Condition = c, ec_celEnv = None, ec_celProgram = None, ec_compileOnce = False\<rparr>"

fun decode_parameters :: "string \<Rightarrow> (string \<times> param_type) list \<Rightarrow>
    (err, (string \<times> ParameterType) list) result" where
  "decode_parameters name [] = Inr []"
| "decode_parameters name ((paramName, ref) # ps) =
     (case DecodeParameterType ref of
        Inl e \<Rightarrow> Inl (CompilationError name (ErrText (''failed to decode parameter type for parameter '' @ paramName)))
      | Inr pt \<Rightarrow> (case decode_parameters name ps of
                     Inl e \<Rightarrow> Inl e
                   | Inr pts \<Rightarrow> Inr ((paramName, pt) # pts)))"

definition compile :: "'c CEL \<Rightarrow> 'c EvaluableCondition \<Rightarrow> err option \<times> 'c EvaluableCondition" where
  "compile C e =
     (let c = ec_Condition e; name = c_name c
      in case decode_parameters name (c_parameters c) of
           Inl er \<Rightarrow> (Some er, e)
         | Inr conditionParamTypes \<Rightarrow>
             (case cel_Extend C conditionParamTypes of
                Inl er \<Rightarrow> (Some (CompilationError name er), e)
              | Inr env \<Rightarrow>
                  (case cel_CompileSource C env (c_expression c) name of
                     Inl er \<Rightarrow> (Some (CompilationError name er), e)
                   | Inr ast \<Rightarrow>
                       (case cel_Program C env ast of
                          Inl er \<Rightarrow> (Some (CompilationError name (ErrWrap ''condition expression construction'' er)), e)
                        | Inr prg \<Rightarrow>
                            if \<not> cel_OutputIsBool C ast
                            then (Some (CompilationError name (ErrText ''expected a bool condition expression output'')), e)
                            else (None, e\<lparr>ec_celEnv := Some env, ec_celProgram := Some prg\<rparr>)))))"

definition Compile :: "'c CEL \<Rightarrow> 'c EvaluableCondition \<Rightarrow> err option \<times> 'c EvaluableCondition" where
  "Compile C e =
     (if ec_compileOnce e then (None, e)
      else let (er, e') = compile C e in (er, e'\<lparr>ec_compileOnce := True\<rparr>))"

fun cast_parameters :: "stdlib \<Rightarrow> string \<Rightarrow> pstruct \<Rightarrow> (string \<times> param_type) list \<Rightarrow>
    (err, (string \<times> native) list) result option" where
  "cast_parameters S name contextMap [] = Some (Inr [])"
| "cast_parameters S name contextMap ((parameterKey, ref) # ps) =
     (case map_of contextMap parameterKey of
        None \<Rightarrow> cast_parameters S name contextMap ps
      | Some contextValue \<Rightarrow>
          (case DecodeParameterType ref of
             Inl e \<Rightarrow> Some (Inl (ParameterTypeError name (ErrText ''failed to decode condition parameter type'')))
           | Inr varType \<Rightarrow>
               (case ConvertValue S varType (AsInterface contextValue) of
                  None \<Rightarrow> None
                | Some (Inl e) \<Rightarrow>
                    Some (Inl (ParameterTypeError name
                      (ErrWrap (''failed to convert context parameter '' @ parameterKey) e)))
                | Some (Inr v) \<Rightarrow>
                    (case cast_parameters S name contextMap ps of
                       None \<Rightarrow> None
                     | Some (Inl e) \<Rightarrow> Some (Inl e)
                     | Some (Inr vs) \<Rightarrow> Some (Inr ((parameterKey, v) # vs))))))"

definition CastContextToTypedParameters ::
  "stdlib \<Rightarrow> condition \<Rightarrow> pstruct \<Rightarrow> (err, (string \<times> native) list) result option" where
  "CastContextToTypedParameters S c contextMap =
     (if contextMap = [] then Some (Inr [])
      else if c_parameters c = []
      then Some (Inl (ParameterTypeError (c_name c) (ErrText ''no parameters defined for the condition'')))
      else cast_parameters S (c_name c) contextMap (c_parameters c))"

text \<open>\<^verbatim>\<open>maps.Copy\<close>.\<close>

definition copy_fields :: "pstruct \<Rightarrow> pstruct \<Rightarrow> pstruct" where
  "copy_fields dst src = src @ filter (\<lambda>(k, _). k \<notin> fst ` set src) dst"

definition Evaluate :: "stdlib \<Rightarrow> 'c CEL \<Rightarrow> ctx \<Rightarrow> 'c EvaluableCondition \<Rightarrow> pstruct list \<Rightarrow>
    ((err, EvaluationResult) result \<times> 'c EvaluableCondition) option" where
  "Evaluate S C cx e0 contextMaps =
     (let name = c_name (ec_Condition e0); (er, e) = Compile C e0
      in case er of
           Some er \<Rightarrow> Some (Inl (EvaluationError name er), e)
         | None \<Rightarrow>
             (case contextMaps of
                [] \<Rightarrow> None
              | contextFields # rest \<Rightarrow>
                  (case CastContextToTypedParameters S (ec_Condition e) (foldl copy_fields contextFields rest) of
                     None \<Rightarrow> None
                   | Some (Inl er) \<Rightarrow> Some (Inl (EvaluationError name er), e)
                   | Some (Inr typedParams) \<Rightarrow>
                       (case cel_PartialVars C (ec_celEnv e) typedParams of
                          None \<Rightarrow> None
                        | Some (Inl er) \<Rightarrow>
                            Some (Inl (EvaluationError name (ErrText ''failed to construct condition partial vars'')), e)
                        | Some (Inr activation) \<Rightarrow>
                            let missingParameters =
                              filter (\<lambda>key. \<not> cel_ResolveName C activation key) (map fst (c_parameters (ec_Condition e)))
                            in case ec_celProgram e of
                                 None \<Rightarrow> None
                               | Some prg \<Rightarrow>
                                   (case cel_ContextEval C prg cx activation of
                                      Inl er \<Rightarrow>
                                        Some (Inl (EvaluationError name (ErrText ''failed to evaluate condition expression'')), e)
                                    | Inr (out, cost) \<Rightarrow>
                                        if cel_IsUnknown C out
                                        then Some (Inr \<lparr>er_Cost = cost, er_ConditionMet = False,
                                                        er_MissingParameters = missingParameters\<rparr>, e)
                                        else (case cel_ToBool C out of
                                                Inl er \<Rightarrow>
                                                  Some (Inl (EvaluationError name (ErrText ''failed to convert condition output to bool'')), e)
                                              | Inr conditionMet \<Rightarrow>
                                                  Some (Inr \<lparr>er_Cost = cost, er_ConditionMet = conditionMet,
                                                             er_MissingParameters = missingParameters\<rparr>, e)))))))"

section \<open>Conditions of tuples\<close>

text \<open>
  The conditions of a type system are compiled when it is validated; \<open>Evaluate_compiled\<close> below shows
  that evaluating a fresh copy gives the same result.
\<close>

definition EvaluateTupleCondition :: "stdlib \<Rightarrow> 'c CEL \<Rightarrow> ctx \<Rightarrow> tuple_key \<Rightarrow> TypeSystem \<Rightarrow>
    pstruct option \<Rightarrow> (err, EvaluationResult) result option" where
  "EvaluateTupleCondition S C cx tupleKey typesys context =
     (let tupleCondition = tk_condition tupleKey; conditionName = GetConditionName tupleCondition
      in if conditionName = []
         then Some (Inr \<lparr>er_Cost = 0, er_ConditionMet = True, er_MissingParameters = []\<rparr>)
         else (case GetCondition typesys conditionName of
                 None \<Rightarrow> Some (Inl (EvaluationError conditionName (ErrText ''condition was not found'')))
               | Some c \<Rightarrow>
                   (let contextFields = (case context of None \<Rightarrow> [[]] | Some fs \<Rightarrow> [fs]);
                        tupleFields = (case GetConditionContext tupleCondition of
                                         None \<Rightarrow> [] | Some fs \<Rightarrow> [fs])
                    in map_option fst
                         (Evaluate S C cx (NewUncompiled c) (contextFields @ tupleFields)))))"

definition BuildTupleKeyConditionFilter :: "stdlib \<Rightarrow> 'c CEL \<Rightarrow> ctx \<Rightarrow> pstruct option \<Rightarrow> TypeSystem \<Rightarrow>
    tuple_key \<Rightarrow> (err, bool) result option" where
  "BuildTupleKeyConditionFilter S C cx reqCtx typesys t =
     (case EvaluateTupleCondition S C cx t typesys reqCtx of
        None \<Rightarrow> None
      | Some (Inl e) \<Rightarrow> Some (Inl e)
      | Some (Inr condEvalResult) \<Rightarrow>
          if er_MissingParameters condEvalResult \<noteq> []
          then Some (Inl (EvaluationError (GetConditionName (tk_condition t))
                 (ErrText (''tuple '' @ TupleKeyToString t @ '' is missing context parameters''))))
          else Some (Inr (er_ConditionMet condEvalResult)))"
section \<open>Lemmas\<close>

lemma compile_Condition [simp]: "ec_Condition (snd (compile C e)) = ec_Condition e"
  by (simp add: compile_def Let_def split: sum.split)

lemma Compile_Condition [simp]: "ec_Condition (snd (Compile C e)) = ec_Condition e"
  by (simp add: Compile_def Let_def split_beta)

lemma Compile_once:
  "Compile C (snd (Compile C e)) = (None, snd (Compile C e))"
  by (simp add: Compile_def Let_def split_beta)

text \<open>Once a condition has compiled, evaluating it again gives what the first evaluation gave.\<close>

lemma Evaluate_compiled:
  assumes "fst (Compile C e) = None"
  shows "Evaluate S C cx (snd (Compile C e)) maps = Evaluate S C cx e maps"
  using assms by (simp add: Evaluate_def Compile_once split_beta Let_def)

lemma map_of_copy_fields [simp]:
  "map_of (copy_fields dst src) k = (case map_of src k of None \<Rightarrow> map_of dst k | Some v \<Rightarrow> Some v)"
proof -
  have "map_of (filter (\<lambda>(k, _). k \<notin> fst ` set src) dst) k = map_of dst k" if "map_of src k = None"
    using that by (induction dst) (auto simp: map_of_eq_None_iff rev_image_eqI)
  then show ?thesis
    by (auto simp: copy_fields_def map_add_def split: option.split)
qed

lemma cast_parameters_cong:
  assumes "\<forall>(k, ref) \<in> set ps. map_of m k = map_of m' k"
  shows "cast_parameters S name m ps = cast_parameters S name m' ps"
  using assms by (induction ps) (auto split: option.split sum.split)

lemma CastContext_cong:
  assumes "c_parameters c \<noteq> []" and "\<forall>k\<in>fst ` set (c_parameters c). map_of m k = map_of m' k"
  shows "CastContextToTypedParameters S c m = CastContextToTypedParameters S c m'"
proof -
  have empty: "cast_parameters S name [] ps = Some (Inr [])" for name ps
    by (induction ps) auto
  have "cast_parameters S (c_name c) m (c_parameters c) = cast_parameters S (c_name c) m' (c_parameters c)"
    using assms(2) by (intro cast_parameters_cong) force
  then show ?thesis
    using assms(1) empty by (auto simp: CastContextToTypedParameters_def)
qed

lemma Evaluate_cong:
  assumes "c_parameters (ec_Condition e) \<noteq> []"
    and "\<forall>k\<in>fst ` set (c_parameters (ec_Condition e)).
           map_of (foldl copy_fields m ms) k = map_of (foldl copy_fields m' ms') k"
  shows "Evaluate S C cx e (m # ms) = Evaluate S C cx e (m' # ms')"
proof -
  have "CastContextToTypedParameters S (ec_Condition e) (foldl copy_fields m ms) =
      CastContextToTypedParameters S (ec_Condition e) (foldl copy_fields m' ms')"
    using assms by (rule CastContext_cong)
  then have same: "CastContextToTypedParameters S (ec_Condition (snd (Compile C e))) (foldl copy_fields m ms) =
      CastContextToTypedParameters S (ec_Condition (snd (Compile C e))) (foldl copy_fields m' ms')"
    by simp
  show ?thesis
    unfolding Evaluate_def split_beta Let_def list.case same by (rule refl)
qed

text \<open>
  C31: the context stored with a tuple takes precedence over the context of a request. Whatever a
  request supplies for a parameter that the tuple fixes, and for names that are no parameters of
  the condition, has no influence on the evaluation of the condition.
\<close>

theorem tuple_context_wins:
  assumes "tk_condition tk = Some \<lparr>cond_name = name, cond_context = Some stored\<rparr>"
    and "GetCondition t name = Some c" and "c_parameters c \<noteq> []"
    and "\<forall>k \<in> fst ` set (c_parameters c) - fst ` set stored. map_of request k = map_of request' k"
  shows "EvaluateTupleCondition S C cx tk t (Some request) = EvaluateTupleCondition S C cx tk t (Some request')"
proof -
  have "map_of (copy_fields request stored) k = map_of (copy_fields request' stored) k"
    if "k \<in> fst ` set (c_parameters c)" for k
  proof (cases "map_of stored k")
    case None
    then have "k \<notin> fst ` set stored" by (simp add: map_of_eq_None_iff)
    with assms(4) that None show ?thesis by simp
  qed simp
  then show ?thesis
    using assms(1-3) Evaluate_cong [of "NewUncompiled c" request "[stored]" request' "[stored]" S C cx]
    by (simp add: EvaluateTupleCondition_def GetConditionName_def GetConditionContext_def NewUncompiled_def)
qed

text \<open>An expression language whose only expression reads the parameter \<^verbatim>\<open>x\<close>.\<close>

definition example_cel :: "(string \<times> native) list CEL" where
  "example_cel =
     \<lparr>cel_Extend = (\<lambda>_. Inr []), cel_CompileSource = (\<lambda>_ _ _. Inr []), cel_Program = (\<lambda>_ _. Inr []),
      cel_OutputIsBool = (\<lambda>_. True), cel_PartialVars = (\<lambda>_ ps. Some (Inr ps)),
      cel_ResolveName = (\<lambda>act k. map_of act k \<noteq> None), cel_ContextEval = (\<lambda>_ _ act. Inr (act, 0)),
      cel_IsUnknown = (\<lambda>out. map_of out ''x'' = None),
      cel_ToBool = (\<lambda>out. Inr (map_of out ''x'' = Some (NBool True)))\<rparr>"

definition example_stdlib :: stdlib where
  "example_stdlib = \<lparr>std_ParseFloat = (\<lambda>_. None), std_ParseDuration = (\<lambda>_. None),
     std_ParseTime = (\<lambda>_. None), std_ParseAddr = (\<lambda>_. None)\<rparr>"

definition example_condition :: condition where
  "example_condition =
     \<lparr>c_name = ''c'', c_expression = ''x'', c_parameters = [(''x'', ParamType ''TYPE_NAME_BOOL'' [])]\<rparr>"

lemma EvaluateTupleCondition_example:
  "EvaluateTupleCondition example_stdlib example_cel Live
     (NewTupleKeyWithCondition ''doc:1'' ''viewer'' ''user:a'' ''c'' (Some [(''x'', BoolValue False)]))
     (example_types\<lparr>ts_conditions := [(''c'', example_condition)]\<rparr>) (Some []) =
   Some (Inr \<lparr>er_Cost = 0, er_ConditionMet = False, er_MissingParameters = []\<rparr>)"
  by (simp add: EvaluateTupleCondition_def NewTupleKeyWithCondition_def NewRelationshipCondition_def
      GetConditionName_def GetConditionContext_def GetCondition_def example_condition_def Evaluate_def
      NewUncompiled_def Compile_def compile_def genericTypeCount_def example_cel_def
      CastContextToTypedParameters_def copy_fields_def bool_converter_def)

theorem tuple_context_wins_witness:
  "EvaluateTupleCondition example_stdlib example_cel Live
     (NewTupleKeyWithCondition ''doc:1'' ''viewer'' ''user:a'' ''c'' (Some [(''x'', BoolValue False)]))
     (example_types\<lparr>ts_conditions := [(''c'', example_condition)]\<rparr>)
     (Some [(''x'', BoolValue True), (''y'', NullValue)]) =
   Some (Inr \<lparr>er_Cost = 0, er_ConditionMet = False, er_MissingParameters = []\<rparr>)"
proof -
  have "EvaluateTupleCondition example_stdlib example_cel Live
     (NewTupleKeyWithCondition ''doc:1'' ''viewer'' ''user:a'' ''c'' (Some [(''x'', BoolValue False)]))
     (example_types\<lparr>ts_conditions := [(''c'', example_condition)]\<rparr>)
     (Some [(''x'', BoolValue True), (''y'', NullValue)]) =
   EvaluateTupleCondition example_stdlib example_cel Live
     (NewTupleKeyWithCondition ''doc:1'' ''viewer'' ''user:a'' ''c'' (Some [(''x'', BoolValue False)]))
     (example_types\<lparr>ts_conditions := [(''c'', example_condition)]\<rparr>) (Some [])"
    by (rule tuple_context_wins [where name = "''c''" and stored = "[(''x'', BoolValue False)]" and c = example_condition])
       (simp_all add: NewTupleKeyWithCondition_def NewRelationshipCondition_def GetCondition_def example_condition_def)
  then show ?thesis using EvaluateTupleCondition_example by simp
qed

end
