(* ===== verification/Validation.thy ===== *)
theory Validation
  imports Conditions
begin

text \<open>
  Validation of tuples against a model (\<^verbatim>\<open>internal/validation/validation.go\<close>). A function that
  returns an \<^verbatim>\<open>error\<close> gives an \<open>err option\<close>, with \<open>None\<close> for nil; where the conversion of a condition
  context may panic there is an option around it, whose \<open>None\<close> is the panic.
\<close>

section \<open>Users, objects and relations\<close>

definition ValidateUser :: "TypeSystem \<Rightarrow> string \<Rightarrow> err option" where
  "ValidateUser typesys user =
     (let isValidObject = IsValidObject user; isValidUserset = IsObjectRelation user;
          (userObject, userRelation) = SplitObjectRelation user; userObjectType = GetType userObject;
          supported = IsSchemaVersionSupported (ts_schemaVersion typesys)
      in if \<not> IsValidUser user then Some (ErrText ''the user field is malformed'')
         else if supported \<and> \<not> isValidObject \<and> \<not> isValidUserset
         then Some (ErrText ''the user field must be an object or an object#relation or a typed wildcard'')
         else if supported \<and> GetTypeDefinition typesys userObjectType = None
         then Some (TypeNotFoundError userObjectType)
         else if isValidUserset
         then (case TypeSystem.GetRelation typesys userObjectType userRelation of
                 Inr _ \<Rightarrow> None
               | Inl e \<Rightarrow>
                   if errors_Is e ErrObjectTypeUndefined then Some (TypeNotFoundError userObjectType)
                   else if errors_Is e ErrRelationUndefined
                   then Some (RelationNotFoundError None userRelation userObjectType)
                   else None)
         else None)"

definition ValidateObject :: "TypeSystem \<Rightarrow> tuple_key \<Rightarrow> err option" where
  "ValidateObject typesys tk =
     (let obj = tk_object tk; (objectType, i) = SplitObject obj
      in if \<not> IsValidObject obj then Some (ErrText ''invalid object field format'')
         else if i = Wildcard then Some (ErrText ''the object field cannot reference a typed wildcard'')
         else if GetTypeDefinition typesys objectType = None then Some (TypeNotFoundError objectType)
         else None)"

definition ValidateRelation :: "TypeSystem \<Rightarrow> tuple_key \<Rightarrow> err option" where
  "ValidateRelation typesys tk =
     (let obj = tk_object tk; rel = tk_relation tk; objectType = GetType obj
      in if \<not> IsValidRelation rel then Some (ErrText ''the relation field is malformed'')
         else (case TypeSystem.GetRelation typesys objectType rel of
                 Inr _ \<Rightarrow> None
               | Inl e \<Rightarrow>
                   if errors_Is e ErrObjectTypeUndefined then Some (TypeNotFoundError objectType)
                   else if errors_Is e ErrRelationUndefined
                   then Some (RelationNotFoundError None rel objectType)
                   else Some e))"

definition ValidateUserObjectRelation :: "TypeSystem \<Rightarrow> tuple_key \<Rightarrow> err option" where
  "ValidateUserObjectRelation typesys tk =
     (case ValidateUser typesys (tk_user tk) of
        Some e \<Rightarrow> Some e
      | None \<Rightarrow> (case ValidateObject typesys tk of
                   Some e \<Rightarrow> Some e
                 | None \<Rightarrow> ValidateRelation typesys tk))"

section \<open>Restrictions of the model\<close>

definition validateTuplesetRestrictions :: "TypeSystem \<Rightarrow> tuple_key \<Rightarrow> err option" where
  "validateTuplesetRestrictions typesys tk =
     (let objectType = GetType (tk_object tk); rel = tk_relation tk; user = tk_user tk
      in case IsTuplesetRelation typesys objectType rel of
           Inl e \<Rightarrow> Some e
         | Inr isTupleset \<Rightarrow>
             if \<not> isTupleset then None
             else (case TypeSystem.GetRelation typesys objectType rel of
                     Inl e \<Rightarrow> Some e
                   | Inr r \<Rightarrow>
                       if rel_rewrite r \<noteq> Unset \<and> rel_rewrite r \<noteq> This
                       then Some (ErrText ''unexpected rewrite encountered with tupleset relation'')
                       else if IsWildcard user
                       then Some (ErrText ''unexpected wildcard relationship with tupleset relation'')
                       else if \<not> IsValidObject user
                       then Some (ErrText ''unexpected user with tupleset relation'')
                       else None))"

definition validateTypeRestrictions :: "TypeSystem \<Rightarrow> tuple_key \<Rightarrow> err option" where
  "validateTypeRestrictions typesys tk =
     (let objectType = GetType (tk_object tk); user = tk_user tk;
          userType = fst (SplitObject user); userRel = snd (SplitObjectRelation user)
      in case GetTypeDefinition typesys objectType of
           None \<Rightarrow> Some (ErrText ''type does not exist in the authorization model'')
         | Some typeDefinitionForObject \<Rightarrow>
             (let relationsForObject = (case td_metadata typeDefinitionForObject of None \<Rightarrow> [] | Some m \<Rightarrow> m);
                  restrictions = (case map_of relationsForObject (tk_relation tk) of
                                    None \<Rightarrow> [] | Some rm \<Rightarrow> directly_related_user_types rm)
              in if IsObjectRelation user
                 then if \<exists>ti\<in>set restrictions. rr_type ti = userType \<and> rr_GetRelation ti = userRel
                      then None else Some (ErrText ''not an allowed type restriction'')
                 else if IsTypedWildcard user
                 then if \<exists>ti\<in>set restrictions. rr_type ti = userType \<and> rr_GetWildcard ti
                      then None else Some (ErrText ''the typed wildcard is not an allowed type restriction'')
                 else if \<exists>ti\<in>set restrictions. rr_type ti = userType \<and> \<not> rr_GetWildcard ti \<and> rr_GetRelation ti = []
                      then None else Some (ErrText ''type is not an allowed type restriction'')))"

definition validateCondition :: "stdlib \<Rightarrow> TypeSystem \<Rightarrow> tuple_key \<Rightarrow> err option option" where
  "validateCondition S typesys tk =
     (let objectType = GetType (tk_object tk); userType = GetType (tk_user tk);
          userRelation = Tuples.GetRelation (tk_user tk);
          invalid = (\<lambda>m. Some (Some (InvalidConditionalTupleError (ErrText m) tk)))
      in case GetDirectlyRelatedUserTypes typesys objectType (tk_relation tk) of
           Inl e \<Rightarrow> Some (Some e)
         | Inr typeRestrictions \<Rightarrow>
             (case tk_condition tk of
                None \<Rightarrow>
                  if \<exists>ref\<in>set typeRestrictions.
                       \<not> rr_condition ref \<noteq> [] \<and> \<not> rr_type ref \<noteq> userType \<and>
                       \<not> (rr_ref ref \<noteq> NoRef \<and>
                          (rr_GetRelation ref \<noteq> [] \<and> rr_GetRelation ref \<noteq> userRelation \<or>
                           rr_GetWildcard ref \<and> \<not> IsTypedWildcard (tk_user tk)))
                  then Some None
                  else invalid ''condition is missing''
              | Some cond \<Rightarrow>
                  (case GetCondition typesys (cond_name cond) of
                     None \<Rightarrow> invalid ''undefined condition''
                   | Some c \<Rightarrow>
                       if \<not> (\<exists>ref\<in>set typeRestrictions. rr_type ref = userType \<and> rr_condition ref = cond_name cond)
                       then invalid ''invalid condition for type restriction''
                       else let contextFieldMap = (case cond_context cond of None \<Rightarrow> [] | Some fs \<Rightarrow> fs)
                            in case CastContextToTypedParameters S c contextFieldMap of
                                 None \<Rightarrow> None
                               | Some (Inl e) \<Rightarrow> Some (Some (InvalidConditionalTupleError e tk))
                               | Some (Inr typedParams) \<Rightarrow>
                                   (case List.find (\<lambda>(key, _). map_of typedParams key = None) contextFieldMap of
                                      None \<Rightarrow> Some None
                                    | Some (key, _) \<Rightarrow> invalid (''found invalid context parameter: '' @ key)))))"

definition ValidateTupleForRead :: "stdlib \<Rightarrow> TypeSystem \<Rightarrow> tuple_key \<Rightarrow> err option option" where
  "ValidateTupleForRead S typesys tk =
     (case validateTuplesetRestrictions typesys tk of
        Some e \<Rightarrow> Some (Some (InvalidTupleError e tk))
      | None \<Rightarrow>
          (case HasTypeInfo typesys (GetType (tk_object tk)) (tk_relation tk) of
             Inl e \<Rightarrow> Some (Some e)
           | Inr hasTypeInfo \<Rightarrow>
               if hasTypeInfo
               then (case validateTypeRestrictions typesys tk of
                       Some e \<Rightarrow> Some (Some (InvalidTupleError e tk))
                     | None \<Rightarrow> validateCondition S typesys tk)
               else Some None))"

definition ValidateTupleForWrite :: "stdlib \<Rightarrow> TypeSystem \<Rightarrow> tuple_key \<Rightarrow> err option option" where
  "ValidateTupleForWrite S typesys tk =
     (case ValidateUserObjectRelation typesys tk of
        Some e \<Rightarrow> Some (Some (InvalidTupleError e tk))
      | None \<Rightarrow> ValidateTupleForRead S typesys tk)"

definition FilterInvalidTuples :: "stdlib \<Rightarrow> TypeSystem \<Rightarrow> tuple_key \<Rightarrow> bool option" where
  "FilterInvalidTuples S typesys tupleKey = map_option (\<lambda>e. e = None) (ValidateTupleForRead S typesys tupleKey)"
section \<open>Restrictions that admit a user\<close>

text \<open>
  What a type restriction means: it admits the users of its type and of its shape (object, typed
  wildcard, userset). A tuple is covered by a restriction that admits its user and asks for exactly
  the condition the tuple carries.
\<close>

definition admits :: "relation_reference \<Rightarrow> string \<Rightarrow> bool" where
  "admits ref user \<longleftrightarrow> rr_type ref = GetType user \<and>
     (if IsObjectRelation user then rr_ref ref = RelationRef (Tuples.GetRelation user)
      else if IsTypedWildcard user then rr_ref ref = WildcardRef
      else rr_ref ref = NoRef)"

definition covers :: "relation_reference \<Rightarrow> tuple_key \<Rightarrow> bool" where
  "covers ref tk \<longleftrightarrow> admits ref (tk_user tk) \<and> rr_condition ref = GetConditionName (tk_condition tk)"

text \<open>The type restrictions of a relation in the metadata of its type definition.\<close>

definition restrictions_of :: "type_definition \<Rightarrow> string \<Rightarrow> relation_reference list" where
  "restrictions_of td rel =
     (case td_metadata td of
        None \<Rightarrow> []
      | Some md \<Rightarrow> (case map_of md rel of None \<Rightarrow> [] | Some rm \<Rightarrow> directly_related_user_types rm))"

text \<open>
  A type system is consistent when its indices come from one list of type definitions, and no
  restriction names an empty relation; both hold for what \<open>NewTypeSystem\<close> builds from a model with
  the latter property.
\<close>

definition consistent :: "TypeSystem \<Rightarrow> bool" where
  "consistent t \<longleftrightarrow>
     (\<forall>ot td. ts_typeDefinitions t ot = Some td \<longrightarrow>
        (\<forall>rel r. map_of (relations_of t ot) rel = Some r \<longrightarrow> rel_types r = restrictions_of td rel) \<and>
        (\<forall>rel. \<forall>ref\<in>set (restrictions_of td rel). rr_ref ref \<noteq> RelationRef []))"

lemma map_of_indexed:
  "map_of (map (\<lambda>td. (key td, f td)) tds) k = map_option f (map_of (map (\<lambda>td. (key td, td)) tds) k)"
  by (induction tds) auto

lemma NewTypeSystem_fields:
  assumes "NewTypeSystem mk rv wt model = Inr t"
  shows "ts_typeDefinitions t = map_of (map (\<lambda>td. (td_type td, td)) (rev (am_type_definitions model)))"
    and "ts_relations t = map_of (map (\<lambda>td. (td_type td,
           map (\<lambda>(r, rewrite). (r, new_relation td r rewrite)) (td_relations td))) (rev (am_type_definitions model)))"
proof -
  obtain g where g: "mk model = Inr g"
    using assms by (cases "mk model") (simp_all add: NewTypeSystem_def)
  have "\<exists>g'. rv g = Inr g'" if "\<not> ag_ListObjectsDirection g"
    using assms g that by (cases "rv g") (simp_all add: NewTypeSystem_def Let_def)
  then consider "ag_ListObjectsDirection g" | g' where "\<not> ag_ListObjectsDirection g" "rv g = Inr g'"
    by blast
  then have "ts_typeDefinitions t = map_of (map (\<lambda>td. (td_type td, td)) (rev (am_type_definitions model))) \<and>
      ts_relations t = map_of (map (\<lambda>td. (td_type td,
        map (\<lambda>(r, rewrite). (r, new_relation td r rewrite)) (td_relations td))) (rev (am_type_definitions model)))"
  proof cases
    case 1
    show ?thesis using assms unfolding NewTypeSystem_def Let_def g sum.case if_P [OF 1] sum.inject
      by (elim subst) (simp only: TypeSystem.select_convs)
  next
    case 2
    show ?thesis using assms unfolding NewTypeSystem_def Let_def g 2 sum.case if_not_P [OF 2(1)] sum.inject
      by (elim subst) (simp only: TypeSystem.select_convs)
  qed
  then show "ts_typeDefinitions t = map_of (map (\<lambda>td. (td_type td, td)) (rev (am_type_definitions model)))"
    and "ts_relations t = map_of (map (\<lambda>td. (td_type td,
           map (\<lambda>(r, rewrite). (r, new_relation td r rewrite)) (td_relations td))) (rev (am_type_definitions model)))"
    by simp_all
qed

lemma NewTypeSystem_consistent:
  assumes "NewTypeSystem mk rv wt model = Inr t"
    and "\<forall>td\<in>set (am_type_definitions model). \<forall>rel. \<forall>ref\<in>set (restrictions_of td rel). rr_ref ref \<noteq> RelationRef []"
  shows "consistent t"
proof -
  note t = NewTypeSystem_fields [OF assms(1)]
  have "rel_types r = restrictions_of td rel"
    if "ts_typeDefinitions t ot = Some td" "map_of (relations_of t ot) rel = Some r" for ot td rel r
  proof -
    have "relations_of t ot = map (\<lambda>(r, rewrite). (r, new_relation td r rewrite)) (td_relations td)"
      using that(1) map_of_indexed [of td_type "\<lambda>td. map (\<lambda>(r, rewrite). (r, new_relation td r rewrite)) (td_relations td)"
          "rev (am_type_definitions model)" ot]
      unfolding t by (simp add: relations_of_def t(2))
    with that(2) have "(rel, r) \<in> set (map (\<lambda>(r, rewrite). (r, new_relation td r rewrite)) (td_relations td))"
      by (metis map_of_SomeD)
    then show ?thesis
      by (auto simp: new_relation_def restrictions_of_def split: option.split)
  qed
  moreover have "td \<in> set (am_type_definitions model)" if "ts_typeDefinitions t ot = Some td" for ot td
    using that by (auto simp: t dest: map_of_SomeD)
  ultimately show ?thesis
    using assms(2) unfolding consistent_def by blast
qed

lemma consistent_types:
  assumes "consistent t" and "TypeSystem.GetRelation t ot rel = Inr r"
  obtains td where "ts_typeDefinitions t ot = Some td" "rel_types r = restrictions_of td rel"
  using assms by (auto simp: consistent_def GetRelation_Inr)

lemma consistent_ref:
  assumes "consistent t" and "TypeSystem.GetRelation t ot rel = Inr r" and "ref \<in> set (rel_types r)"
  shows "rr_ref ref \<noteq> RelationRef []"
proof -
  obtain td where "ts_typeDefinitions t ot = Some td" "rel_types r = restrictions_of td rel"
    using assms(1,2) by (rule consistent_types)
  then show ?thesis using assms(1,3) by (auto simp: consistent_def)
qed

lemma rr_ref_simps:
  "rr_GetRelation ref = [] \<longleftrightarrow> rr_ref ref = NoRef \<or> rr_ref ref = WildcardRef \<or> rr_ref ref = RelationRef []"
  "rel \<noteq> [] \<Longrightarrow> rr_GetRelation ref = rel \<longleftrightarrow> rr_ref ref = RelationRef rel"
  by (auto simp: rr_GetRelation_def split: relation_or_wildcard.split)

lemma validateTypeRestrictions_iff:
  assumes "consistent t" and "TypeSystem.GetRelation t (GetType (tk_object tk)) (tk_relation tk) = Inr r"
  shows "validateTypeRestrictions t tk = None \<longleftrightarrow> (\<exists>ref\<in>set (rel_types r). admits ref (tk_user tk))"
proof -
  obtain td where td: "ts_typeDefinitions t (GetType (tk_object tk)) = Some td"
    "rel_types r = restrictions_of td (tk_relation tk)"
    using assms by (rule consistent_types)
  have nonempty: "rr_ref ref \<noteq> RelationRef []" if "ref \<in> set (rel_types r)" for ref
    using assms that by (rule consistent_ref)
  have md: "(case map_of (case td_metadata td of None \<Rightarrow> [] | Some m \<Rightarrow> m) (tk_relation tk) of
         None \<Rightarrow> [] | Some rm \<Rightarrow> directly_related_user_types rm) = rel_types r"
    unfolding td(2) by (simp add: restrictions_of_def split: option.split)
  have "validateTypeRestrictions t tk = None \<longleftrightarrow>
      (if IsObjectRelation (tk_user tk)
       then \<exists>ti\<in>set (rel_types r). rr_type ti = GetType (tk_user tk) \<and> rr_GetRelation ti = Tuples.GetRelation (tk_user tk)
       else if IsTypedWildcard (tk_user tk)
       then \<exists>ti\<in>set (rel_types r). rr_type ti = GetType (tk_user tk) \<and> rr_GetWildcard ti
       else \<exists>ti\<in>set (rel_types r). rr_type ti = GetType (tk_user tk) \<and> \<not> rr_GetWildcard ti \<and> rr_GetRelation ti = [])"
    unfolding validateTypeRestrictions_def Let_def GetTypeDefinition_def td(1) option.case md
    by (simp add: GetType_def Tuples.GetRelation_def)
  moreover have "Tuples.GetRelation (tk_user tk) \<noteq> []" if "IsObjectRelation (tk_user tk)"
    using that by (simp add: IsObjectRelation_def)
  ultimately show ?thesis
    unfolding admits_def rr_GetWildcard_def using nonempty by (auto simp: rr_ref_simps)
qed

lemma HasTypeInfo_supported:
  "IsSchemaVersionSupported (ts_schemaVersion t) \<Longrightarrow> TypeSystem.GetRelation t ot rel = Inr r \<Longrightarrow>
     HasTypeInfo t ot rel = Inr True"
  by (simp add: HasTypeInfo_def)

text \<open>The context of a condition is fine when it converts and every field of it is a parameter.\<close>

definition context_ok :: "stdlib \<Rightarrow> TypeSystem \<Rightarrow> tuple_key \<Rightarrow> bool" where
  "context_ok S t tk \<longleftrightarrow>
     (case tk_condition tk of
        None \<Rightarrow> True
      | Some cond \<Rightarrow>
          (case GetCondition t (cond_name cond) of
             None \<Rightarrow> False
           | Some c \<Rightarrow>
               let fs = (case cond_context cond of None \<Rightarrow> [] | Some fs \<Rightarrow> fs)
               in case CastContextToTypedParameters S c fs of
                    Some (Inr ps) \<Rightarrow> (\<forall>(k, _) \<in> set fs. map_of ps k \<noteq> None)
                  | _ \<Rightarrow> False))"

lemma validateCondition_None:
  assumes "tk_condition tk = None"
    and "GetDirectlyRelatedUserTypes t (GetType (tk_object tk)) (tk_relation tk) = Inr refs"
  shows "validateCondition S t tk = Some None \<longleftrightarrow>
    (\<exists>ref\<in>set refs. rr_condition ref = [] \<and> rr_type ref = GetType (tk_user tk) \<and>
       (rr_GetRelation ref = [] \<or> rr_GetRelation ref = Tuples.GetRelation (tk_user tk)) \<and>
       (rr_GetWildcard ref \<longrightarrow> IsTypedWildcard (tk_user tk)))"
  unfolding validateCondition_def Let_def assms sum.case option.case
  by (auto simp: rr_GetRelation_def rr_GetWildcard_def)

lemma find_all:
  "(case List.find P xs of None \<Rightarrow> a | Some x \<Rightarrow> f x) = a \<longleftrightarrow> (\<forall>x\<in>set xs. \<not> P x)" if "\<forall>x. f x \<noteq> a"
  using that by (induction xs) auto

lemma validateCondition_Some:
  assumes "tk_condition tk = Some cond"
    and "GetDirectlyRelatedUserTypes t (GetType (tk_object tk)) (tk_relation tk) = Inr refs"
  shows "validateCondition S t tk = Some None \<longleftrightarrow>
    (\<exists>ref\<in>set refs. rr_type ref = GetType (tk_user tk) \<and> rr_condition ref = cond_name cond) \<and> context_ok S t tk"
  unfolding validateCondition_def context_ok_def Let_def assms sum.case option.case
  by (auto simp: find_all split_beta split: option.split sum.split)

lemma ValidateTupleForRead_iff:
  assumes "consistent t" and "IsSchemaVersionSupported (ts_schemaVersion t)"
    and "TypeSystem.GetRelation t (GetType (tk_object tk)) (tk_relation tk) = Inr r"
  shows "ValidateTupleForRead S t tk = Some None \<longleftrightarrow>
    validateTuplesetRestrictions t tk = None \<and> (\<exists>ref\<in>set (rel_types r). admits ref (tk_user tk)) \<and>
    validateCondition S t tk = Some None"
  using HasTypeInfo_supported [OF assms(2,3)] validateTypeRestrictions_iff [OF assms(1,3)]
  by (auto simp: ValidateTupleForRead_def split: option.split)

lemma ValidateTupleForRead_relation:
  assumes "ValidateTupleForRead S t tk = Some None"
  obtains r where "TypeSystem.GetRelation t (GetType (tk_object tk)) (tk_relation tk) = Inr r"
  using assms by (cases "TypeSystem.GetRelation t (GetType (tk_object tk)) (tk_relation tk)")
    (auto simp: ValidateTupleForRead_def HasTypeInfo_def split: option.splits)

lemma same_type_same_ref:
  "distinct (map rr_type refs) \<Longrightarrow> a \<in> set refs \<Longrightarrow> b \<in> set refs \<Longrightarrow> rr_type a = rr_type b \<Longrightarrow> a = b"
  by (induction refs) (auto simp: rev_image_eqI)

lemma admits_shape:
  "admits ref user \<Longrightarrow> rr_type ref = GetType user \<and>
     (rr_GetRelation ref = [] \<or> rr_GetRelation ref = Tuples.GetRelation user) \<and>
     (rr_GetWildcard ref \<longrightarrow> IsTypedWildcard user)"
  by (auto simp: admits_def rr_GetRelation_def rr_GetWildcard_def split: if_splits)

text \<open>
  C29: when no two type restrictions of a relation name the same type, a tuple may be written exactly
  when its user, object and relation are well-formed and defined, it obeys the restrictions on
  tuplesets, one of the type restrictions covers it (type, shape of the user, condition), and the
  context of its condition converts to the parameters of the condition.
\<close>

theorem ValidateTupleForWrite_iff:
  assumes "consistent t" and "IsSchemaVersionSupported (ts_schemaVersion t)"
    and "TypeSystem.GetRelation t (GetType (tk_object tk)) (tk_relation tk) = Inr r"
    and "distinct (map rr_type (rel_types r))"
  shows "ValidateTupleForWrite S t tk = Some None \<longleftrightarrow>
    ValidateUserObjectRelation t tk = None \<and> validateTuplesetRestrictions t tk = None \<and>
    (\<exists>ref\<in>set (rel_types r). covers ref tk) \<and> context_ok S t tk"
proof -
  have refs: "GetDirectlyRelatedUserTypes t (GetType (tk_object tk)) (tk_relation tk) = Inr (rel_types r)"
    by (simp add: GetDirectlyRelatedUserTypes_def assms(3))
  have "(\<exists>ref\<in>set (rel_types r). admits ref (tk_user tk)) \<and> validateCondition S t tk = Some None \<longleftrightarrow>
      (\<exists>ref\<in>set (rel_types r). covers ref tk) \<and> context_ok S t tk"
  proof (cases "tk_condition tk")
    case None
    show ?thesis
      unfolding validateCondition_None [OF None refs] covers_def
      using same_type_same_ref [OF assms(4)] admits_shape
      by (auto simp: context_ok_def GetConditionName_def None) (metis admits_shape)+
  next
    case (Some cond)
    show ?thesis
      unfolding validateCondition_Some [OF Some refs] covers_def
      using same_type_same_ref [OF assms(4)]
      by (auto simp: GetConditionName_def Some) (metis admits_shape)+
  qed
  then show ?thesis
    unfolding ValidateTupleForWrite_def using ValidateTupleForRead_iff [OF assms(1-3), of S]
    by (auto split: option.split)
qed
text \<open>
  A model in which viewers of a document are users, or everyone under the condition \<^verbatim>\<open>c\<close>, and owners
  are users or members of a group.
\<close>

definition document_model :: authorization_model where
  "document_model =
     \<lparr>am_id = ''m'', am_schema_version = ''1.1'', am_type_definitions =
        [\<lparr>td_type = ''user'', td_relations = [], td_metadata = None\<rparr>,
         \<lparr>td_type = ''group'', td_relations = [(''member'', This)],
          td_metadata = Some [(''member'', \<lparr>directly_related_user_types = [DirectRelationReference ''user'' []]\<rparr>)]\<rparr>,
         \<lparr>td_type = ''doc'', td_relations = [(''viewer'', This), (''owner'', This)],
          td_metadata = Some
            [(''viewer'', \<lparr>directly_related_user_types = [DirectRelationReference ''user'' [],
                ConditionedRelationReference (WildcardRelationReference ''user'') ''c'']\<rparr>),
             (''owner'', \<lparr>directly_related_user_types = [DirectRelationReference ''user'' [],
                DirectRelationReference ''group'' ''member'']\<rparr>)]\<rparr>],
      am_conditions = [(''c'', example_condition)]\<rparr>"

definition example_graph :: AuthorizationModelGraph where
  "example_graph = \<lparr>ag_ListObjectsDirection = True, ag_PathExists = (\<lambda>_ _. Inr True)\<rparr>"

definition document_types :: TypeSystem where
  "document_types = projr (NewTypeSystem (\<lambda>_. Inr example_graph) Inr (\<lambda>_. None) document_model)"

lemma document_types_new:
  "NewTypeSystem (\<lambda>_. Inr example_graph) Inr (\<lambda>_. None) document_model = Inr document_types"
  by (simp add: document_types_def NewTypeSystem_def Let_def example_graph_def)

lemma document_types_consistent: "consistent document_types"
  by (rule NewTypeSystem_consistent [OF document_types_new])
     (simp add: document_model_def restrictions_of_def DirectRelationReference_def
       ConditionedRelationReference_def WildcardRelationReference_def)

lemma document_types_relation:
  "TypeSystem.GetRelation document_types ''doc'' ''owner'' =
     Inr \<lparr>rel_name = ''owner'', rel_rewrite = This,
          rel_types = [DirectRelationReference ''user'' [], DirectRelationReference ''group'' ''member'']\<rparr>"
  "TypeSystem.GetRelation document_types ''doc'' ''viewer'' =
     Inr \<lparr>rel_name = ''viewer'', rel_rewrite = This,
          rel_types = [DirectRelationReference ''user'' [],
                       ConditionedRelationReference (WildcardRelationReference ''user'') ''c'']\<rparr>"
  by (simp_all add: document_types_def document_model_def example_graph_def Let_def NewTypeSystem_def TypeSystem.GetRelation_def GetRelations_def
      GetTypeDefinition_def relations_of_def new_relation_def)

theorem ValidateTupleForWrite_iff_witness:
  "ValidateTupleForWrite example_stdlib document_types (NewTupleKey ''doc:1'' ''owner'' ''group:g#member'') = Some None"
proof -
  have "ValidateUserObjectRelation document_types (NewTupleKey ''doc:1'' ''owner'' ''group:g#member'') = None"
    by code_simp
  moreover have "validateTuplesetRestrictions document_types (NewTupleKey ''doc:1'' ''owner'' ''group:g#member'') = None"
    by code_simp
  moreover have "covers (DirectRelationReference ''group'' ''member'') (NewTupleKey ''doc:1'' ''owner'' ''group:g#member'')"
    by code_simp
  moreover have "context_ok example_stdlib document_types (NewTupleKey ''doc:1'' ''owner'' ''group:g#member'')"
    by (simp add: context_ok_def NewTupleKey_def)
  moreover have "GetType (tk_object (NewTupleKey ''doc:1'' ''owner'' ''group:g#member'')) = ''doc''"
    "tk_relation (NewTupleKey ''doc:1'' ''owner'' ''group:g#member'') = ''owner''" by code_simp+
  moreover have "IsSchemaVersionSupported (ts_schemaVersion document_types)" by code_simp
  ultimately show ?thesis
    using ValidateTupleForWrite_iff [OF document_types_consistent, of "NewTupleKey ''doc:1'' ''owner'' ''group:g#member''" _ example_stdlib]
    by (simp add: document_types_relation DirectRelationReference_def)
qed

text \<open>
  C30: without that restriction on the model the check has a gap: the type restrictions and the
  condition are checked one after the other, by possibly different restrictions. Where users are
  allowed, and everyone only under a condition, a tuple for everyone without the condition is
  accepted, although no restriction of the relation covers it.
\<close>

theorem validateCondition_gap:
  "ValidateTupleForWrite example_stdlib document_types (NewTupleKey ''doc:1'' ''viewer'' ''user:*'') = Some None \<and>
   (\<exists>r. TypeSystem.GetRelation document_types ''doc'' ''viewer'' = Inr r \<and>
        filter (\<lambda>ref. covers ref (NewTupleKey ''doc:1'' ''viewer'' ''user:*'')) (rel_types r) = [])"
proof
  show "ValidateTupleForWrite example_stdlib document_types (NewTupleKey ''doc:1'' ''viewer'' ''user:*'') = Some None"
    by code_simp
  have "\<not> covers (DirectRelationReference ''user'' []) (NewTupleKey ''doc:1'' ''viewer'' ''user:*'')"
    "\<not> covers (ConditionedRelationReference (WildcardRelationReference ''user'') ''c'')
        (NewTupleKey ''doc:1'' ''viewer'' ''user:*'')" by code_simp+
  then show "\<exists>r. TypeSystem.GetRelation document_types ''doc'' ''viewer'' = Inr r \<and>
        filter (\<lambda>ref. covers ref (NewTupleKey ''doc:1'' ''viewer'' ''user:*'')) (rel_types r) = []"
    by (simp add: document_types_relation)
qed


end
