(* ===== verification/ModelValidation.thy ===== *)
theory ModelValidation
  imports Entrypoints Validation
begin

text \<open>
  Validation of authorization models (\<^verbatim>\<open>NewAndValidate\<close> in \<^verbatim>\<open>pkg/typesystem/typesystem.go\<close>). An
  outcome \<open>Some e\<close> of a check is an error. Maps are ranged over in the order of the model where the
  program does not sort; the order only decides which of several errors is reported.
\<close>

section \<open>Types and names\<close>

fun duplicate_loop :: "string set \<Rightarrow> type_definition list \<Rightarrow> bool" where
  "duplicate_loop seen [] = False"
| "duplicate_loop seen (td # tds) =
     (if td_type td \<in> seen then True else duplicate_loop (insert (td_type td) seen) tds)"

definition containsDuplicateType :: "authorization_model \<Rightarrow> bool" where
  "containsDuplicateType model = duplicate_loop {} (am_type_definitions model)"

fun relation_names_loop :: "string \<Rightarrow> (string \<times> userset) list \<Rightarrow> err option" where
  "relation_names_loop objectType [] = None"
| "relation_names_loop objectType ((rel, _) # rels) =
     (if rel = [] then Some (ErrText ''type defines a relation with an empty string for a name'')
      else if rel = ''self'' \<or> rel = ''this'' then Some (InvalidRelationError objectType rel ErrReservedKeywords)
      else relation_names_loop objectType rels)"

fun validateNames :: "type_definition list \<Rightarrow> err option" where
  "validateNames [] = None"
| "validateNames (td # tds) =
     (let objectType = td_type td
      in if objectType = [] then Some (ErrText ''the type name of a type definition cannot be an empty string'')
         else if objectType = ''self'' \<or> objectType = ''this'' then Some (InvalidTypeError objectType ErrReservedKeywords)
         else (case relation_names_loop objectType (td_relations td) of
                 Some e \<Rightarrow> Some e
               | None \<Rightarrow> validateNames tds))"

section \<open>Rewrites and type restrictions\<close>

text \<open>\<open>typeNames\<close> are the keys of \<^verbatim>\<open>t.relations\<close>, which models of schema 1.0 are searched for.\<close>

fun isUsersetRewriteValid :: "TypeSystem \<Rightarrow> string list \<Rightarrow> string \<Rightarrow> string \<Rightarrow> userset \<Rightarrow> err option"
  and rewrites_valid :: "TypeSystem \<Rightarrow> string list \<Rightarrow> string \<Rightarrow> string \<Rightarrow> userset list \<Rightarrow> err option" where
  "isUsersetRewriteValid t typeNames objectType rel Unset =
     Some (InvalidRelationError objectType rel ErrInvalidUsersetRewrite)"
| "isUsersetRewriteValid t typeNames objectType rel This = None"
| "isUsersetRewriteValid t typeNames objectType rel (ComputedUserset computedUserset) =
     (if computedUserset = rel then Some (InvalidRelationError objectType rel ErrInvalidUsersetRewrite)
      else (case GetRelation t objectType computedUserset of
              Inl _ \<Rightarrow> Some (RelationUndefinedError objectType computedUserset)
            | Inr _ \<Rightarrow> None))"
| "isUsersetRewriteValid t typeNames objectType rel (TupleToUserset tupleset computedUserset) =
     (case GetRelation t objectType tupleset of
        Inl _ \<Rightarrow> Some (RelationUndefinedError objectType tupleset)
      | Inr tuplesetRelation \<Rightarrow>
          if rel_rewrite tuplesetRelation \<noteq> This
          then Some (ErrText ''the relation is referenced in at least one tupleset and thus must be a direct relation'')
          else if IsSchemaVersionSupported (ts_schemaVersion t)
          then (if \<exists>rr\<in>set (rel_types tuplesetRelation). \<not> isl (GetRelation t (rr_type rr) computedUserset) then None
                else Some (ErrWrap ''does not appear as a relation in any of the directly related user types'' ErrRelationUndefined))
          else (if \<exists>typeName\<in>set typeNames. \<not> isl (GetRelation t typeName computedUserset) then None
                else Some (RelationUndefinedError [] computedUserset)))"
| "isUsersetRewriteValid t typeNames objectType rel (Union us) = rewrites_valid t typeNames objectType rel us"
| "isUsersetRewriteValid t typeNames objectType rel (Intersection us) = rewrites_valid t typeNames objectType rel us"
| "isUsersetRewriteValid t typeNames objectType rel (Difference base sub) =
     (case isUsersetRewriteValid t typeNames objectType rel base of
        Some e \<Rightarrow> Some e
      | None \<Rightarrow> isUsersetRewriteValid t typeNames objectType rel sub)"
| "rewrites_valid t typeNames objectType rel [] = None"
| "rewrites_valid t typeNames objectType rel (u # us) =
     (case isUsersetRewriteValid t typeNames objectType rel u of
        Some e \<Rightarrow> Some e
      | None \<Rightarrow> rewrites_valid t typeNames objectType rel us)"

definition AssignableRelationError :: err where
  "AssignableRelationError = ErrText ''the assignable relation must contain at least one relation type''"

definition NonAssignableRelationError :: err where
  "NonAssignableRelationError = ErrText ''the non-assignable relation should not contain a relation type''"

definition InvalidRelationTypeError :: err where
  "InvalidRelationTypeError = ErrText ''the relation type is not valid''"

fun related_types_loop :: "TypeSystem \<Rightarrow> string \<Rightarrow> string \<Rightarrow> relation_reference list \<Rightarrow> err option" where
  "related_types_loop t objectType relationName [] = None"
| "related_types_loop t objectType relationName (related # refs) =
     (let relatedObjectType = rr_type related; relatedRelation = rr_GetRelation related
      in if isl (GetRelations t relatedObjectType) then Some InvalidRelationTypeError
         else if rr_ref related \<noteq> NoRef \<and>
                 (IsTuplesetRelation t objectType relationName = Inr True \<or>
                  (relatedRelation \<noteq> [] \<and> isl (GetRelation t relatedObjectType relatedRelation)))
         then Some InvalidRelationTypeError
         else if rr_condition related \<noteq> [] \<and> GetCondition t (rr_condition related) = None
         then Some (RelationConditionError (rr_condition related) relationName)
         else related_types_loop t objectType relationName refs)"

text \<open>\<open>None\<close> is the panic of \<^verbatim>\<open>RewriteContainsSelf\<close> on a malformed rewrite.\<close>

definition validateRelationTypes :: "TypeSystem \<Rightarrow> string \<Rightarrow> string \<Rightarrow> err option option" where
  "validateRelationTypes t objectType relationName =
     (case GetRelation t objectType relationName of
        Inl e \<Rightarrow> Some (Some e)
      | Inr relation \<Rightarrow>
          (case IsDirectlyAssignable relation of
             None \<Rightarrow> None
           | Some assignable \<Rightarrow>
               if assignable \<and> rel_types relation = [] then Some (Some AssignableRelationError)
               else if \<not> assignable \<and> rel_types relation \<noteq> [] then Some (Some NonAssignableRelationError)
               else Some (related_types_loop t objectType relationName (rel_types relation))))"

fun validateConditions :: "'c CEL \<Rightarrow> (string \<times> condition) list \<Rightarrow> err option" where
  "validateConditions C [] = None"
| "validateConditions C ((key, c) # cs) =
     (if key \<noteq> c_name c then Some (ErrText ''condition key does not match condition name'')
      else (case fst (Compile C (NewUncompiled c)) of
              Some e \<Rightarrow> Some e
            | None \<Rightarrow> validateConditions C cs))"

section \<open>Relations and models\<close>

text \<open>\<open>fuel\<close> bounds the search for entrypoints; \<open>None\<close> is a panic or too little fuel.\<close>

definition validateRelation :: "nat \<Rightarrow> TypeSystem \<Rightarrow> string list \<Rightarrow> string \<Rightarrow> string \<Rightarrow> userset \<Rightarrow> err option option" where
  "validateRelation fuel t typeNames typeName relationName rewrite =
     (case isUsersetRewriteValid t typeNames typeName relationName rewrite of
        Some e \<Rightarrow> Some (Some e)
      | None \<Rightarrow>
          (case validateRelationTypes t typeName relationName of
             None \<Rightarrow> None
           | Some (Some e) \<Rightarrow> Some (Some e)
           | Some None \<Rightarrow>
               (case hasEntrypoints fuel t typeName relationName rewrite Map.empty [] of
                  None \<Rightarrow> None
                | Some (Inl e, _) \<Rightarrow> Some (Some e)
                | Some (Inr (entrypoints, loop), _) \<Rightarrow>
                    if \<not> entrypoints
                    then Some (Some (InvalidRelationError typeName relationName
                           (if loop then ErrNoEntryPointsLoop else ErrNoEntrypoints)))
                    else (case HasCycle t typeName relationName of
                            Inl e \<Rightarrow> Some (Some e)
                          | Inr cycle \<Rightarrow>
                              Some (if cycle then Some (InvalidRelationError typeName relationName ErrCycle) else None)))))"

fun validate_relations :: "nat \<Rightarrow> TypeSystem \<Rightarrow> string list \<Rightarrow> string \<Rightarrow> (string \<times> userset) list \<Rightarrow> string list \<Rightarrow>
    err option option" where
  "validate_relations fuel t typeNames typeName relationMap [] = Some None"
| "validate_relations fuel t typeNames typeName relationMap (relationName # names) =
     (case map_of relationMap relationName of
        None \<Rightarrow> validate_relations fuel t typeNames typeName relationMap names
      | Some rewrite \<Rightarrow>
          (case validateRelation fuel t typeNames typeName relationName rewrite of
             None \<Rightarrow> None
           | Some (Some e) \<Rightarrow> Some (Some e)
           | Some None \<Rightarrow> validate_relations fuel t typeNames typeName relationMap names))"

fun validate_types :: "nat \<Rightarrow> TypeSystem \<Rightarrow> string list \<Rightarrow> string list \<Rightarrow> err option option" where
  "validate_types fuel t typeNames [] = Some None"
| "validate_types fuel t typeNames (typeName # names) =
     (case GetTypeDefinition t typeName of
        None \<Rightarrow> validate_types fuel t typeNames names
      | Some typedef \<Rightarrow>
          (case validate_relations fuel t typeNames typeName (td_relations typedef) (sort (map fst (td_relations typedef))) of
             None \<Rightarrow> None
           | Some (Some e) \<Rightarrow> Some (Some e)
           | Some None \<Rightarrow> validate_types fuel t typeNames names))"

definition entrypoint_fuel :: "authorization_model \<Rightarrow> nat" where
  "entrypoint_fuel model =
     (let rewrites = map snd (concat (map td_relations (am_type_definitions model)))
      in Suc (length rewrites) * Suc (sum_list (map usize rewrites)))"

definition NewAndValidate ::
  "(authorization_model \<Rightarrow> (err, AuthorizationModelGraph) result) \<Rightarrow>
   (AuthorizationModelGraph \<Rightarrow> (err, AuthorizationModelGraph) result) \<Rightarrow>
   (authorization_model \<Rightarrow> WeightedGraph option) \<Rightarrow> 'c CEL \<Rightarrow>
   authorization_model \<Rightarrow> (err, TypeSystem) result option" where
  "NewAndValidate NewAuthorizationModelGraph Reversed BuildWeighted C model =
     (case NewTypeSystem NewAuthorizationModelGraph Reversed BuildWeighted model of
        Inl e \<Rightarrow> Some (Inl e)
      | Inr t \<Rightarrow>
          if \<not> IsSchemaVersionSupported (ts_schemaVersion t) then Some (Inl ErrInvalidSchemaVersion)
          else if containsDuplicateType model then Some (Inl ErrDuplicateTypes)
          else (case validateNames (am_type_definitions model) of
                  Some e \<Rightarrow> Some (Inl e)
                | None \<Rightarrow>
                    let typeNames = map td_type (am_type_definitions model)
                    in (case validate_types (entrypoint_fuel model) t typeNames (sort typeNames) of
                          None \<Rightarrow> None
                        | Some (Some e) \<Rightarrow> Some (Inl e)
                        | Some None \<Rightarrow>
                            (case validateConditions C (ts_conditions t) of
                               Some e \<Rightarrow> Some (Inl e)
                             | None \<Rightarrow> Some (Inr t)))))"
section \<open>Models that are accepted\<close>

lemma NewTypeSystem_relations_of:
  assumes "NewTypeSystem mk rv wt model = Inr t" and "ts_typeDefinitions t ot = Some td"
  shows "relations_of t ot = map (\<lambda>(r, rewrite). (r, new_relation td r rewrite)) (td_relations td)"
  using assms(2) map_of_indexed [of td_type "\<lambda>td. map (\<lambda>(r, rewrite). (r, new_relation td r rewrite)) (td_relations td)"
      "rev (am_type_definitions model)" ot]
  unfolding NewTypeSystem_fields(1) [OF assms(1)]
  by (simp add: relations_of_def NewTypeSystem_fields(2) [OF assms(1)])

lemma map_of_new_relation:
  "map_of (map (\<lambda>(r, rewrite). (r, new_relation td r rewrite)) rels) rel =
     map_option (new_relation td rel) (map_of rels rel)"
  by (induction rels) auto

lemma new_relation_rewrite [simp]: "rel_rewrite (new_relation td rel rewrite) = rewrite"
  by (simp add: new_relation_def)

lemma NewTypeSystem_definition:
  assumes "NewTypeSystem mk rv wt model = Inr t" and "ts_typeDefinitions t ot = Some td"
  shows "td \<in> set (am_type_definitions model)" and "td_type td = ot"
  using assms(2) by (auto simp: NewTypeSystem_fields(1) [OF assms(1)] dest: map_of_SomeD)

lemma NewTypeSystem_no_type:
  assumes "NewTypeSystem mk rv wt model = Inr t" and "ts_typeDefinitions t ot = None"
  shows "relations_of t ot = []"
proof -
  have "ts_relations t ot = None"
    using assms(2) map_of_indexed [of td_type "\<lambda>td. map (\<lambda>(r, rewrite). (r, new_relation td r rewrite)) (td_relations td)"
        "rev (am_type_definitions model)" ot]
    unfolding NewTypeSystem_fields [OF assms(1)] by simp
  then show ?thesis by (simp add: relations_of_def)
qed

lemma NewTypeSystem_relation_iff:
  assumes "NewTypeSystem mk rv wt model = Inr t"
  shows "map_of (relations_of t ot) rel = Some r \<longleftrightarrow>
    (\<exists>td rewrite. ts_typeDefinitions t ot = Some td \<and> map_of (td_relations td) rel = Some rewrite \<and>
       r = new_relation td rel rewrite)"
  by (cases "ts_typeDefinitions t ot")
     (auto simp: NewTypeSystem_no_type [OF assms] NewTypeSystem_relations_of [OF assms] map_of_new_relation)

lemma GetRelation_iff:
  assumes "NewTypeSystem mk rv wt model = Inr t"
  shows "TypeSystem.GetRelation t ot rel = Inr r \<longleftrightarrow> map_of (relations_of t ot) rel = Some r"
  using NewTypeSystem_relation_iff [OF assms, of ot rel r] by (auto simp: GetRelation_Inr)

lemma validate_relations_ok:
  assumes "validate_relations fuel t typeNames typeName relationMap names = Some None"
    and "relationName \<in> set names" and "map_of relationMap relationName = Some rewrite"
  shows "validateRelation fuel t typeNames typeName relationName rewrite = Some None"
  using assms
  by (induction fuel t typeNames typeName relationMap names rule: validate_relations.induct)
     (auto split: option.splits)

lemma validate_types_ok:
  assumes "validate_types fuel t typeNames names = Some None"
    and "typeName \<in> set names" and "GetTypeDefinition t typeName = Some td" and "map_of (td_relations td) rel = Some rewrite"
  shows "validateRelation fuel t typeNames typeName rel rewrite = Some None"
  using assms
proof (induction fuel t typeNames names rule: validate_types.induct)
  case (2 fuel t typeNames name names)
  have "rel \<in> set (sort (map fst (td_relations td)))" using \<open>map_of (td_relations td) rel = Some rewrite\<close> by (force dest: map_of_SomeD)
  then have "validateRelation fuel t typeNames typeName rel rewrite = Some None"
    if "validate_relations fuel t typeNames typeName (td_relations td) (sort (map fst (td_relations td))) = Some None"
    using validate_relations_ok [OF that] \<open>map_of (td_relations td) rel = Some rewrite\<close> by blast
  with 2 show ?case by (cases "typeName = name") (auto split: option.splits)
qed simp

lemma validateNames_nonempty:
  "validateNames tds = None \<Longrightarrow> td \<in> set tds \<Longrightarrow> td_type td \<noteq> [] \<and> (\<forall>x\<in>set (td_relations td). fst x \<noteq> [])"
proof (induction tds)
  case (Cons td' tds)
  have "relation_names_loop ot rels = None \<Longrightarrow> \<forall>x\<in>set rels. fst x \<noteq> []" for ot rels
    by (induction ot rels rule: relation_names_loop.induct) (auto split: if_splits)
  with Cons show ?case by (auto simp: Let_def split: if_splits option.splits)
qed simp

lemma NewAndValidate_cases:
  assumes "NewAndValidate mk rv wt C model = Some (Inr t)"
  shows "NewTypeSystem mk rv wt model = Inr t" and "IsSchemaVersionSupported (ts_schemaVersion t)"
    and "\<not> containsDuplicateType model" and "validateNames (am_type_definitions model) = None"
    and "validate_types (entrypoint_fuel model) t (map td_type (am_type_definitions model))
      (sort (map td_type (am_type_definitions model))) = Some None"
    and "validateConditions C (ts_conditions t) = None"
  using assms by (auto simp: NewAndValidate_def Let_def split: sum.splits if_splits option.splits)

lemma accepted_relation:
  assumes "NewAndValidate mk rv wt C model = Some (Inr t)" and "TypeSystem.GetRelation t ot rel = Inr r"
  shows "validateRelation (entrypoint_fuel model) t (map td_type (am_type_definitions model)) ot rel (rel_rewrite r) = Some None"
proof -
  note a = NewAndValidate_cases [OF assms(1)]
  from assms(2) obtain td rewrite where td: "ts_typeDefinitions t ot = Some td" "map_of (td_relations td) rel = Some rewrite"
    "r = new_relation td rel rewrite"
    by (auto simp: GetRelation_iff [OF a(1)] NewTypeSystem_relation_iff [OF a(1)])
  then have "ot \<in> set (sort (map td_type (am_type_definitions model)))"
    using NewTypeSystem_definition [OF a(1) td(1)] by auto
  from validate_types_ok [OF a(5) this _ td(2)] td show ?thesis by (simp add: GetTypeDefinition_def)
qed


lemma accepted_checks:
  assumes "validateRelation fuel t typeNames ot rel rewrite = Some None"
  shows "isUsersetRewriteValid t typeNames ot rel rewrite = None" and "validateRelationTypes t ot rel = Some None"
    and "\<exists>l h. hasEntrypoints fuel t ot rel rewrite Map.empty [] = Some (Inr (True, l), h)"
    and "HasCycle t ot rel = Inr False"
  using assms by (auto simp: validateRelation_def split: option.splits sum.splits if_splits prod.splits)

lemma no_visits: "wf_visited Map.empty []" "true_marks t Map.empty [] x" "unvisited_in D Map.empty [] x \<le> card D" if "finite D"
  using that by (auto simp: wf_visited_def true_marks_def visited_at_def unvisited_in_def intro: card_mono)

lemma hasEntrypoints_sound:
  assumes "hasEntrypoints fuel t ot rel rewrite Map.empty [] = Some (Inr (True, l), h)"
  shows "entry_rewrite t ot rel rewrite"
  using hasEntrypoints_ok [of t fuel] assms no_visits [of "{}"]
  unfolding calls_ok_def call_ok_def by (metis finite.emptyI found_simps(2))

section \<open>Validation ends\<close>

lemma isUsersetRewriteValid_walk:
  "isUsersetRewriteValid t typeNames ot rel w = None \<Longrightarrow> \<not> isl (WalkUsersetRewrite f w)"
  "rewrites_valid t typeNames ot rel us = None \<Longrightarrow> \<not> isl (walk_children f us)"
  by (induction t typeNames ot rel w and t typeNames ot rel us rule: isUsersetRewriteValid_rewrites_valid.induct)
     (auto split: option.splits sum.splits)

lemma validateRelationTypes_returns:
  assumes "isUsersetRewriteValid t typeNames ot rel rewrite = None"
    and "TypeSystem.GetRelation t ot rel = Inr r" and "rel_rewrite r = rewrite"
  shows "validateRelationTypes t ot rel \<noteq> None"
  using isUsersetRewriteValid_walk(1) [OF assms(1), of "\<lambda>r. if r = This then Some True else None"] assms(2,3)
  by (auto simp: validateRelationTypes_def IsDirectlyAssignable_def RewriteContainsSelf_def split: sum.splits option.splits)

lemma defined_relations_listed:
  assumes "NewTypeSystem mk rv wt model = Inr t" and "map_of (relations_of t ot) rel = Some r"
  shows "(ot, rel) \<in> set (concat (map (\<lambda>td. map (\<lambda>x. (td_type td, fst x)) (td_relations td)) (am_type_definitions model)))"
    and "usize (rel_rewrite r) \<le> sum_list (map usize (map snd (concat (map td_relations (am_type_definitions model)))))"
proof -
  from assms(2) obtain td rewrite where td: "ts_typeDefinitions t ot = Some td" "(rel, rewrite) \<in> set (td_relations td)"
    "r = new_relation td rel rewrite"
    by (auto simp: NewTypeSystem_relation_iff [OF assms(1)] dest: map_of_SomeD)
  note def = NewTypeSystem_definition [OF assms(1) td(1)]
  show "(ot, rel) \<in> set (concat (map (\<lambda>td. map (\<lambda>x. (td_type td, fst x)) (td_relations td)) (am_type_definitions model)))"
    using def td(2) by force
  have "usize rewrite \<in> set (map usize (map snd (concat (map td_relations (am_type_definitions model)))))"
    using def td(2) by force
  from member_le_sum_list [OF this] td(3) show "usize (rel_rewrite r) \<le>
      sum_list (map usize (map snd (concat (map td_relations (am_type_definitions model)))))" by simp
qed

lemma entrypoint_fuel_enough:
  assumes new: "NewTypeSystem mk rv wt model = Inr t" and r: "map_of (relations_of t ot) rel = Some r"
  shows "hasEntrypoints (entrypoint_fuel model) t ot rel (rel_rewrite r) Map.empty [] \<noteq> None"
proof -
  let ?D = "set (concat (map (\<lambda>td. map (\<lambda>x. (td_type td, fst x)) (td_relations td)) (am_type_definitions model)))"
  let ?rewrites = "map snd (concat (map td_relations (am_type_definitions model)))"
  let ?K = "sum_list (map usize ?rewrites)"
  have "card ?D \<le> length ?rewrites"
    by (rule order_trans [OF card_length]) (simp add: length_concat comp_def)
  with no_visits(3) [of ?D "(ot, rel)"] have "unvisited_in ?D Map.empty [] (ot, rel) \<le> length ?rewrites" by simp
  then have "unvisited_in ?D Map.empty [] (ot, rel) * ?K \<le> length ?rewrites * ?K" by (rule mult_le_mono1)
  with defined_relations_listed(2) [OF new r]
  have "unvisited_in ?D Map.empty [] (ot, rel) * ?K + usize (rel_rewrite r) < entrypoint_fuel model"
    unfolding entrypoint_fuel_def Let_def mult_Suc mult_Suc_right by linarith
  from hasEntrypoints_total [of ?D t ?K, OF _ _ no_visits(1,2) this]
  show ?thesis using defined_relations_listed [OF new] by fastforce
qed

lemma validateRelation_returns:
  assumes new: "NewTypeSystem mk rv wt model = Inr t" and r: "map_of (relations_of t ot) rel = Some r"
  shows "validateRelation (entrypoint_fuel model) t typeNames ot rel (rel_rewrite r) \<noteq> None"
  using entrypoint_fuel_enough [OF assms] validateRelationTypes_returns [of t typeNames ot rel "rel_rewrite r" r] r
  by (cases "isUsersetRewriteValid t typeNames ot rel (rel_rewrite r)")
     (auto simp: validateRelation_def GetRelation_iff [OF new] split: option.splits sum.splits)

lemma validate_relations_returns:
  assumes "\<forall>rel rewrite. map_of relationMap rel = Some rewrite \<longrightarrow> validateRelation fuel t typeNames ot rel rewrite \<noteq> None"
  shows "validate_relations fuel t typeNames ot relationMap names \<noteq> None"
  using assms by (induction names) (fastforce split: option.splits)+

lemma validate_types_returns:
  assumes new: "NewTypeSystem mk rv wt model = Inr t"
  shows "validate_types (entrypoint_fuel model) t typeNames names \<noteq> None"
proof (induction names)
  case (Cons typeName names)
  show ?case
  proof (cases "GetTypeDefinition t typeName")
    case (Some td)
    have "validateRelation (entrypoint_fuel model) t typeNames typeName rel rewrite \<noteq> None"
      if "map_of (td_relations td) rel = Some rewrite" for rel rewrite
      using validateRelation_returns [OF new, of typeName rel "new_relation td rel rewrite" typeNames] Some that
      by (simp add: NewTypeSystem_relation_iff [OF new] GetTypeDefinition_def)
    then have "validate_relations (entrypoint_fuel model) t typeNames typeName (td_relations td) rels \<noteq> None" for rels
      by (intro validate_relations_returns) blast
    with Cons Some show ?thesis by (auto split: option.splits)
  qed (use Cons in simp)
qed simp

text \<open>
  C33: validation of a model always ends with a verdict: the search for entrypoints, which recurses through the
  relations that the model names, does not run forever on a model with cycles, and the walk over the rewrites
  does not panic on a malformed one.
\<close>

theorem NewAndValidate_returns:
  "\<exists>verdict. NewAndValidate NewAuthorizationModelGraph Reversed BuildWeighted C model = Some verdict"
  by (auto simp: NewAndValidate_def Let_def split: sum.splits option.splits dest: validate_types_returns)

section \<open>What acceptance guarantees\<close>

text \<open>
  A leaf of a rewrite of \<open>ot#rel\<close> makes sense: a direct assignment has type restrictions; a computed userset
  names another relation of the type; the tupleset of a tuple-to-userset is a direct relation, and one of the types
  it holds has the computed relation.
\<close>

fun leaf_defined :: "TypeSystem \<Rightarrow> string \<Rightarrow> string \<Rightarrow> relation_reference list \<Rightarrow> userset \<Rightarrow> bool" where
  "leaf_defined t ot rel restrictions This = (restrictions \<noteq> [])"
| "leaf_defined t ot rel restrictions (ComputedUserset c) = (c \<noteq> rel \<and> (\<exists>r. TypeSystem.GetRelation t ot c = Inr r))"
| "leaf_defined t ot rel restrictions (TupleToUserset ts c) =
     (\<exists>tr. TypeSystem.GetRelation t ot ts = Inr tr \<and> rel_rewrite tr = This \<and>
        (\<exists>ref\<in>set (rel_types tr). \<exists>r. TypeSystem.GetRelation t (rr_type ref) c = Inr r))"
| "leaf_defined t ot rel restrictions _ = False"

text \<open>A type restriction names a defined type, a defined relation and a defined condition.\<close>

definition restriction_defined :: "TypeSystem \<Rightarrow> relation_reference \<Rightarrow> bool" where
  "restriction_defined t ref \<longleftrightarrow> GetTypeDefinition t (rr_type ref) \<noteq> None \<and>
     (\<forall>rel. rr_ref ref = RelationRef rel \<and> rel \<noteq> [] \<longrightarrow> (\<exists>r. TypeSystem.GetRelation t (rr_type ref) rel = Inr r)) \<and>
     (rr_condition ref \<noteq> [] \<longrightarrow> GetCondition t (rr_condition ref) \<noteq> None)"

lemma not_isl: "\<not> isl x \<longleftrightarrow> (\<exists>y. x = Inr y)"
  by (cases x) auto

lemma isUsersetRewriteValid_leaves:
  assumes "IsSchemaVersionSupported (ts_schemaVersion t)"
  shows "isUsersetRewriteValid t typeNames ot rel w = None \<Longrightarrow> l \<in> leaves w \<Longrightarrow> l = This \<or> leaf_defined t ot rel restrictions l"
    "rewrites_valid t typeNames ot rel us = None \<Longrightarrow> w' \<in> set us \<Longrightarrow> l \<in> leaves w' \<Longrightarrow>
       l = This \<or> leaf_defined t ot rel restrictions l"
  using assms
  by (induction t typeNames ot rel w and t typeNames ot rel us arbitrary: and w' rule: isUsersetRewriteValid_rewrites_valid.induct)
     (auto simp: not_isl split: option.splits sum.splits if_splits)

lemma related_types_loop_defined:
  assumes "related_types_loop t ot rel refs = None"
  shows "\<forall>ref\<in>set refs. restriction_defined t ref"
  using assms
proof (induction refs)
  case (Cons ref refs)
  have "GetTypeDefinition t (rr_type ref) \<noteq> None"
    using Cons.prems by (auto simp: Let_def GetRelations_def split: if_splits option.splits)
  with Cons show ?case
    by (auto simp: restriction_defined_def Let_def rr_GetRelation_def not_isl split: if_splits)
qed simp

lemma accepted_leaves:
  assumes ok: "NewAndValidate mk rv wt C model = Some (Inr t)" and r: "TypeSystem.GetRelation t ot rel = Inr r"
    and l: "l \<in> leaves (rel_rewrite r)"
  shows "leaf_defined t ot rel (rel_types r) l"
proof -
  note schema = NewAndValidate_cases(2) [OF ok]
  note c = accepted_checks [OF accepted_relation [OF ok r]]
  note leaf = isUsersetRewriteValid_leaves(1) [OF schema c(1), where restrictions = "rel_types r"]
  have "Unset \<notin> leaves (rel_rewrite r)" using leaf [of Unset] by auto
  then have "IsDirectlyAssignable r = Some (This \<in> leaves (rel_rewrite r))"
    by (simp add: IsDirectlyAssignable_def RewriteContainsSelf_leaves)
  with c(2) r have "This \<in> leaves (rel_rewrite r) \<Longrightarrow> rel_types r \<noteq> []"
    by (auto simp: validateRelationTypes_def split: if_splits)
  with leaf [OF l] l show ?thesis by auto
qed

lemma accepted_restrictions:
  assumes ok: "NewAndValidate mk rv wt C model = Some (Inr t)" and r: "TypeSystem.GetRelation t ot rel = Inr r"
    and "ref \<in> set (rel_types r)"
  shows "restriction_defined t ref"
proof -
  have "related_types_loop t ot rel (rel_types r) = None"
    using accepted_checks(2) [OF accepted_relation [OF ok r]] r
    by (auto simp: validateRelationTypes_def split: option.splits if_splits)
  from related_types_loop_defined [OF this] assms(3) show ?thesis by blast
qed

lemma accepted_computes:
  assumes ok: "NewAndValidate mk rv wt C model = Some (Inr t)" and "(rel, x) \<in> (computes t ot)\<^sup>*"
    and "TypeSystem.GetRelation t ot rel = Inr r"
  shows "\<exists>r. TypeSystem.GetRelation t ot x = Inr r"
  using assms(2,3)
proof (induction rule: rtrancl_induct)
  case (step y z)
  then show ?case using accepted_leaves [OF ok] by (fastforce simp: computes_def computed_refs_leaves)
qed blast

text \<open>
  C32: every relation of a model that validation accepts is meaningful: some kind of user can get into it, it
  reaches no cycle of computed usersets, what its rewrite refers to is defined, its tuplesets are direct relations,
  direct assignment and type restrictions come together, and the restrictions name defined types, relations and
  conditions.
\<close>

theorem NewAndValidate_accepts:
  assumes "NewAndValidate NewAuthorizationModelGraph Reversed BuildWeighted C model = Some (Inr t)"
    and "TypeSystem.GetRelation t ot rel = Inr r"
  shows "entry t ot rel \<and>
    (\<forall>x. (rel, x) \<in> (computes t ot)\<^sup>* \<longrightarrow> (x, x) \<notin> (computes t ot)\<^sup>+) \<and>
    (\<forall>l\<in>leaves (rel_rewrite r). leaf_defined t ot rel (rel_types r) l) \<and>
    (\<forall>ref\<in>set (rel_types r). restriction_defined t ref)"
proof -
  note new = NewAndValidate_cases(1) [OF assms(1)]
  note c = accepted_checks [OF accepted_relation [OF assms]]
  have "entry t ot rel"
    using c(3) assms(2) by (auto simp: GetRelation_iff [OF new] dest!: hasEntrypoints_sound intro: entry_relation)
  moreover have "\<not> (\<exists>x. (rel, x) \<in> (computes t ot)\<^sup>* \<and> (x, x) \<in> (computes t ot)\<^sup>+)"
    using HasCycle_decides [of rel t ot] accepted_computes [OF assms(1) _ assms(2)] c(4) by auto
  ultimately show ?thesis using accepted_leaves [OF assms] accepted_restrictions [OF assms] by blast
qed

section \<open>Examples\<close>

abbreviation validate_example :: "authorization_model \<Rightarrow> (err, TypeSystem) result option" where
  "validate_example \<equiv> NewAndValidate (\<lambda>_. Inr example_graph) Inr (\<lambda>_. None) example_cel"

definition folder_model :: authorization_model where
  "folder_model =
     \<lparr>am_id = ''m'', am_schema_version = ''1.1'', am_type_definitions =
        [\<lparr>td_type = ''user'', td_relations = [], td_metadata = None\<rparr>,
         \<lparr>td_type = ''folder'', td_relations = [(''parent'', This), (''owner'', This),
            (''viewer'', Union [ComputedUserset ''owner'', TupleToUserset ''parent'' ''viewer''])],
          td_metadata = Some
            [(''parent'', \<lparr>directly_related_user_types = [DirectRelationReference ''folder'' []]\<rparr>),
             (''owner'', \<lparr>directly_related_user_types = [DirectRelationReference ''user'' []]\<rparr>)]\<rparr>],
      am_conditions = []\<rparr>"

definition folder_types :: TypeSystem where
  "folder_types = projr (the (validate_example folder_model))"

lemma folder_model_accepted: "validate_example folder_model = Some (Inr folder_types)"
proof -
  have "(case validate_example folder_model of Some (Inr t) \<Rightarrow> True | _ \<Rightarrow> False)" by code_simp
  then show ?thesis unfolding folder_types_def by (auto split: option.splits sum.splits)
qed

theorem NewAndValidate_accepts_witness: "entry folder_types ''folder'' ''viewer''"
proof -
  have "(case TypeSystem.GetRelation folder_types ''folder'' ''viewer'' of Inr r \<Rightarrow> True | _ \<Rightarrow> False)" by code_simp
  then obtain r where "TypeSystem.GetRelation folder_types ''folder'' ''viewer'' = Inr r" by (auto split: sum.splits)
  from NewAndValidate_accepts [OF folder_model_accepted this] show ?thesis by blast
qed

text \<open>
  A group whose members can be its writers and its readers; an editor is both, and an editor can edit.
\<close>

definition group_model :: authorization_model where
  "group_model =
     \<lparr>am_id = ''m'', am_schema_version = ''1.1'', am_type_definitions =
        [\<lparr>td_type = ''user'', td_relations = [], td_metadata = None\<rparr>,
         \<lparr>td_type = ''group'', td_relations = [(''member'', This), (''writer'', This), (''reader'', This),
            (''editor'', Intersection [ComputedUserset ''writer'', ComputedUserset ''reader'']), (''can_edit'', ComputedUserset ''editor'')],
          td_metadata = Some
            [(''member'', \<lparr>directly_related_user_types = [DirectRelationReference ''user'' []]\<rparr>),
             (''writer'', \<lparr>directly_related_user_types = [DirectRelationReference ''group'' ''member'']\<rparr>),
             (''reader'', \<lparr>directly_related_user_types = [DirectRelationReference ''group'' ''member'']\<rparr>)]\<rparr>],
      am_conditions = []\<rparr>"

definition group_types :: TypeSystem where
  "group_types = projr (NewTypeSystem (\<lambda>_. Inr example_graph) Inr (\<lambda>_. None) group_model)"

lemma group_relations:
  "map_of (relations_of group_types ''group'') ''member'' =
     Some \<lparr>rel_name = ''member'', rel_rewrite = This, rel_types = [DirectRelationReference ''user'' []]\<rparr>"
  "map_of (relations_of group_types ''group'') ''writer'' =
     Some \<lparr>rel_name = ''writer'', rel_rewrite = This, rel_types = [DirectRelationReference ''group'' ''member'']\<rparr>"
  "map_of (relations_of group_types ''group'') ''reader'' =
     Some \<lparr>rel_name = ''reader'', rel_rewrite = This, rel_types = [DirectRelationReference ''group'' ''member'']\<rparr>"
  "map_of (relations_of group_types ''group'') ''editor'' = Some \<lparr>rel_name = ''editor'',
     rel_rewrite = Intersection [ComputedUserset ''writer'', ComputedUserset ''reader''], rel_types = []\<rparr>"
  "map_of (relations_of group_types ''group'') ''can_edit'' =
     Some \<lparr>rel_name = ''can_edit'', rel_rewrite = ComputedUserset ''editor'', rel_types = []\<rparr>"
  by code_simp+

lemma group_entry: "entry group_types ''group'' ''can_edit''"
proof -
  have "entry_rewrite group_types ''group'' ''member'' This"
    by (rule entry_direct [OF group_relations(1), of "DirectRelationReference ''user'' []"])
       (simp_all add: DirectRelationReference_def)
  with group_relations(1) have member: "entry group_types ''group'' ''member''" by (simp add: entry_relation)
  have "entry_rewrite group_types ''group'' rel This"
    if "map_of (relations_of group_types ''group'') rel = Some r" "rel_types r = [DirectRelationReference ''group'' ''member'']"
    for rel r
    using entry_userset [OF that(1), of "DirectRelationReference ''group'' ''member''"] that(2) member
    by (simp add: DirectRelationReference_def rr_GetRelation_def)
  with group_relations(2,3) have "entry group_types ''group'' ''writer''" "entry group_types ''group'' ''reader''"
    by (simp_all add: entry_relation)
  then have "entry_rewrite group_types ''group'' ''editor'' (Intersection [ComputedUserset ''writer'', ComputedUserset ''reader''])"
    by (auto intro!: entry_inter entry_computed)
  with group_relations(4) have "entry group_types ''group'' ''editor''" by (simp add: entry_relation)
  then have "entry_rewrite group_types ''group'' ''can_edit'' (ComputedUserset ''editor'')" by (rule entry_computed)
  with group_relations(5) show ?thesis by (simp add: entry_relation)
qed

text \<open>
  C34: the converse does not hold: validation rejects a relation that has an entrypoint. The
  copies of the map of visited relations share their inner maps, so what one operand of an intersection visited is
  skipped, although it has an entrypoint, when the next operand reaches it. Whoever is a member of the group can be
  made its writer and its reader, but \<^verbatim>\<open>can_edit\<close> is reported to have no entrypoint.
\<close>

theorem hasEntrypoints_misses:
  "validate_example group_model = Some (Inl (InvalidRelationError ''group'' ''can_edit'' ErrNoEntrypoints)) \<and>
   entry group_types ''group'' ''can_edit''"
proof -
  have "(case validate_example group_model of
      Some (Inl e) \<Rightarrow> e = InvalidRelationError ''group'' ''can_edit'' ErrNoEntrypoints | _ \<Rightarrow> False)" by code_simp
  with group_entry show ?thesis by (auto split: option.splits sum.splits)
qed


end
