(* ===== verification/Tokens.thy ===== *)
theory Tokens
  imports Storage
begin

text \<open>
  Continuation tokens (\<^verbatim>\<open>pkg/encoder\<close>, \<^verbatim>\<open>pkg/encrypter\<close>): the serializer, the base64 and the token
  encoder, the encrypters. Of the Go library, \<^verbatim>\<open>base64.URLEncoding\<close> is written out; an AEAD cipher is
  given by its functions \<^verbatim>\<open>Seal\<close> and \<^verbatim>\<open>Open\<close>, and the bytes read from the random source are an argument.
\<close>

section \<open>Base64\<close>

definition base64_char :: "nat \<Rightarrow> char" where
  "base64_char n =
     (if n < 26 then char_of (65 + n) else if n < 52 then char_of (71 + n)
      else if n < 62 then char_of (n - 4) else if n = 62 then CHR ''-'' else CHR ''_'')"

definition base64_value :: "char \<Rightarrow> nat option" where
  "base64_value c =
     (let n = of_char c :: nat
      in if 65 \<le> n \<and> n \<le> 90 then Some (n - 65) else if 97 \<le> n \<and> n \<le> 122 then Some (n - 71)
         else if 48 \<le> n \<and> n \<le> 57 then Some (n + 4)
         else if c = CHR ''-'' then Some 62 else if c = CHR ''_'' then Some 63 else None)"

fun EncodeToString :: "string \<Rightarrow> string" where
  "EncodeToString [] = []"
| "EncodeToString [c1] =
     (let a = of_char c1 :: nat
      in [base64_char (a div 4), base64_char (a mod 4 * 16), CHR ''='', CHR ''=''])"
| "EncodeToString [c1, c2] =
     (let a = of_char c1 :: nat; b = of_char c2
      in [base64_char (a div 4), base64_char (a mod 4 * 16 + b div 16), base64_char (b mod 16 * 4), CHR ''=''])"
| "EncodeToString (c1 # c2 # c3 # cs) =
     (let a = of_char c1 :: nat; b = of_char c2; c = of_char c3
      in base64_char (a div 4) # base64_char (a mod 4 * 16 + b div 16) #
         base64_char (b mod 16 * 4 + c div 64) # base64_char (c mod 64) # EncodeToString cs)"

definition CorruptInputError :: err where
  "CorruptInputError = ErrText ''illegal base64 data at input byte''"

text \<open>Four characters at a time; padding is only allowed at the end. Bits that padding leaves over are ignored.\<close>

fun decode_quanta :: "string \<Rightarrow> (err, string) result" where
  "decode_quanta [] = Inr []"
| "decode_quanta (c1 # c2 # c3 # c4 # cs) =
     (case (base64_value c1, base64_value c2) of
        (Some a, Some b) \<Rightarrow>
          if c3 = CHR ''='' \<and> c4 = CHR ''='' \<and> cs = [] then Inr [char_of (a * 4 + b div 16)]
          else (case base64_value c3 of
                  None \<Rightarrow> Inl CorruptInputError
                | Some c \<Rightarrow>
                    if c4 = CHR ''='' \<and> cs = []
                    then Inr [char_of (a * 4 + b div 16), char_of (b mod 16 * 16 + c div 4)]
                    else (case base64_value c4 of
                            None \<Rightarrow> Inl CorruptInputError
                          | Some d \<Rightarrow>
                              (case decode_quanta cs of
                                 Inl e \<Rightarrow> Inl e
                               | Inr out \<Rightarrow> Inr (char_of (a * 4 + b div 16) # char_of (b mod 16 * 16 + c div 4) #
                                                 char_of (c mod 4 * 64 + d) # out))))
      | _ \<Rightarrow> Inl CorruptInputError)"
| "decode_quanta _ = Inl CorruptInputError"

definition DecodeString :: "string \<Rightarrow> (err, string) result" where
  "DecodeString s = decode_quanta (filter (\<lambda>c. c \<noteq> CHR 0x0A \<and> c \<noteq> CHR 0x0D) s)"

section \<open>Encoders and encrypters\<close>

record Encoder =
  Decode :: "string \<Rightarrow> (err, string) result"
  Encode :: "string \<Rightarrow> (err, string) result"

definition Base64Encoder :: Encoder where
  "Base64Encoder = \<lparr>Decode = DecodeString, Encode = (\<lambda>data. Inr (EncodeToString data))\<rparr>"

definition NoopEncoder :: Encoder where
  "NoopEncoder = \<lparr>Decode = Inr, Encode = Inr\<rparr>"

record Encrypter =
  Decrypt :: "string \<Rightarrow> (err, string) result"
  Encrypt :: "string \<Rightarrow> (err, string) result"

definition NoopEncrypter :: Encrypter where
  "NoopEncrypter = \<lparr>Decrypt = Inr, Encrypt = Inr\<rparr>"

text \<open>A \<^verbatim>\<open>cipher.AEAD\<close>, and \<^verbatim>\<open>io.ReadFull(rand.Reader, nonce)\<close> for a nonce of the given size.\<close>

record AEAD =
  NonceSize :: nat
  Seal :: "string \<Rightarrow> string \<Rightarrow> string"
  Open :: "string \<Rightarrow> string \<Rightarrow> (err, string) result"

type_synonym random_source = "nat \<Rightarrow> (err, string) result"

definition GCM_Decrypt :: "AEAD \<Rightarrow> string \<Rightarrow> (err, string) result" where
  "GCM_Decrypt cipherMode data =
     (if data = [] then Inr data
      else let nonceSize = NonceSize cipherMode
           in if length data < nonceSize then Inl (ErrText ''ciphertext too short'')
              else Open cipherMode (take nonceSize data) (drop nonceSize data))"

definition GCM_Encrypt :: "AEAD \<Rightarrow> random_source \<Rightarrow> string \<Rightarrow> (err, string) result" where
  "GCM_Encrypt cipherMode rand data =
     (if data = [] then Inr data
      else (case rand (NonceSize cipherMode) of
              Inl e \<Rightarrow> Inl e
            | Inr nonce \<Rightarrow> Inr (nonce @ Seal cipherMode nonce data)))"

definition GCMEncrypter :: "AEAD \<Rightarrow> random_source \<Rightarrow> Encrypter" where
  "GCMEncrypter cipherMode rand = \<lparr>Decrypt = GCM_Decrypt cipherMode, Encrypt = GCM_Encrypt cipherMode rand\<rparr>"

definition TokenEncoder :: "Encrypter \<Rightarrow> Encoder \<Rightarrow> Encoder" where
  "TokenEncoder encrypter encoder =
     \<lparr>Decode = (\<lambda>s. case Decode encoder s of Inl e \<Rightarrow> Inl e | Inr decoded \<Rightarrow> Decrypt encrypter decoded),
      Encode = (\<lambda>data. case Encrypt encrypter data of Inl e \<Rightarrow> Inl e | Inr encrypted \<Rightarrow> Encode encoder encrypted)\<rparr>"

section \<open>The serializer\<close>

definition Serialize :: "string \<Rightarrow> string \<Rightarrow> (err, string) result" where
  "Serialize ulid objType =
     (if ulid = [] then Inl (ErrText ''empty ulid provided for continuation token'')
      else Inr (ulid @ ''|'' @ objType))"

text \<open>\<^verbatim>\<open>strings.Split\<close> for a separator of one byte.\<close>

fun Split :: "string \<Rightarrow> char \<Rightarrow> string list" where
  "Split [] sep = [[]]"
| "Split (c # cs) sep =
     (if c = sep then [] # Split cs sep else (c # hd (Split cs sep)) # tl (Split cs sep))"

definition Deserialize :: "string \<Rightarrow> (err, string \<times> string) result" where
  "Deserialize continuationToken =
     (if CHR ''|'' \<notin> set continuationToken then Inl ErrInvalidContinuationToken
      else let tokenParts = Split continuationToken (CHR ''|'') in Inr (tokenParts ! 0, tokenParts ! 1))"

section \<open>Round trips\<close>

lemma base64_value_char [simp]: "n < 64 \<Longrightarrow> base64_value (base64_char n) = Some n"
  by (auto simp: base64_value_def base64_char_def Let_def of_char_of split: if_splits)

lemma base64_value_None: "base64_value (CHR ''='') = None" "base64_value (CHR 0x0A) = None" "base64_value (CHR 0x0D) = None"
  by (simp_all add: base64_value_def Let_def)

lemma base64_chars [simp]:
  assumes "n < 64"
  shows "base64_char n \<noteq> CHR ''=''" and "base64_char n \<noteq> CHR 0x0A" and "base64_char n \<noteq> CHR 0x0D"
  using base64_value_char [OF assms] base64_value_None by auto

lemma byte_div: "of_char c div 4 < (64::nat)" "of_char c div 16 < (16::nat)" "of_char c div 64 < (4::nat)"
proof -
  have "of_char c < (256::nat)" by simp
  then show "of_char c div 4 < (64::nat)" "of_char c div 16 < (16::nat)" "of_char c div 64 < (4::nat)"
    by (simp_all add: less_mult_imp_div_less)
qed

lemma byte_bounds [simp]:
  "of_char c div 4 < (64::nat)" "of_char c mod 4 * 16 + of_char d div 16 < (64::nat)"
  "of_char c mod 16 * 4 + of_char d div 64 < (64::nat)" "of_char c mod 64 < (64::nat)"
  "of_char c mod 4 * 16 < (64::nat)" "of_char c mod 16 * 4 < (64::nat)"
proof -
  have "of_char c mod 4 < (4::nat)" "of_char c mod 16 < (16::nat)" by simp_all
  with byte_div [of d] show "of_char c mod 4 * 16 + of_char d div 16 < (64::nat)"
    "of_char c mod 16 * 4 + of_char d div 64 < (64::nat)" "of_char c mod 4 * 16 < (64::nat)" "of_char c mod 16 * 4 < (64::nat)"
    by linarith+
qed (simp_all add: byte_div)

lemma decode_EncodeToString: "decode_quanta (EncodeToString s) = Inr s"
  by (induction s rule: EncodeToString.induct)
     (simp_all add: Let_def byte_div)

lemma EncodeToString_no_newline: "c \<in> set (EncodeToString s) \<Longrightarrow> c \<noteq> CHR 0x0A \<and> c \<noteq> CHR 0x0D"
  by (induction s rule: EncodeToString.induct) (auto simp: Let_def)

lemma DecodeString_EncodeToString [simp]: "DecodeString (EncodeToString s) = Inr s"
proof -
  have "filter (\<lambda>c. c \<noteq> CHR 0x0A \<and> c \<noteq> CHR 0x0D) (EncodeToString s) = EncodeToString s"
    using EncodeToString_no_newline by (simp add: filter_id_conv)
  then show ?thesis by (simp add: DecodeString_def decode_EncodeToString)
qed

lemma DecodeString_Nil [simp]: "DecodeString [] = Inr []"
  by (simp add: DecodeString_def)

lemma Split_append: "sep \<notin> set xs \<Longrightarrow> Split (xs @ sep # ys) sep = xs # Split ys sep"
  by (induction xs) auto

lemma Split_hd: "hd (Split ys sep) = takeWhile (\<lambda>c. c \<noteq> sep) ys"
  by (induction ys) auto

lemma Split_not_Nil [simp]: "Split ys sep \<noteq> []"
  by (cases ys) auto

lemma Deserialize_Serialize:
  assumes "Serialize ulid objType = Inr token" and "CHR ''|'' \<notin> set ulid"
  shows "Deserialize token = Inr (ulid, takeWhile (\<lambda>c. c \<noteq> CHR ''|'') objType)"
  using assms Split_append [of "CHR ''|''" ulid objType] Split_hd [of objType "CHR ''|''"]
  by (auto simp: Serialize_def Deserialize_def Let_def hd_conv_nth split: if_splits)

lemma takeWhile_id_iff: "takeWhile (\<lambda>c. c \<noteq> x) xs = xs \<longleftrightarrow> x \<notin> set xs"
  by (induction xs) auto

text \<open>
  An encoder that gives back what it encoded: what the commands rely on. The empty token, with which a client
  starts, decodes to itself.
\<close>

locale token_encoder =
  fixes enc :: Encoder
  assumes Decode_Encode: "Encode enc data = Inr s \<Longrightarrow> Decode enc s = Inr data"
    and Decode_empty: "Decode enc [] = Inr []"
begin

lemma token_round_trip:
  assumes "Serialize ulid objType = Inr token" and "Encode enc token = Inr s"
    and "CHR ''|'' \<notin> set ulid" and "CHR ''|'' \<notin> set objType"
  shows "Decode enc s = Inr token \<and> Deserialize token = Inr (ulid, objType)"
  using Decode_Encode [OF assms(2)] Deserialize_Serialize [OF assms(1,3)] assms(4)
  by (metis takeWhile_id_iff)

end

interpretation base64: token_encoder Base64Encoder
  by unfold_locales (auto simp: Base64Encoder_def)

interpretation noop: token_encoder NoopEncoder
  by unfold_locales (auto simp: NoopEncoder_def)

text \<open>
  What is relied on of an AEAD cipher: \<^verbatim>\<open>Open\<close> with the same nonce inverts \<^verbatim>\<open>Seal\<close>, and the ciphertext of
  something is not empty.
\<close>

definition opens_sealed :: "AEAD \<Rightarrow> bool" where
  "opens_sealed cipherMode \<longleftrightarrow>
     (\<forall>nonce data. length nonce = NonceSize cipherMode \<longrightarrow>
        Open cipherMode nonce (Seal cipherMode nonce data) = Inr data \<and> Seal cipherMode nonce data \<noteq> [])"

lemma GCM_token_encoder:
  assumes cipher: "opens_sealed cipherMode" and rand: "\<forall>n nonce. rand n = Inr nonce \<longrightarrow> length nonce = n"
  shows "token_encoder (TokenEncoder (GCMEncrypter cipherMode rand) Base64Encoder)"
proof
  fix data s
  assume "Encode (TokenEncoder (GCMEncrypter cipherMode rand) Base64Encoder) data = Inr s"
  then obtain encrypted where e: "GCM_Encrypt cipherMode rand data = Inr encrypted" "s = EncodeToString encrypted"
    by (auto simp: TokenEncoder_def GCMEncrypter_def Base64Encoder_def split: sum.splits)
  have "GCM_Decrypt cipherMode encrypted = Inr data"
    using e(1) cipher rand
    by (auto simp: GCM_Encrypt_def GCM_Decrypt_def opens_sealed_def Let_def split: if_splits sum.splits)
  with e(2) show "Decode (TokenEncoder (GCMEncrypter cipherMode rand) Base64Encoder) s = Inr data"
    by (simp add: TokenEncoder_def GCMEncrypter_def Base64Encoder_def)
qed (simp add: TokenEncoder_def GCMEncrypter_def Base64Encoder_def GCM_Decrypt_def)

text \<open>
  C39: what the server puts into a continuation token comes back when a client returns the token: serialized,
  encrypted with a fresh nonce and base64-encoded, it decodes, decrypts and deserializes to the same position and
  type, as long as neither contains the separator.
\<close>

theorem continuation_token_roundtrip:
  assumes "opens_sealed cipherMode" and "\<forall>n nonce. rand n = Inr nonce \<longrightarrow> length nonce = n"
    and "enc = TokenEncoder (GCMEncrypter cipherMode rand) Base64Encoder"
    and "Serialize ulid objType = Inr token" and "Encode enc token = Inr s"
    and "CHR ''|'' \<notin> set ulid" and "CHR ''|'' \<notin> set objType"
  shows "Decode enc s = Inr token \<and> Deserialize token = Inr (ulid, objType)"
  using token_encoder.token_round_trip [OF GCM_token_encoder [OF assms(1,2)]] assms(3-7) by blast

definition example_cipher :: AEAD where
  "example_cipher = \<lparr>NonceSize = 2, Seal = (\<lambda>nonce data. hd nonce # rev data),
     Open = (\<lambda>nonce data. if data \<noteq> [] \<and> hd data = hd nonce then Inr (rev (tl data)) else Inl (ErrText ''authentication failed''))\<rparr>"

theorem continuation_token_roundtrip_witness:
  "let enc = TokenEncoder (GCMEncrypter example_cipher (\<lambda>n. Inr (replicate n (CHR ''n'')))) Base64Encoder
   in Encode enc ''42|doc'' = Inr ''bm5uY29kfDI0'' \<and> Decode enc ''bm5uY29kfDI0'' = Inr ''42|doc'' \<and>
      Deserialize ''42|doc'' = Inr (''42'', ''doc'')"
proof -
  let ?enc = "TokenEncoder (GCMEncrypter example_cipher (\<lambda>n. Inr (replicate n (CHR ''n'')))) Base64Encoder"
  have "opens_sealed example_cipher" by (simp add: opens_sealed_def example_cipher_def)
  moreover have "Serialize ''42'' ''doc'' = Inr ''42|doc''" by (simp add: Serialize_def)
  moreover have "replicate 2 (CHR ''n'') = ''nn''" by (simp add: numeral_2_eq_2)
  then have e: "Encode ?enc ''42|doc'' = Inr ''bm5uY29kfDI0''"
    by (simp add: TokenEncoder_def GCMEncrypter_def Base64Encoder_def GCM_Encrypt_def example_cipher_def
        base64_char_def Let_def char_of_def bit_0)
  ultimately show ?thesis
    using e continuation_token_roundtrip [of example_cipher "\<lambda>n. Inr (replicate n (CHR ''n''))" ?enc "''42''" "''doc''" "''42|doc''" "''bm5uY29kfDI0''"]
    by (auto simp: Let_def Deserialize_def)
qed

end
