(* ===== verification/ServerErrors.thy ===== *)
theory ServerErrors
  imports Storage
begin

text \<open>
  The errors that clients see (\<^verbatim>\<open>pkg/server/errors/errors.go\<close>, \<^verbatim>\<open>pkg/server/commands/errors.go\<close>). A status
  has a code and a message; where the message is the text of another error, that error stands for it.
  \<open>Plain\<close> is an error that a command passes on unchanged.
\<close>

datatype status_code =
    authorization_model_resolution_too_complex
  | invalid_write_input
  | invalid_continuation_token
  | invalid_start_time
  | invalid_expand_input
  | unsupported_user_set
  | store_id_not_found
  | query_string_type_continuation_token_mismatch
  | cancelled
  | deadline_exceeded
  | throttled_timeout_error
  | ResourceExhausted
  | Aborted
  | validation_error
  | authorization_model_assertions_not_found
  | authorization_model_not_found
  | latest_authorization_model_not_found
  | type_not_found
  | relation_not_found
  | exceeded_entity_limit
  | cannot_allow_duplicate_tuples_in_one_request
  | write_failed_due_to_invalid_input
  | invalid_authorization_model
  | invalid_tuple
  | internal_error
  | forbidden
  | InvalidArgument

datatype server_error =
    Status status_code err
  | InternalError string err
  | Plain err

section \<open>Sentinels\<close>

definition ErrAuthorizationModelResolutionTooComplex :: server_error where
  "ErrAuthorizationModelResolutionTooComplex = Status authorization_model_resolution_too_complex
     (ErrText ''Authorization Model resolution required too many rewrite rules to be resolved. Check your authorization model for infinite recursion or too much nesting'')"

definition server_ErrInvalidWriteInput :: server_error where
  "server_ErrInvalidWriteInput = Status invalid_write_input
     (ErrText ''Invalid input. Make sure you provide at least one write, or at least one delete'')"

definition server_ErrInvalidContinuationToken :: server_error where
  "server_ErrInvalidContinuationToken = Status invalid_continuation_token (ErrText ''Invalid continuation token'')"

definition server_ErrInvalidStartTime :: server_error where
  "server_ErrInvalidStartTime = Status invalid_start_time (ErrText ''Invalid start time'')"

definition ErrInvalidExpandInput :: server_error where
  "ErrInvalidExpandInput = Status invalid_expand_input
     (ErrText ''Invalid input. Make sure you provide an object and a relation'')"

definition ErrUnsupportedUserSet :: server_error where
  "ErrUnsupportedUserSet = Status unsupported_user_set (ErrText ''Userset is not supported (right now)'')"

definition ErrStoreIDNotFound :: server_error where
  "ErrStoreIDNotFound = Status store_id_not_found (ErrText ''Store ID not found'')"

definition ErrMismatchObjectType :: server_error where
  "ErrMismatchObjectType = Status query_string_type_continuation_token_mismatch
     (ErrText ''The type in the querystring and the continuation token do not match'')"

definition ErrRequestCancelled :: server_error where
  "ErrRequestCancelled = Status cancelled (ErrText ''Request Cancelled'')"

definition ErrRequestDeadlineExceeded :: server_error where
  "ErrRequestDeadlineExceeded = Status deadline_exceeded (ErrText ''Request Deadline Exceeded'')"

definition ErrThrottledTimeout :: server_error where
  "ErrThrottledTimeout = Status throttled_timeout_error (ErrText ''timeout due to throttling on complex request'')"

definition server_ErrTransactionThrottled :: server_error where
  "server_ErrTransactionThrottled = Status ResourceExhausted (ErrText ''transaction was throttled by the datastore'')"

section \<open>Constructors\<close>

definition NewInternalError :: "string \<Rightarrow> err \<Rightarrow> server_error" where
  "NewInternalError public internal = InternalError (if public = [] then ''Internal Server Error'' else public) internal"

definition ValidationError :: "err \<Rightarrow> server_error" where
  "ValidationError cause = Status validation_error cause"

definition AuthorizationModelNotFound :: "string \<Rightarrow> server_error" where
  "AuthorizationModelNotFound modelID =
     Status authorization_model_not_found (ErrText (''Authorization Model '' @ modelID @ '' not found''))"

definition LatestAuthorizationModelNotFound :: "string \<Rightarrow> server_error" where
  "LatestAuthorizationModelNotFound store =
     Status latest_authorization_model_not_found (ErrText (''No authorization models found for store '' @ store))"

definition TypeNotFound :: "string \<Rightarrow> server_error" where
  "TypeNotFound objectType = Status type_not_found (TypeNotFoundError objectType)"

definition RelationNotFound :: "string \<Rightarrow> string \<Rightarrow> tuple_key option \<Rightarrow> server_error" where
  "RelationNotFound rel objectType tk = Status relation_not_found (RelationNotFoundError tk rel objectType)"

definition ExceededEntityLimit :: "string \<Rightarrow> int \<Rightarrow> server_error" where
  "ExceededEntityLimit entity limit =
     Status exceeded_entity_limit
       (ErrText (''The number of '' @ entity @ '' exceeds the allowed limit of '' @ Itoa limit))"

definition DuplicateTupleInWrite :: "'a tuple_key_nc_scheme \<Rightarrow> server_error" where
  "DuplicateTupleInWrite tk =
     Status cannot_allow_duplicate_tuples_in_one_request
       (ErrText (''duplicate tuple in write: user: '' @ tk_user tk @ '', relation: '' @ tk_relation tk @
          '', object: '' @ tk_object tk))"

definition WriteFailedDueToInvalidInput :: "err \<Rightarrow> server_error" where
  "WriteFailedDueToInvalidInput e = Status write_failed_due_to_invalid_input e"

definition InvalidAuthorizationModelInput :: "err \<Rightarrow> server_error" where
  "InvalidAuthorizationModelInput e = Status invalid_authorization_model e"

section \<open>Translation\<close>

definition HandleError :: "string \<Rightarrow> err \<Rightarrow> server_error" where
  "HandleError public e =
     (if errors_Is e ErrTransactionThrottled then server_ErrTransactionThrottled
      else if errors_Is e Canceled then ErrRequestCancelled
      else if errors_Is e DeadlineExceeded then ErrRequestDeadlineExceeded
      else if errors_Is e ErrInvalidStartTime then server_ErrInvalidStartTime
      else if errors_Is e ErrInvalidContinuationToken then server_ErrInvalidContinuationToken
      else NewInternalError public e)"

definition HandleTupleValidateError :: "err \<Rightarrow> server_error" where
  "HandleTupleValidateError e =
     (case e of
        InvalidTupleError cause tk \<Rightarrow> Status invalid_tuple (InvalidTupleError cause tk)
      | TypeNotFoundError typeName \<Rightarrow> TypeNotFound typeName
      | RelationNotFoundError tk rel typeName \<Rightarrow> RelationNotFound rel typeName tk
      | InvalidConditionalTupleError cause tk \<Rightarrow> Status validation_error e
      | _ \<Rightarrow> HandleError [] e)"

text \<open>The errors of the check command: wrapped in one of the types of package \<^verbatim>\<open>commands\<close>, or not.\<close>

datatype command_error =
    CommandInvalidTupleError err
  | CommandInvalidRelationError err
  | ThrottledError err
  | CommandError err

fun command_cause :: "command_error \<Rightarrow> err" where
  "command_cause (CommandInvalidTupleError e) = e"
| "command_cause (CommandInvalidRelationError e) = e"
| "command_cause (ThrottledError e) = e"
| "command_cause (CommandError e) = e"

definition CheckCommandErrorToServerError :: "command_error \<Rightarrow> server_error" where
  "CheckCommandErrorToServerError ce =
     (let e = command_cause ce
      in case ce of
           CommandInvalidRelationError _ \<Rightarrow> ValidationError e
         | CommandInvalidTupleError _ \<Rightarrow>
             HandleTupleValidateError (InvalidTupleError e (NewTupleKey [] [] []))
         | _ \<Rightarrow>
             if errors_Is e ErrResolutionDepthExceeded then ErrAuthorizationModelResolutionTooComplex
             else if errors_Is e ErrEvaluationFailed then ValidationError e
             else (case ce of
                     ThrottledError _ \<Rightarrow> ErrThrottledTimeout
                   | _ \<Rightarrow> if errors_Is e DeadlineExceeded then ErrRequestDeadlineExceeded
                          else HandleError [] e))"

end
