(* ===== verification/Commands.thy ===== *)
theory Commands
  imports Memory ModelValidation Tokens ServerErrors
begin

text \<open>
  The commands behind the API methods that read and write stores (\<^verbatim>\<open>pkg/server/commands\<close>). A datastore is
  the record of its operations over an opaque state; an operation that changes the state returns the new one, and
  a failed one leaves it as it was. An outer \<open>None\<close> is a panic of the code below. The functions of other packages
  that the commands call are the record \<open>library\<close>.
\<close>

section \<open>Datastores and libraries\<close>

record 's OpenFGADatastore =
  ds_MaxTuplesPerWrite :: "'s \<Rightarrow> int"
  ds_MaxTypesPerAuthorizationModel :: "'s \<Rightarrow> int"
  ds_Write :: "'s \<Rightarrow> string \<Rightarrow> tuple_key_nc list \<Rightarrow> tuple_key list \<Rightarrow> (err, 's) result"
  ds_ReadPage :: "'s \<Rightarrow> string \<Rightarrow> tuple_key \<Rightarrow> PaginationOptions \<Rightarrow> (err, tuple list \<times> string) result option"
  ds_ReadChanges :: "'s \<Rightarrow> string \<Rightarrow> ReadChangesFilter \<Rightarrow> ReadChangesOptions \<Rightarrow> (err, tuple_change list \<times> string) result"
  ds_ReadAuthorizationModel :: "'s \<Rightarrow> string \<Rightarrow> string \<Rightarrow> (err, authorization_model) result"
  ds_ReadAuthorizationModels :: "'s \<Rightarrow> string \<Rightarrow> PaginationOptions \<Rightarrow> (err, authorization_model list \<times> string) result option"
  ds_FindLatestAuthorizationModel :: "'s \<Rightarrow> string \<Rightarrow> (err, authorization_model) result"
  ds_WriteAuthorizationModel :: "'s \<Rightarrow> string \<Rightarrow> authorization_model \<Rightarrow> (err, 's) result"
  ds_CreateStore :: "'s \<Rightarrow> store \<Rightarrow> (err, store \<times> 's) result"
  ds_DeleteStore :: "'s \<Rightarrow> string \<Rightarrow> (err, 's) result"
  ds_GetStore :: "'s \<Rightarrow> string \<Rightarrow> (err, store) result"
  ds_ListStores :: "'s \<Rightarrow> ListStoresOptions \<Rightarrow> (err, store list \<times> string) result option"
  ds_WriteAssertions :: "'s \<Rightarrow> string \<Rightarrow> string \<Rightarrow> assertion list \<Rightarrow> (err, 's) result"
  ds_ReadAssertions :: "'s \<Rightarrow> string \<Rightarrow> string \<Rightarrow> (err, assertion list) result"

text \<open>The in-memory datastore at one moment: the clock and the next ULIDs are given.\<close>

definition memory_datastore ::
  "(string \<Rightarrow> ulid option) \<Rightarrow> (ulid \<Rightarrow> string) \<Rightarrow> int \<Rightarrow> (nat \<Rightarrow> ulid) \<Rightarrow> ctx \<Rightarrow> MemoryBackend OpenFGADatastore" where
  "memory_datastore ulid_Parse ulid_String now mk c =
     \<lparr>ds_MaxTuplesPerWrite = mb_maxTuplesPerWrite,
      ds_MaxTypesPerAuthorizationModel = mb_maxTypesPerAuthorizationModel,
      ds_Write = Write ulid_String now mk,
      ds_ReadPage = ReadPage c,
      ds_ReadChanges = ReadChanges ulid_Parse ulid_String now,
      ds_ReadAuthorizationModel = ReadAuthorizationModel,
      ds_ReadAuthorizationModels = ReadAuthorizationModels,
      ds_FindLatestAuthorizationModel = FindLatestAuthorizationModel,
      ds_WriteAuthorizationModel = (\<lambda>s store model. Inr (WriteAuthorizationModel s store model)),
      ds_CreateStore = CreateStore now,
      ds_DeleteStore = (\<lambda>s i. Inr (DeleteStore s i)),
      ds_GetStore = GetStore,
      ds_ListStores = ListStores,
      ds_WriteAssertions = (\<lambda>s store modelID asserts. Inr (WriteAssertions s store modelID asserts)),
      ds_ReadAssertions = (\<lambda>s store modelID. Inr (ReadAssertions s store modelID))\<rparr>"

text \<open>
  \<^verbatim>\<open>proto.Size\<close> of contexts, assertions and models, the graphs of the language package, the parsers of conditions
  and the expression language.
\<close>

record 'c library =
  lib_NewAuthorizationModelGraph :: "authorization_model \<Rightarrow> (err, AuthorizationModelGraph) result"
  lib_Reversed :: "AuthorizationModelGraph \<Rightarrow> (err, AuthorizationModelGraph) result"
  lib_BuildWeighted :: "authorization_model \<Rightarrow> WeightedGraph option"
  lib_stdlib :: stdlib
  lib_CEL :: "'c CEL"
  lib_context_Size :: "pstruct option \<Rightarrow> int"
  lib_assertion_Size :: "assertion \<Rightarrow> int"
  lib_model_Size :: "authorization_model \<Rightarrow> int"

abbreviation lib_New :: "'c library \<Rightarrow> authorization_model \<Rightarrow> (err, TypeSystem) result" where
  "lib_New L \<equiv> NewTypeSystem (lib_NewAuthorizationModelGraph L) (lib_Reversed L) (lib_BuildWeighted L)"

abbreviation lib_NewAndValidate :: "'c library \<Rightarrow> authorization_model \<Rightarrow> (err, TypeSystem) result option" where
  "lib_NewAndValidate L \<equiv>
     NewAndValidate (lib_NewAuthorizationModelGraph L) (lib_Reversed L) (lib_BuildWeighted L) (lib_CEL L)"

section \<open>Writing tuples\<close>

record 's WriteCommand =
  wc_datastore :: "'s OpenFGADatastore"
  wc_conditionContextByteLimit :: int

record WriteRequest =
  wr_store_id :: string
  wr_authorization_model_id :: string
  wr_deletes :: "tuple_key_nc list"
  wr_writes :: "tuple_key list"

definition validateNotImplicit :: "tuple_key \<Rightarrow> server_error option" where
  "validateNotImplicit tk =
     (let (userObject, userRelation) = SplitObjectRelation (tk_user tk)
      in if tk_relation tk = userRelation \<and> tk_object tk = userObject
         then Some (ValidationError (InvalidTupleError (ErrText ''cannot write a tuple that is implicit'') tk))
         else None)"

fun check_duplicates :: "'a tuple_key_nc_scheme list \<Rightarrow> string set \<Rightarrow> (server_error, string set) result" where
  "check_duplicates [] tuples = Inr tuples"
| "check_duplicates (tk # tks) tuples =
     (let key = TupleKeyToString tk
      in if key \<in> tuples then Inl (DuplicateTupleInWrite tk) else check_duplicates tks (insert key tuples))"

definition validateNoDuplicatesAndCorrectSize :: "int \<Rightarrow> tuple_key_nc list \<Rightarrow> tuple_key list \<Rightarrow> server_error option" where
  "validateNoDuplicatesAndCorrectSize maxTuplesPerWrite deletes writes =
     (case check_duplicates deletes {} of
        Inl e \<Rightarrow> Some e
      | Inr tuples \<Rightarrow>
          (case check_duplicates writes tuples of
             Inl e \<Rightarrow> Some e
           | Inr tuples \<Rightarrow>
               if int (card tuples) > maxTuplesPerWrite
               then Some (ExceededEntityLimit ''write operations'' maxTuplesPerWrite) else None))"

fun validate_written :: "'c library \<Rightarrow> int \<Rightarrow> TypeSystem \<Rightarrow> tuple_key list \<Rightarrow> server_error option option" where
  "validate_written L limit typesys [] = Some None"
| "validate_written L limit typesys (tk # tks) =
     (case ValidateTupleForWrite (lib_stdlib L) typesys tk of
        None \<Rightarrow> None
      | Some (Some e) \<Rightarrow> Some (Some (ValidationError e))
      | Some None \<Rightarrow>
          (case validateNotImplicit tk of
             Some e \<Rightarrow> Some (Some e)
           | None \<Rightarrow>
               if lib_context_Size L (GetConditionContext (tk_condition tk)) > limit
               then Some (Some (ValidationError (InvalidTupleError (ErrText ''condition context size limit exceeded'') tk)))
               else validate_written L limit typesys tks))"

fun validate_deleted :: "tuple_key_nc list \<Rightarrow> server_error option" where
  "validate_deleted [] = None"
| "validate_deleted (tk # tks) =
     (if \<not> IsValidUser (tk_user tk)
      then Some (ValidationError (InvalidTupleError (ErrText ''the user field is malformed'')
                   (TupleKeyWithoutConditionToTupleKey tk)))
      else validate_deleted tks)"

definition validateWriteRequest :: "'c library \<Rightarrow> 's WriteCommand \<Rightarrow> 's \<Rightarrow> WriteRequest \<Rightarrow> server_error option option" where
  "validateWriteRequest L cmd s req =
     (let store = wr_store_id req; modelID = wr_authorization_model_id req;
          deletes = wr_deletes req; writes = wr_writes req;
          rest = (case validate_deleted deletes of
                    Some e \<Rightarrow> Some (Some e)
                  | None \<Rightarrow> Some (validateNoDuplicatesAndCorrectSize (ds_MaxTuplesPerWrite (wc_datastore cmd) s) deletes writes))
      in if deletes = [] \<and> writes = [] then Some (Some server_ErrInvalidWriteInput)
         else if writes \<noteq> []
         then (case ds_ReadAuthorizationModel (wc_datastore cmd) s store modelID of
                 Inl e \<Rightarrow> Some (Some (if errors_Is e ErrNotFound then AuthorizationModelNotFound modelID
                                    else HandleError [] e))
               | Inr authModel \<Rightarrow>
                   if \<not> IsSchemaVersionSupported (am_schema_version authModel)
                   then Some (Some (ValidationError ErrInvalidSchemaVersion))
                   else (case lib_New L authModel of
                           Inl e \<Rightarrow> Some (Some (Plain e))
                         | Inr typesys \<Rightarrow>
                             (case validate_written L (wc_conditionContextByteLimit cmd) typesys writes of
                                None \<Rightarrow> None
                              | Some (Some e) \<Rightarrow> Some (Some e)
                              | Some None \<Rightarrow> rest)))
         else rest)"

definition WriteCommand_Execute :: "'c library \<Rightarrow> 's WriteCommand \<Rightarrow> 's \<Rightarrow> WriteRequest \<Rightarrow> (server_error, 's) result option" where
  "WriteCommand_Execute L cmd s req =
     (case validateWriteRequest L cmd s req of
        None \<Rightarrow> None
      | Some (Some e) \<Rightarrow> Some (Inl e)
      | Some None \<Rightarrow>
          (case ds_Write (wc_datastore cmd) s (wr_store_id req) (wr_deletes req) (wr_writes req) of
             Inr s' \<Rightarrow> Some (Inr s')
           | Inl e \<Rightarrow>
               Some (Inl (if errors_Is e ErrTransactionalWriteFailed then Status Aborted e
                          else if errors_Is e ErrInvalidWriteInput then WriteFailedDueToInvalidInput e
                          else HandleError [] e))))"
section \<open>Reading tuples and changes\<close>

text \<open>A page of results with the token for the next one.\<close>

record 'a page =
  pg_items :: "'a list"
  pg_continuation_token :: string

record ReadRequest =
  rdr_store_id :: string
  rdr_tuple_key :: "tuple_key_nc option"
  rdr_page_size :: int
  rdr_continuation_token :: string

definition encode_token :: "Encoder \<Rightarrow> string \<Rightarrow> string \<Rightarrow> 'a list \<Rightarrow> (server_error, 'a page) result" where
  "encode_token enc contUlid objType items =
     (if contUlid = [] then Inr \<lparr>pg_items = items, pg_continuation_token = []\<rparr>
      else (case Serialize contUlid objType of
              Inl e \<Rightarrow> Inl (HandleError [] e)
            | Inr contToken \<Rightarrow>
                (case Encode enc contToken of
                   Inl e \<Rightarrow> Inl (HandleError [] e)
                 | Inr encodedContToken \<Rightarrow> Inr \<lparr>pg_items = items, pg_continuation_token = encodedContToken\<rparr>)))"

definition ReadQuery_Execute :: "Encoder \<Rightarrow> 's OpenFGADatastore \<Rightarrow> 's \<Rightarrow> ReadRequest \<Rightarrow> (server_error, tuple page) result option" where
  "ReadQuery_Execute enc ds s req =
     (let tk = (case rdr_tuple_key req of None \<Rightarrow> \<lparr>tk_object = [], tk_relation = [], tk_user = []\<rparr> | Some tk \<Rightarrow> tk);
          (objectType, objectID) = SplitObject (tk_object tk)
      in if rdr_tuple_key req \<noteq> None \<and> (objectType = [] \<or> objectID = [] \<and> tk_user tk = [])
         then Some (Inl (ValidationError (ErrText ''the tuple_key field was provided but the object type field is required and both the object id and user cannot be empty'')))
         else (case Decode enc (rdr_continuation_token req) of
                 Inl e \<Rightarrow> Some (Inl server_ErrInvalidContinuationToken)
               | Inr decodedContToken \<Rightarrow>
                   (case (if decodedContToken = [] then Inr ([], []) else Deserialize decodedContToken) of
                      Inl e \<Rightarrow> Some (Inl server_ErrInvalidContinuationToken)
                    | Inr (from, _) \<Rightarrow>
                        (case ds_ReadPage ds s (rdr_store_id req) (ConvertReadRequestTupleKeyToTupleKey tk)
                                (NewPaginationOptions (rdr_page_size req) from) of
                           None \<Rightarrow> None
                         | Some (Inl e) \<Rightarrow> Some (Inl (HandleError [] e))
                         | Some (Inr (tuples, contUlid)) \<Rightarrow> Some (encode_token enc contUlid [] tuples)))))"

text \<open>\<open>ulid_at\<close> is the text of \<^verbatim>\<open>ulid.New\<close> for a time and no entropy; times are in nanoseconds since 1970.\<close>

record ReadChangesRequest =
  rcr_store_id :: string
  rcr_type :: string
  rcr_page_size :: int
  rcr_continuation_token :: string
  rcr_start_time :: "int option"

definition time_IsZero :: "int \<Rightarrow> bool" where
  "time_IsZero t \<longleftrightarrow> t = - 62135596800 * 10 ^ 9"

definition ReadChangesQuery_Execute ::
  "(int \<Rightarrow> (err, string) result) \<Rightarrow> Encoder \<Rightarrow> int \<Rightarrow> 's OpenFGADatastore \<Rightarrow> 's \<Rightarrow> ReadChangesRequest \<Rightarrow>
   (server_error, tuple_change page) result" where
  "ReadChangesQuery_Execute ulid_at enc horizonOffset ds s req =
     (case Decode enc (rcr_continuation_token req) of
        Inl e \<Rightarrow> Inl server_ErrInvalidContinuationToken
      | Inr token \<Rightarrow>
          (case (if token \<noteq> []
                 then (case Deserialize token of
                         Inl e \<Rightarrow> Inl server_ErrInvalidContinuationToken
                       | Inr (fromUlid, objType) \<Rightarrow>
                           if objType \<noteq> rcr_type req then Inl ErrMismatchObjectType else Inr fromUlid)
                 else (case rcr_start_time req of
                         None \<Rightarrow> Inr []
                       | Some startTime \<Rightarrow>
                           if time_IsZero startTime then Inr []
                           else (case ulid_at startTime of
                                   Inl e \<Rightarrow> Inl (HandleError [] ErrInvalidStartTime)
                                 | Inr tokenUlid \<Rightarrow> Inr tokenUlid))) of
             Inl e \<Rightarrow> Inl e
           | Inr fromUlid \<Rightarrow>
               (case ds_ReadChanges ds s (rcr_store_id req)
                       \<lparr>rcf_ObjectType = rcr_type req, rcf_HorizonOffset = horizonOffset\<rparr>
                       \<lparr>rco_Pagination = NewPaginationOptions (rcr_page_size req) fromUlid, rco_SortDesc = False\<rparr> of
                  Inl e \<Rightarrow>
                    if errors_Is e ErrNotFound
                    then Inr \<lparr>pg_items = [], pg_continuation_token = rcr_continuation_token req\<rparr>
                    else Inl (HandleError [] e)
                | Inr (changes, contUlid) \<Rightarrow> encode_token enc contUlid (rcr_type req) changes)))"

section \<open>Stores\<close>

text \<open>\<open>newId\<close> is \<^verbatim>\<open>ulid.Make().String()\<close>.\<close>

definition CreateStoreCommand_Execute :: "string \<Rightarrow> 's OpenFGADatastore \<Rightarrow> 's \<Rightarrow> string \<Rightarrow> (server_error, store \<times> 's) result" where
  "CreateStoreCommand_Execute newId ds s name =
     (case ds_CreateStore ds s \<lparr>st_id = newId, st_name = name, st_created_at = 0, st_updated_at = 0\<rparr> of
        Inl e \<Rightarrow> Inl (HandleError [] e)
      | Inr res \<Rightarrow> Inr res)"

definition DeleteStoreCommand_Execute :: "'s OpenFGADatastore \<Rightarrow> 's \<Rightarrow> string \<Rightarrow> (server_error, 's) result" where
  "DeleteStoreCommand_Execute ds s storeID =
     (case ds_GetStore ds s storeID of
        Inl e \<Rightarrow> if errors_Is e ErrNotFound then Inr s else Inl (HandleError [] e)
      | Inr store \<Rightarrow>
          (case ds_DeleteStore ds s (st_id store) of
             Inl e \<Rightarrow> Inl (HandleError ''Error deleting store'' e)
           | Inr s' \<Rightarrow> Inr s'))"

definition GetStoreQuery_Execute :: "'s OpenFGADatastore \<Rightarrow> 's \<Rightarrow> string \<Rightarrow> (server_error, store) result" where
  "GetStoreQuery_Execute ds s storeID =
     (case ds_GetStore ds s storeID of
        Inl e \<Rightarrow> Inl (if errors_Is e ErrNotFound then ErrStoreIDNotFound else HandleError [] e)
      | Inr store \<Rightarrow> Inr store)"

record ListStoresRequest =
  lsr_name :: string
  lsr_page_size :: int
  lsr_continuation_token :: string

definition ListStoresQuery_Execute ::
  "Encoder \<Rightarrow> 's OpenFGADatastore \<Rightarrow> 's \<Rightarrow> ListStoresRequest \<Rightarrow> string list \<Rightarrow> (server_error, store page) result option" where
  "ListStoresQuery_Execute enc ds s req storeIDs =
     (case Decode enc (lsr_continuation_token req) of
        Inl e \<Rightarrow> Some (Inl server_ErrInvalidContinuationToken)
      | Inr decodedContToken \<Rightarrow>
          (case ds_ListStores ds s
                  \<lparr>lso_IDs = storeIDs, lso_Name = lsr_name req,
                   lso_Pagination = NewPaginationOptions (lsr_page_size req) decodedContToken\<rparr> of
             None \<Rightarrow> None
           | Some (Inl e) \<Rightarrow> Some (Inl (HandleError [] e))
           | Some (Inr (stores, continuationToken)) \<Rightarrow>
               (case Encode enc continuationToken of
                  Inl e \<Rightarrow> Some (Inl (HandleError [] e))
                | Inr encodedToken \<Rightarrow> Some (Inr \<lparr>pg_items = stores, pg_continuation_token = encodedToken\<rparr>))))"

section \<open>Assertions\<close>

definition ReadAssertionsQuery_Execute :: "'s OpenFGADatastore \<Rightarrow> 's \<Rightarrow> string \<Rightarrow> string \<Rightarrow> (server_error, assertion list) result" where
  "ReadAssertionsQuery_Execute ds s store authorizationModelID =
     (case ds_ReadAssertions ds s store authorizationModelID of
        Inl e \<Rightarrow> Inl (HandleError [] e)
      | Inr assertions \<Rightarrow> Inr assertions)"

fun validate_contextual :: "stdlib \<Rightarrow> TypeSystem \<Rightarrow> tuple_key list \<Rightarrow> err option option" where
  "validate_contextual S typesys [] = Some None"
| "validate_contextual S typesys (ct # cts) =
     (case ValidateTupleForWrite S typesys ct of
        None \<Rightarrow> None
      | Some (Some e) \<Rightarrow> Some (Some e)
      | Some None \<Rightarrow> validate_contextual S typesys cts)"

fun validate_assertions :: "stdlib \<Rightarrow> TypeSystem \<Rightarrow> assertion list \<Rightarrow> err option option" where
  "validate_assertions S typesys [] = Some None"
| "validate_assertions S typesys (a # as) =
     (case ValidateUserObjectRelation typesys (ConvertAssertionTupleKeyToTupleKey (as_tuple_key a)) of
        Some e \<Rightarrow> Some (Some e)
      | None \<Rightarrow>
          (case validate_contextual S typesys (as_contextual_tuples a) of
             None \<Rightarrow> None
           | Some (Some e) \<Rightarrow> Some (Some e)
           | Some None \<Rightarrow> validate_assertions S typesys as))"

definition DefaultMaxAssertionSizeInBytes :: int where
  "DefaultMaxAssertionSizeInBytes = 64000"

definition WriteAssertionsCommand_Execute ::
  "'c library \<Rightarrow> int \<Rightarrow> 's OpenFGADatastore \<Rightarrow> 's \<Rightarrow> string \<Rightarrow> string \<Rightarrow> assertion list \<Rightarrow> (server_error, 's) result option" where
  "WriteAssertionsCommand_Execute L maxAssertionSizeInBytes ds s store modelID assertions =
     (case ds_ReadAuthorizationModel ds s store modelID of
        Inl e \<Rightarrow> Some (Inl (if errors_Is e ErrNotFound then AuthorizationModelNotFound modelID else HandleError [] e))
      | Inr model \<Rightarrow>
          if \<not> IsSchemaVersionSupported (am_schema_version model)
          then Some (Inl (ValidationError ErrInvalidSchemaVersion))
          else (case lib_New L model of
                  Inl e \<Rightarrow> Some (Inl (HandleError [] e))
                | Inr typesys \<Rightarrow>
                    if sum_list (map (lib_assertion_Size L) assertions) > maxAssertionSizeInBytes
                    then Some (Inl (ExceededEntityLimit ''bytes'' maxAssertionSizeInBytes))
                    else (case validate_assertions (lib_stdlib L) typesys assertions of
                            None \<Rightarrow> None
                          | Some (Some e) \<Rightarrow> Some (Inl (ValidationError e))
                          | Some None \<Rightarrow>
                              (case ds_WriteAssertions ds s store modelID assertions of
                                 Inl e \<Rightarrow> Some (Inl (HandleError [] e))
                               | Inr s' \<Rightarrow> Some (Inr s')))))"

section \<open>Authorization models\<close>

definition ReadAuthorizationModelQuery_Execute ::
  "'s OpenFGADatastore \<Rightarrow> 's \<Rightarrow> string \<Rightarrow> string \<Rightarrow> (server_error, authorization_model) result" where
  "ReadAuthorizationModelQuery_Execute ds s store modelID =
     (case ds_ReadAuthorizationModel ds s store modelID of
        Inl e \<Rightarrow> Inl (if errors_Is e ErrNotFound then AuthorizationModelNotFound modelID else HandleError [] e)
      | Inr azm \<Rightarrow> Inr azm)"

definition ReadAuthorizationModelsQuery_Execute ::
  "Encoder \<Rightarrow> 's OpenFGADatastore \<Rightarrow> 's \<Rightarrow> string \<Rightarrow> int \<Rightarrow> string \<Rightarrow> (server_error, authorization_model page) result option" where
  "ReadAuthorizationModelsQuery_Execute enc ds s store pageSize token =
     (case Decode enc token of
        Inl e \<Rightarrow> Some (Inl server_ErrInvalidContinuationToken)
      | Inr decodedContToken \<Rightarrow>
          (case ds_ReadAuthorizationModels ds s store (NewPaginationOptions pageSize decodedContToken) of
             None \<Rightarrow> None
           | Some (Inl e) \<Rightarrow> Some (Inl (HandleError [] e))
           | Some (Inr (models, contToken)) \<Rightarrow>
               (case Encode enc contToken of
                  Inl e \<Rightarrow> Some (Inl (HandleError [] e))
                | Inr encodedContToken \<Rightarrow> Some (Inr \<lparr>pg_items = models, pg_continuation_token = encodedContToken\<rparr>))))"

record WriteAuthorizationModelRequest =
  wam_store_id :: string
  wam_schema_version :: string
  wam_type_definitions :: "type_definition list"
  wam_conditions :: "(string \<times> condition) list"

definition WriteAuthorizationModelCommand_Execute ::
  "'c library \<Rightarrow> int \<Rightarrow> string \<Rightarrow> 's OpenFGADatastore \<Rightarrow> 's \<Rightarrow> WriteAuthorizationModelRequest \<Rightarrow>
   (server_error, string \<times> 's) result option" where
  "WriteAuthorizationModelCommand_Execute L maxAuthorizationModelSizeInBytes newId ds s req =
     (if int (length (wam_type_definitions req)) > ds_MaxTypesPerAuthorizationModel ds s
      then Some (Inl (ExceededEntityLimit ''type definitions in an authorization model'' (ds_MaxTypesPerAuthorizationModel ds s)))
      else let model = \<lparr>am_id = newId,
                        am_schema_version = (if wam_schema_version req = [] then ''1.1'' else wam_schema_version req),
                        am_type_definitions = wam_type_definitions req, am_conditions = wam_conditions req\<rparr>
           in if lib_model_Size L model > maxAuthorizationModelSizeInBytes
              then Some (Inl (Status exceeded_entity_limit (ErrText ''model exceeds size limit'')))
              else (case lib_NewAndValidate L model of
                      None \<Rightarrow> None
                    | Some (Inl e) \<Rightarrow> Some (Inl (InvalidAuthorizationModelInput e))
                    | Some (Inr _) \<Rightarrow>
                        (case ds_WriteAuthorizationModel ds s (wam_store_id req) model of
                           Inl e \<Rightarrow> Some (Inl (HandleError ''Error writing authorization model configuration'' e))
                         | Inr s' \<Rightarrow> Some (Inr (am_id model, s')))))"


end
