(* ===== verification/Authz.thy ===== *)
theory Authz
  imports Commands
begin

text \<open>
  The access control of the API (\<^verbatim>\<open>internal/authz/authz.go\<close>, \<^verbatim>\<open>internal/utils/apimethod\<close>, \<^verbatim>\<open>pkg/authclaims\<close>): whether
  a client may call a method is a check in a store of its own, made through the server itself. The methods of the
  server and the modules of types (\<^verbatim>\<open>GetModuleForObjectTypeRelation\<close> of the language package) are arguments. The
  errors of the authorizer are seen only as errors by their callers.
\<close>

section \<open>Methods, claims and requests\<close>

datatype APIMethod =
    ApiReadAuthorizationModel | ApiReadAuthorizationModels | ApiRead | ApiWrite | ApiListObjects
  | ApiStreamedListObjects | ApiCheck | ApiBatchCheck | ApiListUsers | ApiWriteAssertions | ApiReadAssertions
  | ApiWriteAuthorizationModel | ApiListStores | ApiCreateStore | ApiGetStore | ApiDeleteStore | ApiExpand
  | ApiReadChanges

record AuthClaims =
  Subject :: string
  Scopes :: "string set"
  ClientID :: string

text \<open>What the handlers take from the context of a request.\<close>

record RequestContext =
  rc_AuthClaims :: "AuthClaims option"
  rc_SkipAuthzCheck :: bool
  rc_RequestIsValidated :: bool

record CheckRequest =
  crq_store_id :: string
  crq_authorization_model_id :: string
  crq_tuple_key :: tuple_key_nc
  crq_contextual_tuples :: "tuple_key list"
  crq_context :: "pstruct option"
  crq_consistency :: nat

record ListObjectsRequest =
  lor_store_id :: string
  lor_authorization_model_id :: string
  lor_type :: string
  lor_relation :: string
  lor_user :: string

record ServerInterface =
  si_Check :: "RequestContext \<Rightarrow> CheckRequest \<Rightarrow> (server_error, bool) result option"
  si_ListObjects :: "RequestContext \<Rightarrow> ListObjectsRequest \<Rightarrow> (server_error, string list) result"

record AuthorizerConfig =
  ac_StoreID :: string
  ac_ModelID :: string

section \<open>Relations and objects\<close>

definition MaxModulesInRequest :: nat where
  "MaxModulesInRequest = 1"

fun getRelation :: "APIMethod \<Rightarrow> string" where
  "getRelation ApiReadAuthorizationModel = ''can_call_read_authorization_models''"
| "getRelation ApiReadAuthorizationModels = ''can_call_read_authorization_models''"
| "getRelation ApiRead = ''can_call_read''"
| "getRelation ApiWrite = ''can_call_write''"
| "getRelation ApiListObjects = ''can_call_list_objects''"
| "getRelation ApiStreamedListObjects = ''can_call_list_objects''"
| "getRelation ApiCheck = ''can_call_check''"
| "getRelation ApiBatchCheck = ''can_call_check''"
| "getRelation ApiListUsers = ''can_call_list_users''"
| "getRelation ApiWriteAssertions = ''can_call_write_assertions''"
| "getRelation ApiReadAssertions = ''can_call_read_assertions''"
| "getRelation ApiWriteAuthorizationModel = ''can_call_write_authorization_models''"
| "getRelation ApiListStores = ''can_call_list_stores''"
| "getRelation ApiCreateStore = ''can_call_create_stores''"
| "getRelation ApiGetStore = ''can_call_get_store''"
| "getRelation ApiDeleteStore = ''can_call_delete_store''"
| "getRelation ApiExpand = ''can_call_expand''"
| "getRelation ApiReadChanges = ''can_call_read_changes''"

definition StoreIDType_String :: "string \<Rightarrow> string" where
  "StoreIDType_String s = ''store:'' @ s"

definition ClientIDType_String :: "string \<Rightarrow> string" where
  "ClientIDType_String c = ''application:'' @ c"

definition ModuleIDType_String :: "string \<Rightarrow> string \<Rightarrow> string" where
  "ModuleIDType_String m module = ''module:'' @ m @ ''|'' @ module"

definition SystemObjectID :: string where
  "SystemObjectID = ''system:fga''"

definition getSystemAccessTuple :: "string \<Rightarrow> tuple_key" where
  "getSystemAccessTuple storeID = NewTupleKey (StoreIDType_String storeID) ''system'' SystemObjectID"

definition checkAuthClaims :: "RequestContext \<Rightarrow> (err, AuthClaims) result" where
  "checkAuthClaims cx =
     (case rc_AuthClaims cx of
        None \<Rightarrow> Inl (ErrText ''client ID not found in context or is empty'')
      | Some claims \<Rightarrow>
          if ClientID claims = [] then Inl (ErrText ''client ID not found in context or is empty'') else Inr claims)"

section \<open>Authorization\<close>

text \<open>An outer \<open>None\<close> is a check that panics or does not return; the inner option is Go's \<^verbatim>\<open>error\<close>.\<close>

definition individualAuthorize ::
  "AuthorizerConfig \<Rightarrow> ServerInterface \<Rightarrow> RequestContext \<Rightarrow> string \<Rightarrow> string \<Rightarrow> string \<Rightarrow> tuple_key list \<Rightarrow> err option option" where
  "individualAuthorize a srv cx clientID rel object contextualTuples =
     (let req = \<lparr>crq_store_id = ac_StoreID a, crq_authorization_model_id = ac_ModelID a,
                 crq_tuple_key = \<lparr>tk_object = object, tk_relation = rel, tk_user = ClientIDType_String clientID\<rparr>,
                 crq_contextual_tuples = contextualTuples, crq_context = None, crq_consistency = 0\<rparr>
      in case si_Check srv (cx\<lparr>rc_SkipAuthzCheck := True\<rparr>) req of
           None \<Rightarrow> None
         | Some (Inl e) \<Rightarrow> Some (Some (ErrText ''check returned error''))
         | Some (Inr allowed) \<Rightarrow> Some (if allowed then None else Some (ErrText ''check returned not allowed'')))"

text \<open>The checks of the modules run concurrently; all are awaited, and any error is returned.\<close>

fun first_error :: "err option option list \<Rightarrow> err option option" where
  "first_error [] = Some None"
| "first_error (None # rs) = None"
| "first_error (Some r # rs) =
     (case first_error rs of None \<Rightarrow> None | Some r' \<Rightarrow> Some (case r of Some e \<Rightarrow> Some e | None \<Rightarrow> r'))"

definition moduleAuthorize ::
  "AuthorizerConfig \<Rightarrow> ServerInterface \<Rightarrow> RequestContext \<Rightarrow> string \<Rightarrow> string \<Rightarrow> string \<Rightarrow> string list \<Rightarrow> err option option" where
  "moduleAuthorize a srv cx clientID rel storeID modules =
     first_error (map (\<lambda>module.
       individualAuthorize a srv cx clientID rel (ModuleIDType_String storeID module)
         [NewTupleKey (ModuleIDType_String storeID module) ''store'' (StoreIDType_String storeID),
          getSystemAccessTuple storeID]) modules)"

definition Authorize ::
  "AuthorizerConfig \<Rightarrow> ServerInterface \<Rightarrow> RequestContext \<Rightarrow> string \<Rightarrow> APIMethod \<Rightarrow> string list \<Rightarrow> err option option" where
  "Authorize a srv cx storeID apiMethod modules =
     (case checkAuthClaims cx of
        Inl e \<Rightarrow> Some (Some e)
      | Inr claims \<Rightarrow>
          (let rel = getRelation apiMethod
           in case individualAuthorize a srv cx (ClientID claims) rel (StoreIDType_String storeID)
                     [getSystemAccessTuple storeID] of
                None \<Rightarrow> None
              | Some None \<Rightarrow> Some None
              | Some (Some e) \<Rightarrow>
                  if modules \<noteq> []
                  then if length modules > MaxModulesInRequest
                       then Some (Some (ErrText ''the principal cannot write tuples of more than 1 module(s) in a single request''))
                       else moduleAuthorize a srv cx (ClientID claims) rel storeID modules
                  else Some (Some e)))"

definition AuthorizeCreateStore :: "AuthorizerConfig \<Rightarrow> ServerInterface \<Rightarrow> RequestContext \<Rightarrow> err option option" where
  "AuthorizeCreateStore a srv cx =
     (case checkAuthClaims cx of
        Inl e \<Rightarrow> Some (Some e)
      | Inr claims \<Rightarrow>
          individualAuthorize a srv cx (ClientID claims) (getRelation ApiCreateStore) SystemObjectID [])"

definition AuthorizeListStores :: "AuthorizerConfig \<Rightarrow> ServerInterface \<Rightarrow> RequestContext \<Rightarrow> err option option" where
  "AuthorizeListStores a srv cx =
     (case checkAuthClaims cx of
        Inl e \<Rightarrow> Some (Some e)
      | Inr claims \<Rightarrow>
          individualAuthorize a srv cx (ClientID claims) (getRelation ApiListStores) SystemObjectID [])"

definition TrimPrefix :: "string \<Rightarrow> string \<Rightarrow> string" where
  "TrimPrefix s prefix = (if HasPrefix s prefix then drop (length prefix) s else s)"

definition ListAuthorizedStores :: "AuthorizerConfig \<Rightarrow> ServerInterface \<Rightarrow> RequestContext \<Rightarrow> (err, string list) result" where
  "ListAuthorizedStores a srv cx =
     (case checkAuthClaims cx of
        Inl e \<Rightarrow> Inl e
      | Inr claims \<Rightarrow>
          (case si_ListObjects srv (cx\<lparr>rc_SkipAuthzCheck := True\<rparr>)
                  \<lparr>lor_store_id = ac_StoreID a, lor_authorization_model_id = ac_ModelID a, lor_type = ''store'',
                   lor_relation = getRelation ApiGetStore, lor_user = ClientIDType_String (ClientID claims)\<rparr> of
             Inl e \<Rightarrow> Inl (ErrText ''list objects returned error'')
           | Inr objects \<Rightarrow> Inr (map (\<lambda>store. TrimPrefix store ''store:'') objects)))"

text \<open>The modules of the tuples, or none as soon as a type or relation has no module.\<close>

fun extractModulesFromTuples ::
  "(type_definition \<Rightarrow> string \<Rightarrow> (err, string) result) \<Rightarrow> TypeSystem \<Rightarrow> tuple_key_nc list \<Rightarrow> string list \<Rightarrow>
   (err, string list) result" where
  "extractModulesFromTuples GetModule typesys [] modulesMap = Inr modulesMap"
| "extractModulesFromTuples GetModule typesys (tupleKey # tupleKeys) modulesMap =
     (let objType = fst (SplitObject (tk_object tupleKey))
      in case GetTypeDefinition typesys objType of
           None \<Rightarrow> Inl (ErrText (''type '' @ objType @ '' not found''))
         | Some objectType \<Rightarrow>
             (case GetModule objectType (tk_relation tupleKey) of
                Inl e \<Rightarrow> Inl e
              | Inr module \<Rightarrow>
                  if module = [] then Inr []
                  else extractModulesFromTuples GetModule typesys tupleKeys (List.insert module modulesMap)))"

definition GetModulesForWriteRequest ::
  "(type_definition \<Rightarrow> string \<Rightarrow> (err, string) result) \<Rightarrow> WriteRequest \<Rightarrow> TypeSystem \<Rightarrow> (err, string list) result" where
  "GetModulesForWriteRequest GetModule req typesys =
     extractModulesFromTuples GetModule typesys
       (map TupleKeyToTupleKeyWithoutCondition (wr_writes req) @ wr_deletes req) []"

end
