(* ===== verification/FastPathChoice.thy ===== *)
theory FastPathChoice
  imports TypeSystem
begin

text \<open>
  The choice between the resolution strategies of a check (\<^verbatim>\<open>pkg/typesystem/typesystem.go\<close>, the
  \<^verbatim>\<open>...CanFastPath...\<close> methods). They walk the weighted graph level by level through its operator nodes;
  the walk ends only if these do not form a cycle, so the loops are partial and \<open>None\<close> stands for a
  walk that does not end. A nil graph never selects a fast path.
\<close>

definition HasSuffix :: "string \<Rightarrow> string \<Rightarrow> bool" where
  "HasSuffix s suffix \<longleftrightarrow> length suffix \<le> length s \<and> drop (length s - length suffix) s = suffix"

section \<open>Usersets and tuple-to-usersets of weight two\<close>

text \<open>
  One level of the walk: the edges found so far that satisfy the predicate, and the edges of the
  operator nodes below; \<open>None\<close> is the early return of false.
\<close>

fun weight2_level :: "WeightedGraph \<Rightarrow> string \<Rightarrow> (WeightedEdge \<Rightarrow> bool) \<Rightarrow> WeightedEdge list \<Rightarrow>
    WeightedEdge list \<Rightarrow> nat \<Rightarrow> (WeightedEdge list \<times> nat) option" where
  "weight2_level g userType wanted [] innerEdges found = Some (innerEdges, found)"
| "weight2_level g userType wanted (edge # edges) innerEdges found =
     (case (if we_EdgeType edge = RewriteEdge then map_option ((@) innerEdges) (wg_Edges g (we_To edge))
            else Some innerEdges) of
        None \<Rightarrow> None
      | Some innerEdges' \<Rightarrow>
          if wanted edge
          then (case we_Weights edge userType of
                  None \<Rightarrow> weight2_level g userType wanted edges innerEdges' found
                | Some w \<Rightarrow> if w > 2 then None
                            else weight2_level g userType wanted edges innerEdges' (found + 1))
          else weight2_level g userType wanted edges innerEdges' found)"

partial_function (option) userset_weight2_loop :: "WeightedGraph \<Rightarrow> string \<Rightarrow> (WeightedEdge \<Rightarrow> bool) \<Rightarrow>
    nat \<Rightarrow> WeightedEdge list \<Rightarrow> nat \<Rightarrow> bool option" where
  "userset_weight2_loop g userType wanted totalAllowed edges found =
     (if found \<noteq> totalAllowed \<and> edges \<noteq> []
      then (case weight2_level g userType wanted edges [] found of
              None \<Rightarrow> Some False
            | Some (innerEdges, found') \<Rightarrow>
                if innerEdges = [] then Some (found' = totalAllowed)
                else userset_weight2_loop g userType wanted totalAllowed innerEdges found')
      else Some (found = totalAllowed))"

declare userset_weight2_loop.simps [code]

definition UsersetCanFastPathWeight2 ::
  "TypeSystem \<Rightarrow> string \<Rightarrow> string \<Rightarrow> string \<Rightarrow> relation_reference list \<Rightarrow> bool option" where
  "UsersetCanFastPathWeight2 t objectType rel userType allowedUsersets =
     (case ts_authzWeightedGraph t of
        None \<Rightarrow> Some False
      | Some g \<Rightarrow>
          let objRel = ToObjectRelationString objectType rel
          in case wg_NodeWeights g objRel of
               None \<Rightarrow> Some False
             | Some weights \<Rightarrow>
                 (case weights userType of
                    None \<Rightarrow> Some False
                  | Some _ \<Rightarrow>
                      (case wg_Edges g objRel of
                         None \<Rightarrow> Some False
                       | Some edges \<Rightarrow>
                           let allowed = remdups (map (\<lambda>u. ToObjectRelationString (rr_type u) (rr_GetRelation u)) allowedUsersets)
                           in userset_weight2_loop g userType
                                (\<lambda>edge. we_EdgeType edge = DirectEdge \<and> we_To edge \<in> set allowed)
                                (length allowed) edges 0)))"

partial_function (option) ttu_weight2_loop :: "WeightedGraph \<Rightarrow> string \<Rightarrow> (WeightedEdge \<Rightarrow> bool) \<Rightarrow>
    WeightedEdge list \<Rightarrow> bool option" where
  "ttu_weight2_loop g userType wanted edges =
     (case weight2_level g userType wanted edges [] 0 of
        None \<Rightarrow> Some False
      | Some (innerEdges, found) \<Rightarrow>
          if innerEdges = [] then Some (found \<noteq> 0)
          else if found \<noteq> 0 then Some True
          else ttu_weight2_loop g userType wanted innerEdges)"

declare ttu_weight2_loop.simps [code]

definition TTUCanFastPathWeight2 ::
  "TypeSystem \<Rightarrow> string \<Rightarrow> string \<Rightarrow> string \<Rightarrow> string \<Rightarrow> string \<Rightarrow> bool option" where
  "TTUCanFastPathWeight2 t objectType rel userType tupleset computedRelation =
     (case ts_authzWeightedGraph t of
        None \<Rightarrow> Some False
      | Some g \<Rightarrow>
          let objRel = ToObjectRelationString objectType rel;
              tuplesetRelationKey = ToObjectRelationString objectType tupleset
          in case wg_NodeWeights g objRel of
               None \<Rightarrow> Some False
             | Some weights \<Rightarrow>
                 (case weights userType of
                    None \<Rightarrow> Some False
                  | Some _ \<Rightarrow>
                      (case wg_Edges g objRel of
                         None \<Rightarrow> Some False
                       | Some edges \<Rightarrow>
                           ttu_weight2_loop g userType
                             (\<lambda>edge. we_EdgeType edge = TTUEdge \<and> we_TuplesetRelation edge = tuplesetRelationKey \<and>
                                     HasSuffix (we_To edge) (''#'' @ computedRelation)) edges)))"

section \<open>Recursive usersets and tuple-to-usersets\<close>

text \<open>
  One level: every edge with a weight for the user type is an operator or the recursive edge itself,
  found once, both of infinite weight, or has weight one.
\<close>

fun recursive_level :: "WeightedGraph \<Rightarrow> string \<Rightarrow> (WeightedEdge \<Rightarrow> bool) \<Rightarrow> WeightedEdge list \<Rightarrow>
    WeightedEdge list \<Rightarrow> bool \<Rightarrow> (WeightedEdge list \<times> bool) option" where
  "recursive_level g userType recursive [] innerEdges found = Some (innerEdges, found)"
| "recursive_level g userType recursive (edge # edges) innerEdges found =
     (case we_Weights edge userType of
        None \<Rightarrow> recursive_level g userType recursive edges innerEdges found
      | Some w \<Rightarrow>
          if w = Infinite \<and> we_EdgeType edge = RewriteEdge
          then (case wg_Edges g (we_To edge) of
                  None \<Rightarrow> None
                | Some operationalEdges \<Rightarrow>
                    recursive_level g userType recursive edges (innerEdges @ operationalEdges) found)
          else if w = Infinite \<and> \<not> found \<and> recursive edge
          then recursive_level g userType recursive edges innerEdges True
          else if w > 1 then None
          else recursive_level g userType recursive edges innerEdges found)"

partial_function (option) recursive_loop :: "WeightedGraph \<Rightarrow> string \<Rightarrow> (WeightedEdge \<Rightarrow> bool) \<Rightarrow>
    WeightedEdge list \<Rightarrow> bool \<Rightarrow> bool option" where
  "recursive_loop g userType recursive edges found =
     (if edges = [] then Some found
      else (case recursive_level g userType recursive edges [] found of
              None \<Rightarrow> Some False
            | Some (innerEdges, found') \<Rightarrow>
                if innerEdges = [] then Some found'
                else recursive_loop g userType recursive innerEdges found'))"

declare recursive_loop.simps [code]

definition recursive_walk :: "TypeSystem \<Rightarrow> string \<Rightarrow> string \<Rightarrow> (WeightedEdge \<Rightarrow> bool) \<Rightarrow> bool option" where
  "recursive_walk t objRel userType recursive =
     (case ts_authzWeightedGraph t of
        None \<Rightarrow> Some False
      | Some g \<Rightarrow>
          (case wg_NodeWeights g objRel of
             None \<Rightarrow> Some False
           | Some weights \<Rightarrow>
               if weights userType \<noteq> Some Infinite then Some False
               else (case wg_Edges g objRel of
                       None \<Rightarrow> Some False
                     | Some edges \<Rightarrow> recursive_loop g userType recursive edges False)))"

definition RecursiveTTUCanFastPathV2 ::
  "TypeSystem \<Rightarrow> string \<Rightarrow> string \<Rightarrow> string \<Rightarrow> string \<Rightarrow> string \<Rightarrow> bool option" where
  "RecursiveTTUCanFastPathV2 t objectType rel userType tupleset computedRelation =
     (let objRel = ToObjectRelationString objectType rel
      in recursive_walk t objRel userType
           (\<lambda>edge. we_EdgeType edge = TTUEdge \<and>
                   we_TuplesetRelation edge = ToObjectRelationString objectType tupleset \<and>
                   HasSuffix (we_To edge) (''#'' @ computedRelation) \<and> we_To edge = objRel))"

definition RecursiveUsersetCanFastPathV2 ::
  "TypeSystem \<Rightarrow> string \<Rightarrow> string \<Rightarrow> string \<Rightarrow> bool option" where
  "RecursiveUsersetCanFastPathV2 t objectType rel userType =
     (let objRel = ToObjectRelationString objectType rel
      in recursive_walk t objRel userType (\<lambda>edge. we_EdgeType edge = DirectEdge \<and> we_To edge = objRel))"

lemma no_graph_no_fast_path [simp]:
  assumes "ts_authzWeightedGraph t = None"
  shows "UsersetCanFastPathWeight2 t ot rel ut refs = Some False"
    and "TTUCanFastPathWeight2 t ot rel ut ts c = Some False"
    and "RecursiveUsersetCanFastPathV2 t ot rel ut = Some False"
    and "RecursiveTTUCanFastPathV2 t ot rel ut ts c = Some False"
  using assms by (simp_all add: UsersetCanFastPathWeight2_def TTUCanFastPathWeight2_def
      RecursiveUsersetCanFastPathV2_def RecursiveTTUCanFastPathV2_def recursive_walk_def Let_def)
section \<open>The walks end\<close>

text \<open>
  The operator nodes of a weighted graph are the nodes of the rewrites of a model, which are trees.
  So there is a rank of the nodes that every rewrite edge decreases.
\<close>

definition ranked :: "(string \<Rightarrow> nat) \<Rightarrow> WeightedGraph \<Rightarrow> bool" where
  "ranked rank g \<longleftrightarrow>
     (\<forall>node edges. wg_Edges g node = Some edges \<longrightarrow>
        (\<forall>edge\<in>set edges. we_EdgeType edge = RewriteEdge \<longrightarrow> rank (we_To edge) < rank node))"

definition below :: "(string \<Rightarrow> nat) \<Rightarrow> nat \<Rightarrow> WeightedEdge list \<Rightarrow> bool" where
  "below rank n edges \<longleftrightarrow> (\<forall>edge\<in>set edges. we_EdgeType edge = RewriteEdge \<longrightarrow> rank (we_To edge) < n)"

lemma below_simps [simp]:
  "below rank n []"
  "below rank n (e # es) \<longleftrightarrow> (we_EdgeType e = RewriteEdge \<longrightarrow> rank (we_To e) < n) \<and> below rank n es"
  "below rank n (es @ es') \<longleftrightarrow> below rank n es \<and> below rank n es'"
  by (auto simp: below_def)

lemma below_operator:
  "ranked rank g \<Longrightarrow> wg_Edges g node = Some edges \<Longrightarrow> rank node < Suc n \<Longrightarrow> below rank n edges"
  by (force simp: ranked_def below_def)

lemma weight2_level_below:
  assumes "ranked rank g"
  shows "weight2_level g u wanted edges inner found = Some (inner', found') \<Longrightarrow>
           below rank (Suc n) edges \<Longrightarrow> below rank n inner \<Longrightarrow> below rank n inner'"
  by (induction edges arbitrary: inner found)
     (auto split: if_splits option.splits dest: below_operator [OF assms])

lemma weight2_level_last:
  "weight2_level g u wanted edges inner found = Some (inner', found') \<Longrightarrow> below rank 0 edges \<Longrightarrow> inner' = inner"
  by (induction edges arbitrary: inner found) (auto split: if_splits option.splits)

lemma recursive_level_below:
  assumes "ranked rank g"
  shows "recursive_level g u recursive edges inner found = Some (inner', found') \<Longrightarrow>
           below rank (Suc n) edges \<Longrightarrow> below rank n inner \<Longrightarrow> below rank n inner'"
  by (induction edges arbitrary: inner found)
     (auto split: if_splits option.splits dest: below_operator [OF assms])

lemma recursive_level_last:
  "recursive_level g u recursive edges inner found = Some (inner', found') \<Longrightarrow> below rank 0 edges \<Longrightarrow> inner' = inner"
  by (induction edges arbitrary: inner found) (auto split: if_splits option.splits)

lemma userset_loop_ends:
  assumes "ranked rank g" and "below rank n edges"
  shows "\<exists>b. userset_weight2_loop g u wanted n_allowed edges found = Some b"
  using assms(2)
proof (induction n arbitrary: edges found)
  case 0
  then show ?case
    by (subst userset_weight2_loop.simps) (auto split: option.split dest: weight2_level_last)
next
  case (Suc n)
  then show ?case
    by (subst userset_weight2_loop.simps) (auto split: option.split dest: weight2_level_below [OF assms(1)])
qed

lemma ttu_loop_ends:
  assumes "ranked rank g" and "below rank n edges"
  shows "\<exists>b. ttu_weight2_loop g u wanted edges = Some b"
  using assms(2)
proof (induction n arbitrary: edges)
  case 0
  then show ?case
    by (subst ttu_weight2_loop.simps) (auto split: option.split dest: weight2_level_last)
next
  case (Suc n)
  then show ?case
    by (subst ttu_weight2_loop.simps) (auto split: option.split dest: weight2_level_below [OF assms(1)])
qed

lemma recursive_loop_ends:
  assumes "ranked rank g" and "below rank n edges"
  shows "\<exists>b. recursive_loop g u recursive edges found = Some b"
  using assms(2)
proof (induction n arbitrary: edges found)
  case 0
  then show ?case
    by (subst recursive_loop.simps) (auto split: option.split dest: recursive_level_last)
next
  case (Suc n)
  then show ?case
    by (subst recursive_loop.simps) (auto split: option.split dest: recursive_level_below [OF assms(1)])
qed

lemma ranked_below: "ranked rank g \<Longrightarrow> wg_Edges g node = Some edges \<Longrightarrow> below rank (rank node) edges"
  by (auto simp: ranked_def below_def)


text \<open>The graph of \<^verbatim>\<open>define member: [user, group#member]\<close>.\<close>

definition example_weighted_graph :: WeightedGraph where
  "example_weighted_graph =
     \<lparr>wg_NodeWeights = [''group#member'' \<mapsto> [''user'' \<mapsto> Infinite], ''user'' \<mapsto> Map.empty],
      wg_Edges = [''group#member'' \<mapsto>
        [\<lparr>we_EdgeType = DirectEdge, we_To = ''user'', we_TuplesetRelation = [], we_Weights = [''user'' \<mapsto> 1]\<rparr>,
         \<lparr>we_EdgeType = DirectEdge, we_To = ''group#member'', we_TuplesetRelation = [],
          we_Weights = [''user'' \<mapsto> Infinite]\<rparr>]]\<rparr>"


end
