(* ===== verification/Reducers.thy ===== *)
theory Reducers
  imports Storage "HOL-Library.Multiset" "HOL-Library.Word"
begin

text \<open>
  The combination of concurrent sub-checks (\<^verbatim>\<open>internal/graph/check.go\<close>, from \<^verbatim>\<open>resolver\<close> to
  \<^verbatim>\<open>exclusion\<close>, and \<^verbatim>\<open>consumeDispatches\<close>). A reducer starts its handlers concurrently and reads their
  results in the order in which they arrive, until it can decide. Here it consumes a list of
  events: results, and the end of its context. Which lists are possible is what the transition system
  of \<^verbatim>\<open>resolver\<close> says; the decisions are shown not to depend on the order. An outer \<open>None\<close> says that
  the reducer waits for ever.
\<close>

section \<open>Responses\<close>

record ResolveCheckResponseMetadata =
  DatastoreQueryCount :: "32 word"
  CycleDetected :: bool
  Duration :: int

record ResolveCheckResponse =
  Allowed :: bool
  ResolutionMetadata :: ResolveCheckResponseMetadata

definition response :: "bool \<Rightarrow> bool \<Rightarrow> ResolveCheckResponse" where
  "response allowed cycle =
     \<lparr>Allowed = allowed,
      ResolutionMetadata = \<lparr>DatastoreQueryCount = 0, CycleDetected = cycle, Duration = 0\<rparr>\<rparr>"

definition GetCycleDetected :: "ResolveCheckResponse \<Rightarrow> bool" where
  "GetCycleDetected r = CycleDetected (ResolutionMetadata r)"

lemma response_simps [simp]:
  "Allowed (response a c) = a" "GetCycleDetected (response a c) = c"
  by (simp_all add: response_def GetCycleDetected_def)

type_synonym outcome = "(err, ResolveCheckResponse) result"

datatype event = Arrive outcome | CtxDone err

section \<open>Running the handlers\<close>

text \<open>
  \<^verbatim>\<open>resolver\<close>: one goroutine starts the handlers in order, each when the limiter has a free slot; a
  handler that finishes puts its result into the channel, unless the context ends first. The
  outcomes of the handlers are given by \<open>out\<close>; \<open>rs_received\<close> is what the reducer has read.
\<close>

record resolver_state =
  rs_waiting :: "nat list"
  rs_running :: "nat list"
  rs_channel :: "outcome list"
  rs_received :: "outcome list"
  rs_ctx :: "err option"

definition resolver_init :: "nat \<Rightarrow> resolver_state" where
  "resolver_init n = \<lparr>rs_waiting = [0..<n], rs_running = [], rs_channel = [], rs_received = [], rs_ctx = None\<rparr>"

inductive resolver_step :: "nat \<Rightarrow> (nat \<Rightarrow> outcome) \<Rightarrow> resolver_state \<Rightarrow> resolver_state \<Rightarrow> bool"
  for limit :: nat and out :: "nat \<Rightarrow> outcome" where
  start: "rs_waiting s = i # w \<Longrightarrow> length (rs_running s) < limit \<Longrightarrow>
    resolver_step limit out s (s\<lparr>rs_waiting := w, rs_running := i # rs_running s\<rparr>)"
| finish: "i \<in> set (rs_running s) \<Longrightarrow>
    resolver_step limit out s
      (s\<lparr>rs_running := remove1 i (rs_running s), rs_channel := rs_channel s @ [out i]\<rparr>)"
| started_late: "i \<in> set (rs_running s) \<Longrightarrow> rs_ctx s = Some e \<Longrightarrow>
    resolver_step limit out s
      (s\<lparr>rs_running := remove1 i (rs_running s), rs_channel := rs_channel s @ [Inl e]\<rparr>)"
| abandon: "i \<in> set (rs_running s) \<Longrightarrow> rs_ctx s \<noteq> None \<Longrightarrow>
    resolver_step limit out s (s\<lparr>rs_running := remove1 i (rs_running s)\<rparr>)"
| break_outer: "rs_waiting s \<noteq> [] \<Longrightarrow> rs_ctx s \<noteq> None \<Longrightarrow>
    resolver_step limit out s (s\<lparr>rs_waiting := []\<rparr>)"
| receive: "rs_channel s = x # xs \<Longrightarrow>
    resolver_step limit out s (s\<lparr>rs_channel := xs, rs_received := rs_received s @ [x]\<rparr>)"
| cancel: "rs_ctx s = None \<Longrightarrow> resolver_step limit out s (s\<lparr>rs_ctx := Some e\<rparr>)"

section \<open>Union, intersection, exclusion\<close>

text \<open>The argument \<open>drainErr\<close> is the panic that the wait group has recovered by the end, if any.\<close>

fun union_loop :: "nat \<Rightarrow> event list \<Rightarrow> err option \<Rightarrow> bool \<Rightarrow> outcome option" where
  "union_loop 0 evs elErr cycleDetected =
     Some (case elErr of Some e \<Rightarrow> Inl e | None \<Rightarrow> Inr (response False cycleDetected))"
| "union_loop (Suc n) [] elErr cycleDetected = None"
| "union_loop (Suc n) (CtxDone e # evs) elErr cycleDetected = Some (Inl e)"
| "union_loop (Suc n) (Arrive (Inl e) # evs) elErr cycleDetected = union_loop n evs (Some e) cycleDetected"
| "union_loop (Suc n) (Arrive (Inr r) # evs) elErr cycleDetected =
     (if Allowed r then Some (Inr r)
      else union_loop n evs elErr (cycleDetected \<or> GetCycleDetected r))"

definition union_reducer :: "err option \<Rightarrow> nat \<Rightarrow> event list \<Rightarrow> outcome option" where
  "union_reducer drainErr n evs =
     (case union_loop n evs None False of
        None \<Rightarrow> None
      | Some r \<Rightarrow> Some (case drainErr of Some e \<Rightarrow> Inl e | None \<Rightarrow> r))"

text \<open>\<^verbatim>\<open>errors.Join\<close> with an accumulated error that may be nil.\<close>

definition join_err :: "err option \<Rightarrow> err \<Rightarrow> err" where
  "join_err acc e = (case acc of None \<Rightarrow> e | Some a \<Rightarrow> ErrJoin a e)"

fun intersection_loop :: "nat \<Rightarrow> event list \<Rightarrow> err option \<Rightarrow> outcome option" where
  "intersection_loop 0 evs elErr =
     Some (case elErr of Some e \<Rightarrow> Inl e | None \<Rightarrow> Inr (response True False))"
| "intersection_loop (Suc n) [] elErr = None"
| "intersection_loop (Suc n) (CtxDone e # evs) elErr = Some (Inl e)"
| "intersection_loop (Suc n) (Arrive (Inl e) # evs) elErr = intersection_loop n evs (Some (join_err elErr e))"
| "intersection_loop (Suc n) (Arrive (Inr r) # evs) elErr =
     (if GetCycleDetected r \<or> \<not> Allowed r then Some (Inr r) else intersection_loop n evs elErr)"

definition intersection :: "err option \<Rightarrow> nat \<Rightarrow> event list \<Rightarrow> outcome option" where
  "intersection drainErr n evs =
     (if n = 0 then Some (Inr (response False False))
      else (case intersection_loop n evs None of
              None \<Rightarrow> None
            | Some r \<Rightarrow> Some (case drainErr of Some e \<Rightarrow> Inl e | None \<Rightarrow> r)))"

text \<open>
  The two operands of an exclusion have a channel each, so an event also says whose result it is.
  A panic of a handler is one of its outcomes here.
\<close>

datatype exclusion_event = Base outcome | Sub outcome | ExDone err

fun exclusion_loop :: "nat \<Rightarrow> exclusion_event list \<Rightarrow> err option \<Rightarrow> err option \<Rightarrow> outcome option" where
  "exclusion_loop 0 evs baseErr subErr =
     Some (case (baseErr, subErr) of
             (None, None) \<Rightarrow> Inr (response True False)
           | (Some b, None) \<Rightarrow> Inl b
           | (None, Some s) \<Rightarrow> Inl s
           | (Some b, Some s) \<Rightarrow> Inl (ErrJoin b s))"
| "exclusion_loop (Suc n) [] baseErr subErr = None"
| "exclusion_loop (Suc n) (ExDone e # evs) baseErr subErr = Some (Inl e)"
| "exclusion_loop (Suc n) (Base (Inl e) # evs) baseErr subErr = exclusion_loop n evs (Some e) subErr"
| "exclusion_loop (Suc n) (Base (Inr r) # evs) baseErr subErr =
     (if GetCycleDetected r then Some (Inr (response False True))
      else if \<not> Allowed r then Some (Inr (response False False))
      else exclusion_loop n evs baseErr subErr)"
| "exclusion_loop (Suc n) (Sub (Inl e) # evs) baseErr subErr = exclusion_loop n evs baseErr (Some e)"
| "exclusion_loop (Suc n) (Sub (Inr r) # evs) baseErr subErr =
     (if GetCycleDetected r then Some (Inr (response False True))
      else if Allowed r then Some (Inr (response False False))
      else exclusion_loop n evs baseErr subErr)"

definition exclusion :: "nat \<Rightarrow> exclusion_event list \<Rightarrow> outcome option" where
  "exclusion n evs =
     (if n \<noteq> 2 then Some (Inl (ErrWrap ''expected two rewrite operands for exclusion operator'' ErrUnknown))
      else exclusion_loop 2 evs None None)"

section \<open>Consuming dispatched checks\<close>

text \<open>
  \<^verbatim>\<open>consumeDispatches\<close>: the channel of outcomes is closed after the last one, which is the end of the
  list. After the loop the context is looked at once more.
\<close>

fun consume_loop :: "event list \<Rightarrow> err option \<Rightarrow> bool \<Rightarrow> outcome" where
  "consume_loop [] finalErr cycleDetected =
     (case finalErr of Some e \<Rightarrow> Inl e | None \<Rightarrow> Inr (response False cycleDetected))"
| "consume_loop (CtxDone e # evs) finalErr cycleDetected = Inl e"
| "consume_loop (Arrive (Inl e) # evs) finalErr cycleDetected = consume_loop evs (Some e) cycleDetected"
| "consume_loop (Arrive (Inr r) # evs) finalErr cycleDetected =
     (if Allowed r
      then (case evs of CtxDone e # _ \<Rightarrow> Inl e | _ \<Rightarrow> Inr r)
      else consume_loop evs finalErr (cycleDetected \<or> GetCycleDetected r))"

definition consumeDispatches :: "event list \<Rightarrow> outcome" where
  "consumeDispatches evs = consume_loop evs None False"
section \<open>Decisions\<close>

text \<open>What a caller sees of an outcome: granted, denied, or an error.\<close>

datatype verdict = Granted | Denied | Failed

fun decision :: "outcome \<Rightarrow> verdict" where
  "decision (Inl e) = Failed"
| "decision (Inr r) = (if Allowed r then Granted else Denied)"

fun cyclic :: "outcome \<Rightarrow> bool" where
  "cyclic (Inl e) = False"
| "cyclic (Inr r) = GetCycleDetected r"

definition any_decision :: "verdict set \<Rightarrow> verdict" where
  "any_decision D = (if Granted \<in> D then Granted else if Failed \<in> D then Failed else Denied)"

definition all_decision :: "verdict set \<Rightarrow> verdict" where
  "all_decision D = (if D = {} \<or> Denied \<in> D then Denied else if Failed \<in> D then Failed else Granted)"

text \<open>
  The responses of the checker never have both flags: a granted check reports no cycle.
\<close>

definition coherent :: "outcome \<Rightarrow> bool" where
  "coherent r \<longleftrightarrow> (decision r = Granted \<longrightarrow> \<not> cyclic r)"

lemma coherent_simps [simp]:
  "coherent (Inl e)" "coherent (Inr r) \<longleftrightarrow> \<not> (Allowed r \<and> GetCycleDetected r)"
  by (auto simp: coherent_def)

lemma union_loop_decision:
  "\<exists>r. union_loop (length os) (map Arrive os) elErr cyc = Some r \<and>
       decision r = (if Granted \<in> decision ` set os then Granted
                     else if elErr \<noteq> None \<or> Failed \<in> decision ` set os then Failed else Denied) \<and>
       (decision r = Denied \<longrightarrow> cyclic r = (cyc \<or> (\<exists>x\<in>set os. cyclic x))) \<and>
       (decision r = Granted \<longrightarrow> r \<in> set os)"
proof (induction os arbitrary: elErr cyc)
  case Nil
  then show ?case by (cases elErr) auto
next
  case (Cons x os)
  show ?case
  proof (cases x)
    case (Inl e)
    with Cons.IH [of "Some e" cyc] show ?thesis by auto
  next
    case (Inr y)
    with Cons.IH [of elErr "cyc \<or> GetCycleDetected y"] show ?thesis by auto
  qed
qed

lemma mset_Arrive:
  assumes "mset evs = image_mset Arrive (mset os)"
  obtains os' where "evs = map Arrive os'" "mset os' = mset os" "set os' = set os" "length os' = length os"
proof -
  define u where "u = (\<lambda>e. case e of Arrive r \<Rightarrow> r | CtxDone e \<Rightarrow> Inl e)"
  have "set evs = Arrive ` set os" using arg_cong [OF assms, of set_mset] by simp
  then have evs: "evs = map Arrive (map u evs)"
    by (auto simp: u_def comp_def intro!: map_idI [symmetric])
  have "mset (map u evs) = image_mset u (image_mset Arrive (mset os))" by (simp add: assms)
  also have "\<dots> = mset os" by (simp add: u_def multiset.map_comp comp_def)
  finally have "mset (map u evs) = mset os" .
  then show thesis
    using that [OF evs] mset_eq_setD mset_eq_length by blast
qed

text \<open>
  C14: for every order in which the results of its handlers arrive, the union returns; it grants the
  check when some handler does, otherwise fails when some handler failed, and otherwise denies it,
  reporting a cycle exactly when some handler did.
\<close>

theorem union_order_independent:
  assumes "mset evs = image_mset Arrive (mset os)"
  shows "\<exists>r. union_reducer None (length os) evs = Some r \<and> decision r = any_decision (decision ` set os) \<and>
             (decision r = Denied \<longrightarrow> cyclic r = (\<exists>x\<in>set os. cyclic x))"
proof -
  obtain os' where os': "evs = map Arrive os'" "mset os' = mset os" "set os' = set os" "length os' = length os"
    using assms by (rule mset_Arrive)
  have "\<exists>r. union_loop (length os') (map Arrive os') None False = Some r \<and>
      decision r = any_decision (decision ` set os') \<and>
      (decision r = Denied \<longrightarrow> cyclic r = (\<exists>x\<in>set os'. cyclic x))"
    using union_loop_decision [of os' None False] unfolding any_decision_def simp_thms by blast
  with os' show ?thesis by (auto simp: union_reducer_def)
qed

lemma intersection_loop_decision:
  assumes "\<forall>x\<in>set os. coherent x"
  shows "\<exists>r. intersection_loop (length os) (map Arrive os) elErr = Some r \<and>
       decision r = (if Denied \<in> decision ` set os then Denied
                     else if elErr \<noteq> None \<or> Failed \<in> decision ` set os then Failed else Granted) \<and> coherent r"
  using assms
proof (induction os arbitrary: elErr)
  case Nil
  then show ?case by (cases elErr) auto
next
  case (Cons x os)
  show ?case
  proof (cases x)
    case (Inl e)
    with Cons.IH [of "Some (join_err elErr e)"] Cons.prems show ?thesis by auto
  next
    case (Inr y)
    with Cons.IH [of elErr] Cons.prems show ?thesis by auto
  qed
qed

text \<open>
  C15: for every order of arrival, the intersection returns; it denies the check when it has no
  handler or some handler denies it, otherwise fails when some handler failed, and otherwise grants
  it. This needs that no handler grants the check and reports a cycle at the same time.
\<close>

theorem intersection_order_independent:
  assumes "mset evs = image_mset Arrive (mset os)" and "\<forall>x\<in>set os. coherent x"
  shows "\<exists>r. intersection None (length os) evs = Some r \<and> decision r = all_decision (decision ` set os) \<and> coherent r"
proof -
  obtain os' where os': "evs = map Arrive os'" "mset os' = mset os" "set os' = set os" "length os' = length os"
    using assms(1) by (rule mset_Arrive)
  show ?thesis
  proof (cases "os = []")
    case True
    then show ?thesis by (auto simp: intersection_def all_decision_def)
  next
    case False
    have "\<forall>x\<in>set os'. coherent x" using assms(2) os'(3) by simp
    from intersection_loop_decision [OF this, of None]
    have "\<exists>r. intersection_loop (length os') (map Arrive os') None = Some r \<and>
        decision r = (if Denied \<in> decision ` set os' then Denied
                      else if Failed \<in> decision ` set os' then Failed else Granted) \<and> coherent r"
      unfolding simp_thms by blast
    with os' False show ?thesis by (auto simp: intersection_def all_decision_def)
  qed
qed

text \<open>
  In both orders of arrival of the two operands, the exclusion denies the check when the base
  denies it, the subtracted part grants it, or one of them met a cycle; otherwise it fails when one
  of them failed, and otherwise grants it.
\<close>

theorem exclusion_order_independent:
  assumes "mset evs = {#Base b, Sub s#}"
  shows "\<exists>r. exclusion 2 evs = Some r \<and> coherent r \<and>
    decision r = (if decision b = Denied \<or> decision s = Granted \<or> cyclic b \<or> cyclic s then Denied
                  else if decision b = Failed \<or> decision s = Failed then Failed else Granted)"
proof -
  have "size (mset evs) = 2" by (simp add: assms)
  then obtain x y where xy: "evs = [x, y]"
    by (auto simp: numeral_2_eq_2 length_Suc_conv)
  with arg_cong [OF assms, of set_mset] have "evs = [Base b, Sub s] \<or> evs = [Sub s, Base b]"
    by (auto simp: doubleton_eq_iff)
  then show ?thesis
    by (cases b; cases s) (auto simp: exclusion_def numeral_2_eq_2)
qed

theorem union_order_independent_witness:
  "\<exists>r. union_reducer None 2 [Arrive (Inr (response True False)), Arrive (Inl ErrNotFound)] = Some r \<and> decision r = Granted"
  using union_order_independent [of "[Arrive (Inr (response True False)), Arrive (Inl ErrNotFound)]"
      "[Inl ErrNotFound, Inr (response True False)]"]
  by (auto simp: any_decision_def add_mset_commute numeral_2_eq_2)

theorem intersection_order_independent_witness:
  "\<exists>r. intersection None 2 [Arrive (Inl ErrNotFound), Arrive (Inr (response False True))] = Some r \<and> decision r = Denied"
proof -
  have "mset [Arrive (Inl ErrNotFound), Arrive (Inr (response False True))] =
      image_mset Arrive (mset [Inr (response False True), Inl ErrNotFound])" by (simp add: add_mset_commute)
  from intersection_order_independent [OF this] show ?thesis by (auto simp: all_decision_def numeral_2_eq_2)
qed

theorem exclusion_order_independent_witness:
  "\<exists>r. exclusion 2 [Sub (Inr (response False False)), Base (Inr (response True False))] = Some r \<and> decision r = Granted"
proof -
  have "mset [Sub (Inr (response False False)), Base (Inr (response True False))] =
      {#Base (Inr (response True False)), Sub (Inr (response False False))#}" by simp
  from exclusion_order_independent [OF this] show ?thesis by auto
qed

lemma consume_loop_decision:
  "decision (consume_loop (map Arrive os) elErr cyc) =
     (if Granted \<in> decision ` set os then Granted
      else if elErr \<noteq> None \<or> Failed \<in> decision ` set os then Failed else Denied)"
proof (induction os arbitrary: elErr cyc)
  case Nil
  then show ?case by (cases elErr) auto
next
  case (Cons x os)
  then show ?case by (cases x; cases os) auto
qed

lemma consume_loop_coherent:
  "\<forall>x\<in>set os. coherent x \<Longrightarrow> coherent (consume_loop (map Arrive os) elErr cyc)"
proof (induction os arbitrary: elErr cyc)
  case Nil
  then show ?case by (cases elErr) auto
next
  case (Cons x os)
  then show ?case by (cases x; cases os) auto
qed

lemma consumeDispatches_decision:
  "decision (consumeDispatches (map Arrive os)) = any_decision (decision ` set os)"
  by (simp add: consumeDispatches_def consume_loop_decision any_decision_def)

section \<open>The runs of the resolver\<close>

definition resolver_work :: "resolver_state \<Rightarrow> nat" where
  "resolver_work s = 3 * length (rs_waiting s) + 2 * length (rs_running s) + length (rs_channel s)"

definition all_outcomes :: "(nat \<Rightarrow> outcome) \<Rightarrow> resolver_state \<Rightarrow> outcome multiset" where
  "all_outcomes out s =
     image_mset out (mset (rs_waiting s) + mset (rs_running s)) + mset (rs_channel s) + mset (rs_received s)"

lemma resolver_step_ctx: "resolver_step limit out s s' \<Longrightarrow> rs_ctx s' = None \<Longrightarrow> rs_ctx s = None"
  by (cases rule: resolver_step.cases) auto

lemma image_mset_remove1:
  "i \<in> set xs \<Longrightarrow> image_mset f (mset xs) = add_mset (f i) (image_mset f (mset (remove1 i xs)))"
  by (induction xs) auto

lemma resolver_step_outcomes:
  "resolver_step limit out s s' \<Longrightarrow> rs_ctx s' = None \<Longrightarrow> all_outcomes out s' = all_outcomes out s"
  by (cases rule: resolver_step.cases) (auto simp: all_outcomes_def dest!: image_mset_remove1 [where f = out])

lemma resolver_step_limit:
  "resolver_step limit out s s' \<Longrightarrow> length (rs_running s) \<le> limit \<Longrightarrow> length (rs_running s') \<le> limit"
  by (cases rule: resolver_step.cases) (auto simp: length_remove1)

lemma resolver_runs:
  assumes "(resolver_step limit out)\<^sup>*\<^sup>* (resolver_init n) s" and "rs_ctx s = None"
  shows "all_outcomes out s = image_mset out (mset [0..<n]) \<and> length (rs_running s) \<le> limit"
  using assms
proof (induction rule: rtranclp_induct)
  case base
  then show ?case by (simp add: all_outcomes_def resolver_init_def)
next
  case (step s s')
  then have "rs_ctx s = None" by (blast dest: resolver_step_ctx)
  with step show ?case by (simp add: resolver_step_outcomes resolver_step_limit)
qed

lemma resolver_progress:
  assumes "0 < limit" and "rs_waiting s \<noteq> [] \<or> rs_running s \<noteq> [] \<or> rs_channel s \<noteq> []"
  shows "\<exists>s'. resolver_step limit out s s' \<and> rs_ctx s' = rs_ctx s \<and> resolver_work s' < resolver_work s"
proof (cases "rs_running s")
  case (Cons i running)
  then have "resolver_step limit out s
      (s\<lparr>rs_running := remove1 i (rs_running s), rs_channel := rs_channel s @ [out i]\<rparr>)"
    by (intro resolver_step.finish) simp
  with Cons show ?thesis by (intro exI, intro conjI) (assumption, simp_all add: resolver_work_def)
next
  case running: Nil
  show ?thesis
  proof (cases "rs_waiting s")
    case (Cons i w)
    then have "resolver_step limit out s (s\<lparr>rs_waiting := w, rs_running := i # rs_running s\<rparr>)"
      using running assms(1) by (intro resolver_step.start) simp_all
    with Cons show ?thesis by (intro exI, intro conjI) (assumption, simp_all add: resolver_work_def)
  next
    case Nil
    with running assms(2) obtain x xs where c: "rs_channel s = x # xs" by (cases "rs_channel s") auto
    then have "resolver_step limit out s (s\<lparr>rs_channel := xs, rs_received := rs_received s @ [x]\<rparr>)"
      by (rule resolver_step.receive)
    with c show ?thesis by (intro exI, intro conjI) (assumption, simp_all add: resolver_work_def)
  qed
qed

text \<open>
  C16: as long as its context has not ended, a resolver with a positive concurrency limit never has
  more handlers running than the limit, never gets stuck before all results have been received, and
  what has been received when it stops is every handler's result exactly once, in some order.
\<close>

theorem resolver_delivers:
  assumes "(resolver_step limit out)\<^sup>*\<^sup>* (resolver_init n) s" and "rs_ctx s = None" and "0 < limit"
  shows "length (rs_running s) \<le> limit \<and>
    (length (rs_received s) < n \<longrightarrow>
       (\<exists>s'. resolver_step limit out s s' \<and> rs_ctx s' = None \<and> resolver_work s' < resolver_work s)) \<and>
    (length (rs_received s) = n \<longrightarrow> mset (rs_received s) = image_mset out (mset [0..<n]))"
proof -
  note all = resolver_runs [OF assms(1,2)]
  have sum: "length (rs_waiting s) + length (rs_running s) + length (rs_channel s) + length (rs_received s) = n"
    using arg_cong [OF conjunct1 [OF all], of size] by (simp add: all_outcomes_def)
  have "\<exists>s'. resolver_step limit out s s' \<and> rs_ctx s' = None \<and> resolver_work s' < resolver_work s"
    if "length (rs_received s) < n"
  proof -
    have "rs_waiting s \<noteq> [] \<or> rs_running s \<noteq> [] \<or> rs_channel s \<noteq> []" using sum that by auto
    from resolver_progress [OF assms(3) this, of out] assms(2) show ?thesis by simp
  qed
  moreover have "mset (rs_received s) = image_mset out (mset [0..<n])" if "length (rs_received s) = n"
  proof -
    have "rs_waiting s = []" "rs_running s = []" "rs_channel s = []" using sum that by simp_all
    with all show ?thesis by (simp add: all_outcomes_def)
  qed
  ultimately show ?thesis using all by blast
qed

theorem resolver_delivers_witness:
  "\<exists>s'. resolver_step 1 (\<lambda>_. Inl ErrNotFound) (resolver_init 2) s' \<and> rs_ctx s' = None \<and>
        resolver_work s' < resolver_work (resolver_init 2)"
  using resolver_delivers [of 1 "\<lambda>_. Inl ErrNotFound" 2 "resolver_init 2"]
  by (simp add: resolver_init_def)


end
