(* ===== verification/Check.thy ===== *)
theory Check
  imports Validation FastPathChoice Reducers Iterators
begin

text \<open>
  The check engine (\<^verbatim>\<open>internal/graph/check.go\<close>, \<^verbatim>\<open>resolve_check_request.go\<close>): a check is resolved by
  walking the rewrite of the relation, with sub-checks dispatched to a delegate. The values that
  travel in the Go context (type system and tuple reader), the configuration of the checker and the
  fast paths form the record \<open>LocalChecker\<close>. The order in which concurrent results arrive is given by
  a scheduler, a function of the place in the evaluation; statements that hold for every scheduler
  hold for every interleaving. A panic of a condition is recovered by the reducers and pools; it is
  the error \<open>ErrPanic\<close> of the condition filter here.
\<close>

section \<open>Requests, readers and checkers\<close>

record ResolveCheckRequest =
  rq_StoreID :: string
  rq_AuthorizationModelID :: string
  rq_TupleKey :: tuple_key
  rq_ContextualTuples :: "tuple_key list"
  rq_Context :: "pstruct option"
  rq_Depth :: "32 word"
  rq_VisitedPaths :: "string list"
  rq_Consistency :: nat
  rq_LastCacheInvalidationTime :: int
  rq_invariantCacheKey :: string

text \<open>\<^verbatim>\<open>storage.RelationshipTupleReader\<close>, with the iterators it returns.\<close>

record 's RelationshipTupleReader =
  ds_Iterator :: "('s, tuple) Iterator"
  ds_Read :: "string \<Rightarrow> tuple_key \<Rightarrow> (err, 's) result"
  ds_ReadUserTuple :: "string \<Rightarrow> tuple_key \<Rightarrow> (err, tuple) result"
  ds_ReadUsersetTuples :: "string \<Rightarrow> ReadUsersetTuplesFilter \<Rightarrow> (err, 's) result"
  ds_ReadStartingWithUser :: "string \<Rightarrow> ReadStartingWithUserFilter \<Rightarrow> (err, 's) result"

type_synonym 's filtered = "'s once_state once_state conditions_state"

record ('s, 'c) LocalChecker =
  ck_maxResolutionDepth :: "32 word"
  ck_ctx :: ctx
  ck_typesys :: TypeSystem
  ck_ds :: "'s RelationshipTupleReader"
  ck_stdlib :: stdlib
  ck_cel :: "'c CEL"
  ck_checkUsersetFastPathV2 :: "ResolveCheckRequest \<Rightarrow> 's filtered \<Rightarrow> outcome option"
  ck_recursiveUsersetFastPathV2 :: "ResolveCheckRequest \<Rightarrow> 's filtered \<Rightarrow> outcome option"
  ck_checkTTUFastPathV2 :: "ResolveCheckRequest \<Rightarrow> string \<times> string \<Rightarrow> 's filtered \<Rightarrow> outcome option"
  ck_recursiveTTUFastPathV2 :: "ResolveCheckRequest \<Rightarrow> string \<times> string \<Rightarrow> 's filtered \<Rightarrow> outcome option"

text \<open>
  A scheduler gives, for a place in the evaluation and the number of results expected there, the
  order of arrival. Places are lists of positions, innermost first.
\<close>

datatype arrival = Ready nat | Done err

type_synonym scheduler = "nat list \<Rightarrow> nat \<Rightarrow> arrival list"

type_synonym delegate = "nat list \<Rightarrow> ResolveCheckRequest \<Rightarrow> outcome option"

definition arrived :: "'a list \<Rightarrow> arrival list \<Rightarrow> arrival list" where
  "arrived outs arr = filter (\<lambda>a. case a of Ready i \<Rightarrow> i < length outs | Done e \<Rightarrow> True) arr"

definition deliver :: "outcome list \<Rightarrow> arrival list \<Rightarrow> event list" where
  "deliver outs arr = map (\<lambda>a. case a of Ready i \<Rightarrow> Arrive (outs ! i) | Done e \<Rightarrow> CtxDone e) (arrived outs arr)"

definition deliver_exclusion :: "outcome list \<Rightarrow> arrival list \<Rightarrow> exclusion_event list" where
  "deliver_exclusion outs arr =
     map (\<lambda>a. case a of Ready i \<Rightarrow> (if i = 0 then Base (outs ! i) else Sub (outs ! i)) | Done e \<Rightarrow> ExDone e)
       (arrived outs arr)"

fun sequence :: "'a option list \<Rightarrow> 'a list option" where
  "sequence [] = Some []"
| "sequence (x # xs) =
     (case x of None \<Rightarrow> None | Some y \<Rightarrow> (case sequence xs of None \<Rightarrow> None | Some ys \<Rightarrow> Some (y # ys)))"

section \<open>Reading tuples\<close>

definition tuple_filter :: "('s, 'c) LocalChecker \<Rightarrow> tuple_key \<Rightarrow> bool" where
  "tuple_filter ck tk \<longleftrightarrow> FilterInvalidTuples (ck_stdlib ck) (ck_typesys ck) tk = Some True"

definition condition_filter :: "('s, 'c) LocalChecker \<Rightarrow> ResolveCheckRequest \<Rightarrow> tuple_key \<Rightarrow> (err, bool) result" where
  "condition_filter ck req tk =
     (case BuildTupleKeyConditionFilter (ck_stdlib ck) (ck_cel ck) (ck_ctx ck) (rq_Context req) (ck_typesys ck) tk of
        None \<Rightarrow> Inl ErrPanic
      | Some r \<Rightarrow> r)"

definition filteredIter :: "('s, 'c) LocalChecker \<Rightarrow> ResolveCheckRequest \<Rightarrow> ('s filtered, tuple_key) Iterator" where
  "filteredIter ck req =
     ConditionsFilteredTupleKeyIterator
       (filteredTupleKeyIterator (tupleKeyIterator (ds_Iterator (ck_ds ck))) (tuple_filter ck))
       (condition_filter ck req)"

definition NewFilteredIter :: "'s \<Rightarrow> 's filtered" where
  "NewFilteredIter s = NewConditionsFilteredTupleKeyIterator \<lparr>inner = \<lparr>inner = s, once = False\<rparr>, once = False\<rparr>"

section \<open>Direct relationships\<close>

definition checkPublicAssignable :: "('s, 'c) LocalChecker \<Rightarrow> ResolveCheckRequest \<Rightarrow> outcome option" where
  "checkPublicAssignable ck req =
     (let tk = rq_TupleKey req; userType = GetType (tk_user tk)
      in case ds_ReadUsersetTuples (ck_ds ck) (rq_StoreID req)
                \<lparr>ruf_Object = tk_object tk, ruf_Relation = tk_relation tk,
                 ruf_AllowedUserTypeRestrictions = [WildcardRelationReference userType]\<rparr> of
           Inl e \<Rightarrow> Some (Inl e)
         | Inr s \<Rightarrow>
             (case iNext (filteredIter ck req) (ck_ctx ck) (NewFilteredIter s) of
                None \<Rightarrow> None
              | Some (Inl e, _) \<Rightarrow>
                  if errors_Is e ErrIteratorDone then Some (Inr (response False False)) else Some (Inl e)
              | Some (Inr _, _) \<Rightarrow> Some (Inr (response True False))))"

definition checkDirectUserTuple :: "('s, 'c) LocalChecker \<Rightarrow> ResolveCheckRequest \<Rightarrow> outcome" where
  "checkDirectUserTuple ck req =
     (case ds_ReadUserTuple (ck_ds ck) (rq_StoreID req) (rq_TupleKey req) of
        Inl e \<Rightarrow> if errors_Is e ErrNotFound then Inr (response False False) else Inl e
      | Inr t \<Rightarrow>
          if \<not> tuple_filter ck (t_key t) then Inr (response False False)
          else (case condition_filter ck req (t_key t) of
                  Inl e \<Rightarrow> Inl e
                | Inr conditionMet \<Rightarrow> Inr (response conditionMet False)))"

definition shouldCheckDirectTuple :: "TypeSystem \<Rightarrow> tuple_key \<Rightarrow> bool" where
  "shouldCheckDirectTuple typesys tk \<longleftrightarrow>
     IsDirectlyRelated typesys
       (DirectRelationReference (GetType (tk_object tk)) (tk_relation tk))
       (DirectRelationReference (GetType (tk_user tk)) (Tuples.GetRelation (tk_user tk))) = Inr True"

definition shouldCheckPublicAssignable :: "TypeSystem \<Rightarrow> tuple_key \<Rightarrow> bool" where
  "shouldCheckPublicAssignable typesys tk \<longleftrightarrow>
     \<not> IsObjectRelation (tk_user tk) \<and>
     IsPubliclyAssignable typesys
       (DirectRelationReference (GetType (tk_object tk)) (tk_relation tk)) (GetType (tk_user tk)) = Inr True"

section \<open>Dispatching\<close>

datatype dispatchMsg = MsgErr err | MsgShortCircuit | MsgDispatch tuple_key

partial_function (option) produceUsersetDispatches ::
  "('t, tuple_key) Iterator \<Rightarrow> TypeSystem \<Rightarrow> ctx \<Rightarrow> tuple_key \<Rightarrow> 't \<Rightarrow> dispatchMsg list option" where
  "produceUsersetDispatches it typesys cx reqTupleKey st =
     (case iNext it cx st of
        None \<Rightarrow> None
      | Some (r, st') \<Rightarrow>
          (case r of
             Inl e \<Rightarrow> Some (if IterIsDoneOrCancelled e then [] else [MsgErr e])
           | Inr t \<Rightarrow>
               let (usersetObject, usersetRelation) = SplitObjectRelation (tk_user t)
               in if IsTypedWildcard usersetObject \<and> IsSchemaVersionSupported (ts_schemaVersion typesys) \<and>
                     GetType (tk_user reqTupleKey) = GetType usersetObject
                  then Some [MsgShortCircuit]
                  else Option.bind (produceUsersetDispatches it typesys cx reqTupleKey st')
                    (\<lambda>msgs. Some (if usersetRelation \<noteq> []
                                  then MsgDispatch (NewTupleKey usersetObject usersetRelation (tk_user reqTupleKey)) # msgs
                                  else msgs))))"

declare produceUsersetDispatches.simps [code]

partial_function (option) produceTTUDispatches ::
  "('t, tuple_key) Iterator \<Rightarrow> TypeSystem \<Rightarrow> ctx \<Rightarrow> string \<Rightarrow> tuple_key \<Rightarrow> 't \<Rightarrow> dispatchMsg list option" where
  "produceTTUDispatches it typesys cx computedRelation reqTupleKey st =
     (case iNext it cx st of
        None \<Rightarrow> None
      | Some (r, st') \<Rightarrow>
          (case r of
             Inl e \<Rightarrow> Some (if IterIsDoneOrCancelled e then [] else [MsgErr e])
           | Inr t \<Rightarrow>
               let userObj = fst (SplitObjectRelation (tk_user t));
                   undefined_relation = (case TypeSystem.GetRelation typesys (GetType userObj) computedRelation of
                                           Inl e \<Rightarrow> errors_Is e ErrRelationUndefined
                                         | Inr _ \<Rightarrow> False)
               in Option.bind (produceTTUDispatches it typesys cx computedRelation reqTupleKey st')
                    (\<lambda>msgs. Some (if undefined_relation then msgs
                                  else MsgDispatch (NewTupleKey userObj computedRelation (tk_user reqTupleKey)) # msgs))))"

declare produceTTUDispatches.simps [code]

definition dispatch :: "delegate \<Rightarrow> nat list \<Rightarrow> ResolveCheckRequest \<Rightarrow> tuple_key \<Rightarrow> outcome option" where
  "dispatch dl path parentReq tk = dl path (parentReq\<lparr>rq_TupleKey := tk, rq_Depth := rq_Depth parentReq + 1\<rparr>)"

fun processDispatches :: "delegate \<Rightarrow> nat list \<Rightarrow> ResolveCheckRequest \<Rightarrow> nat \<Rightarrow> dispatchMsg list \<Rightarrow> outcome list option" where
  "processDispatches dl path req i [] = Some []"
| "processDispatches dl path req i (MsgErr e # msgs) = map_option ((#) (Inl e)) (processDispatches dl path req (i + 1) msgs)"
| "processDispatches dl path req i (MsgShortCircuit # msgs) = Some [Inr (response True False)]"
| "processDispatches dl path req i (MsgDispatch tk # msgs) =
     (case dispatch dl (i # path) req tk of
        None \<Rightarrow> None
      | Some r \<Rightarrow> map_option ((#) r) (processDispatches dl path req (i + 1) msgs))"

definition checkUsersetSlowPath ::
  "('s, 'c) LocalChecker \<Rightarrow> delegate \<Rightarrow> scheduler \<Rightarrow> nat list \<Rightarrow> ResolveCheckRequest \<Rightarrow> 's filtered \<Rightarrow> outcome option" where
  "checkUsersetSlowPath ck dl sched path req st =
     (case produceUsersetDispatches (filteredIter ck req) (ck_typesys ck) (ck_ctx ck) (rq_TupleKey req) st of
        None \<Rightarrow> None
      | Some msgs \<Rightarrow>
          (case processDispatches dl path req 0 msgs of
             None \<Rightarrow> None
           | Some outs \<Rightarrow> Some (consumeDispatches (deliver outs (sched path (length outs))))))"

definition checkTTUSlowPath ::
  "('s, 'c) LocalChecker \<Rightarrow> delegate \<Rightarrow> scheduler \<Rightarrow> nat list \<Rightarrow> ResolveCheckRequest \<Rightarrow> string \<Rightarrow> 's filtered \<Rightarrow> outcome option" where
  "checkTTUSlowPath ck dl sched path req computedRelation st =
     (case produceTTUDispatches (filteredIter ck req) (ck_typesys ck) (ck_ctx ck) computedRelation (rq_TupleKey req) st of
        None \<Rightarrow> None
      | Some msgs \<Rightarrow>
          (case processDispatches dl path req 0 msgs of
             None \<Rightarrow> None
           | Some outs \<Rightarrow> Some (consumeDispatches (deliver outs (sched path (length outs))))))"
section \<open>Usersets and tuple-to-usersets\<close>

definition checkDirectUsersetTuples ::
  "('s, 'c) LocalChecker \<Rightarrow> delegate \<Rightarrow> scheduler \<Rightarrow> nat list \<Rightarrow> ResolveCheckRequest \<Rightarrow> relation_reference list \<Rightarrow>
   outcome option" where
  "checkDirectUsersetTuples ck dl sched path req directlyRelatedUsersetTypes =
     (let tk = rq_TupleKey req; objectType = GetType (tk_object tk); rel = tk_relation tk;
          userType = GetType (tk_user tk);
          resolver = (if IsObjectRelation (tk_user tk) then Some (checkUsersetSlowPath ck dl sched path)
                      else case UsersetCanFastPathWeight2 (ck_typesys ck) objectType rel userType directlyRelatedUsersetTypes of
                             None \<Rightarrow> None
                           | Some fast \<Rightarrow>
                               if fast then Some (ck_checkUsersetFastPathV2 ck)
                               else map_option (\<lambda>recursive.
                                      if recursive then ck_recursiveUsersetFastPathV2 ck
                                      else checkUsersetSlowPath ck dl sched path)
                                    (RecursiveUsersetCanFastPathV2 (ck_typesys ck) objectType rel userType))
      in case ctx_Err (ck_ctx ck) of
           Some e \<Rightarrow> Some (Inl e)
         | None \<Rightarrow>
             (case resolver of
                None \<Rightarrow> None
              | Some resolve \<Rightarrow>
                  (case ds_ReadUsersetTuples (ck_ds ck) (rq_StoreID req)
                          \<lparr>ruf_Object = tk_object tk, ruf_Relation = rel,
                           ruf_AllowedUserTypeRestrictions = directlyRelatedUsersetTypes\<rparr> of
                     Inl e \<Rightarrow> Some (Inl e)
                   | Inr s \<Rightarrow> resolve req (NewFilteredIter s))))"

definition checkDirect ::
  "('s, 'c) LocalChecker \<Rightarrow> delegate \<Rightarrow> scheduler \<Rightarrow> nat list \<Rightarrow> ResolveCheckRequest \<Rightarrow> outcome option" where
  "checkDirect ck dl sched path req =
     (case ctx_Err (ck_ctx ck) of
        Some e \<Rightarrow> Some (Inl e)
      | None \<Rightarrow>
          let tk = rq_TupleKey req; typesys = ck_typesys ck;
              directlyRelatedUsersetTypes =
                (case DirectlyRelatedUsersets typesys (GetType (tk_object tk)) (tk_relation tk) of
                   Inl _ \<Rightarrow> [] | Inr refs \<Rightarrow> refs);
              checkFuncs =
                (if shouldCheckDirectTuple typesys tk then [Some (checkDirectUserTuple ck req)] else []) @
                (if shouldCheckPublicAssignable typesys tk then [checkPublicAssignable ck req] else []) @
                (if directlyRelatedUsersetTypes \<noteq> []
                 then [checkDirectUsersetTuples ck dl sched (0 # path) req directlyRelatedUsersetTypes] else [])
          in case sequence checkFuncs of
               None \<Rightarrow> None
             | Some outs \<Rightarrow> union_reducer None (length outs) (deliver outs (sched path (length outs))))"

definition checkTTU ::
  "('s, 'c) LocalChecker \<Rightarrow> delegate \<Rightarrow> scheduler \<Rightarrow> nat list \<Rightarrow> ResolveCheckRequest \<Rightarrow> string \<Rightarrow> string \<Rightarrow> outcome option" where
  "checkTTU ck dl sched path req tuplesetRelation computedRelation =
     (let tk = rq_TupleKey req; objectType = GetType (tk_object tk); rel = tk_relation tk;
          userType = GetType (tk_user tk)
      in case ctx_Err (ck_ctx ck) of
           Some e \<Rightarrow> Some (Inl e)
         | None \<Rightarrow>
             (case ds_Read (ck_ds ck) (rq_StoreID req) (NewTupleKey (tk_object tk) tuplesetRelation []) of
                Inl e \<Rightarrow> Some (Inl e)
              | Inr s \<Rightarrow>
                  if IsObjectRelation (tk_user tk)
                  then checkTTUSlowPath ck dl sched path req computedRelation (NewFilteredIter s)
                  else (case TTUCanFastPathWeight2 (ck_typesys ck) objectType rel userType tuplesetRelation computedRelation of
                          None \<Rightarrow> None
                        | Some True \<Rightarrow> ck_checkTTUFastPathV2 ck req (tuplesetRelation, computedRelation) (NewFilteredIter s)
                        | Some False \<Rightarrow>
                            (case RecursiveTTUCanFastPathV2 (ck_typesys ck) objectType rel userType tuplesetRelation computedRelation of
                               None \<Rightarrow> None
                             | Some True \<Rightarrow> ck_recursiveTTUFastPathV2 ck req (tuplesetRelation, computedRelation) (NewFilteredIter s)
                             | Some False \<Rightarrow> checkTTUSlowPath ck dl sched path req computedRelation (NewFilteredIter s)))))"

section \<open>Rewrites\<close>

text \<open>
  The relations of the type of the object that have not been visited with this object and user; a
  computed userset stays on the object, so they bound the recursion that is not dispatched.
\<close>

definition unresolved :: "TypeSystem \<Rightarrow> ResolveCheckRequest \<Rightarrow> string set" where
  "unresolved t req =
     {r \<in> fst ` set (relations_of t (GetType (tk_object (rq_TupleKey req)))).
        TupleKeyToString (NewTupleKey (tk_object (rq_TupleKey req)) r (tk_user (rq_TupleKey req)))
          \<notin> set (rq_VisitedPaths req)}"

lemma TupleKeyToString_NewTupleKey:
  "TupleKeyToString (NewTupleKey (tk_object tk) (tk_relation tk) (tk_user tk)) = TupleKeyToString tk"
  by (simp add: TupleKeyToString_def NewTupleKey_def)

lemma unresolved_decreases:
  assumes "TypeSystem.GetRelation t (GetType (tk_object (rq_TupleKey req))) (tk_relation (rq_TupleKey req)) = Inr r"
    and "TupleKeyToString (rq_TupleKey req) \<notin> set (rq_VisitedPaths req)"
  shows "card (unresolved t (req\<lparr>rq_VisitedPaths := TupleKeyToString (rq_TupleKey req) # rq_VisitedPaths req\<rparr>))
       < card (unresolved t req)"
proof (rule psubset_card_mono)
  show "finite (unresolved t req)" by (simp add: unresolved_def)
  have "tk_relation (rq_TupleKey req) \<in> unresolved t req"
    using assms by (force simp: unresolved_def GetRelation_Inr TupleKeyToString_NewTupleKey dest: map_of_SomeD)
  moreover have "tk_relation (rq_TupleKey req)
      \<notin> unresolved t (req\<lparr>rq_VisitedPaths := TupleKeyToString (rq_TupleKey req) # rq_VisitedPaths req\<rparr>)"
    by (simp add: unresolved_def TupleKeyToString_NewTupleKey)
  moreover have "unresolved t (req\<lparr>rq_VisitedPaths := TupleKeyToString (rq_TupleKey req) # rq_VisitedPaths req\<rparr>)
      \<subseteq> unresolved t req"
    by (auto simp: unresolved_def)
  ultimately show "unresolved t (req\<lparr>rq_VisitedPaths := TupleKeyToString (rq_TupleKey req) # rq_VisitedPaths req\<rparr>)
      \<subset> unresolved t req"
    by blast
qed

definition computed_request :: "ResolveCheckRequest \<Rightarrow> string \<Rightarrow> ResolveCheckRequest" where
  "computed_request req rel =
     req\<lparr>rq_TupleKey := NewTupleKey (tk_object (rq_TupleKey req)) rel (tk_user (rq_TupleKey req))\<rparr>"

lemma unresolved_computed [simp]: "unresolved t (computed_request req rel) = unresolved t req"
  by (simp add: unresolved_def computed_request_def NewTupleKey_def)

function (sequential) ResolveCheck ::
  "('s, 'c) LocalChecker \<Rightarrow> delegate \<Rightarrow> scheduler \<Rightarrow> nat list \<Rightarrow> ResolveCheckRequest \<Rightarrow> outcome option"
  and CheckRewrite ::
  "('s, 'c) LocalChecker \<Rightarrow> delegate \<Rightarrow> scheduler \<Rightarrow> nat list \<Rightarrow> ResolveCheckRequest \<Rightarrow> userset \<Rightarrow> outcome option"
  and CheckRewrites ::
  "('s, 'c) LocalChecker \<Rightarrow> delegate \<Rightarrow> scheduler \<Rightarrow> nat list \<Rightarrow> ResolveCheckRequest \<Rightarrow> nat \<Rightarrow> userset list \<Rightarrow>
   outcome list option" where
  "ResolveCheck ck dl sched path req0 =
     (let tk = rq_TupleKey req0; typesys = ck_typesys ck; key = TupleKeyToString tk;
          objectType = fst (SplitObject (tk_object tk))
      in case ctx_Err (ck_ctx ck) of
           Some e \<Rightarrow> Some (Inl e)
         | None \<Rightarrow>
             if rq_Depth req0 = ck_maxResolutionDepth ck then Some (Inl ErrResolutionDepthExceeded)
             else if key \<in> set (rq_VisitedPaths req0) then Some (Inr (response False True))
             else if IsSelfDefining tk then Some (Inr (response True False))
             else (case TypeSystem.GetRelation typesys objectType (tk_relation tk) of
                     Inl _ \<Rightarrow> Some (Inl (ErrText ''relation undefined for object type''))
                   | Inr rel \<Rightarrow>
                       (case PathExists typesys (tk_user tk) (tk_relation tk) objectType of
                          Inl e \<Rightarrow> Some (Inl e)
                        | Inr hasPath \<Rightarrow>
                            if \<not> hasPath then Some (Inr (response False False))
                            else CheckRewrite ck dl sched path
                                   (req0\<lparr>rq_VisitedPaths := key # rq_VisitedPaths req0\<rparr>) (rel_rewrite rel))))"
| "CheckRewrite ck dl sched path req This = checkDirect ck dl sched path req"
| "CheckRewrite ck dl sched path req (ComputedUserset rel) =
     ResolveCheck ck dl sched (0 # path) (computed_request req rel)"
| "CheckRewrite ck dl sched path req (TupleToUserset tupleset computed) =
     checkTTU ck dl sched path req tupleset computed"
| "CheckRewrite ck dl sched path req (Union us) =
     (case CheckRewrites ck dl sched path req 0 us of
        None \<Rightarrow> None
      | Some outs \<Rightarrow> union_reducer None (length outs) (deliver outs (sched path (length outs))))"
| "CheckRewrite ck dl sched path req (Intersection us) =
     (case CheckRewrites ck dl sched path req 0 us of
        None \<Rightarrow> None
      | Some outs \<Rightarrow> intersection None (length outs) (deliver outs (sched path (length outs))))"
| "CheckRewrite ck dl sched path req (Difference base sub) =
     (case CheckRewrites ck dl sched path req 0 [base, sub] of
        None \<Rightarrow> None
      | Some outs \<Rightarrow> exclusion (length outs) (deliver_exclusion outs (sched path (length outs))))"
| "CheckRewrite ck dl sched path req Unset = Some (Inl ErrUnknownSetOperator)"
| "CheckRewrites ck dl sched path req i [] = Some []"
| "CheckRewrites ck dl sched path req i (u # us) =
     (case CheckRewrite ck dl sched (i # path) req u of
        None \<Rightarrow> None
      | Some r \<Rightarrow> map_option ((#) r) (CheckRewrites ck dl sched path req (i + 1) us))"
  by pat_completeness auto

termination
  by (relation "inv_image (less_than <*lex*> less_than)
        (case_sum (\<lambda>(ck, dl, sched, path, req). (card (unresolved (ck_typesys ck) req), 0))
          (case_sum (\<lambda>(ck, dl, sched, path, req, u). (card (unresolved (ck_typesys ck) req), usize u))
             (\<lambda>(ck, dl, sched, path, req, i, us).
                (card (unresolved (ck_typesys ck) req), 1 + sum_list (map usize us)))))")
     (auto intro: unresolved_decreases [unfolded GetType_def] simp: GetType_def)

declare ResolveCheck.simps [simp del]

section \<open>A checker that is its own delegate\<close>

text \<open>
  By default a checker dispatches to itself. Every dispatch increments the depth, a 32-bit word, so
  the recursion is bounded by the distance of the depth to its maximum; \<open>resolve\<close> unfolds it the
  given number of times.
\<close>

fun resolve :: "nat \<Rightarrow> ('s, 'c) LocalChecker \<Rightarrow> scheduler \<Rightarrow> delegate" where
  "resolve 0 ck sched path req = None"
| "resolve (Suc n) ck sched path req = ResolveCheck ck (resolve n ck sched) sched path req"

definition Check :: "('s, 'c) LocalChecker \<Rightarrow> scheduler \<Rightarrow> ResolveCheckRequest \<Rightarrow> outcome option" where
  "Check ck sched req = resolve (Suc (unat (ck_maxResolutionDepth ck - rq_Depth req))) ck sched [] req"


end
