(* ===== verification/Readers.thy ===== *)
theory Readers
  imports Check Memory
begin

text \<open>
  What the check engine relies on from a tuple reader (\<^verbatim>\<open>storage.RelationshipTupleReader\<close>), as a
  locale, and the in-memory datastore as an instance of it.
\<close>

section \<open>Well-formed tuples\<close>

text \<open>The form that \<^verbatim>\<open>ValidateUserObjectRelation\<close> enforces on everything that is written.\<close>

definition wf_user :: "string \<Rightarrow> bool" where
  "wf_user u \<longleftrightarrow> IsValidUser u \<and> (IsValidObject u \<or> IsObjectRelation u)"

definition wf_tuple :: "tuple_key \<Rightarrow> bool" where
  "wf_tuple k \<longleftrightarrow> IsValidObject (tk_object k) \<and> IsValidRelation (tk_relation k) \<and> wf_user (tk_user k)"

lemma wf_user_nonempty: "wf_user u \<Longrightarrow> u \<noteq> []"
  unfolding wf_user_def by (auto elim: IsValidUser_cases)

lemma ValidateUserObjectRelation_wf:
  assumes "ValidateUserObjectRelation t tk = None" and "IsSchemaVersionSupported (ts_schemaVersion t)"
  shows "wf_tuple tk"
  using assms
  by (auto simp: ValidateUserObjectRelation_def ValidateUser_def ValidateObject_def ValidateRelation_def
      wf_tuple_def wf_user_def Let_def split: option.splits if_splits prod.splits)

section \<open>The contract of a tuple reader\<close>

definition same_id :: "tuple_key \<Rightarrow> tuple_key \<Rightarrow> bool" where
  "same_id k k' \<longleftrightarrow> tk_object k = tk_object k' \<and> tk_relation k = tk_relation k' \<and> tk_user k = tk_user k'"

text \<open>The restrictions that \<^verbatim>\<open>ReadUsersetTuples\<close> is called with: usersets and typed wildcards.\<close>

definition userset_ref :: "relation_reference \<Rightarrow> bool" where
  "userset_ref ref \<longleftrightarrow> rr_GetRelation ref \<noteq> [] \<or> rr_ref ref = WildcardRef"

locale tuple_reader =
  fixes ds :: "'s RelationshipTupleReader"
    and contents :: "'s \<Rightarrow> tuple list"
    and invar :: "'s \<Rightarrow> bool"
    and stored :: "string \<Rightarrow> tuple_key set"
  assumes iterates: "iterator (ds_Iterator ds) contents invar"
    and read_law: "IsValidObject ob \<Longrightarrow> rel \<noteq> [] \<Longrightarrow> ds_Read ds store (NewTupleKey ob rel []) = Inr s \<Longrightarrow>
      invar s \<and> t_key ` set (contents s) = {k \<in> stored store. tk_object k = ob \<and> tk_relation k = rel}"
    and user_law: "IsValidObject (tk_object tk) \<Longrightarrow> tk_relation tk \<noteq> [] \<Longrightarrow> wf_user (tk_user tk) \<Longrightarrow>
      ds_ReadUserTuple ds store tk = Inr tup \<Longrightarrow> t_key tup \<in> stored store \<and> same_id (t_key tup) tk"
    and missing_law: "IsValidObject (tk_object tk) \<Longrightarrow> tk_relation tk \<noteq> [] \<Longrightarrow> wf_user (tk_user tk) \<Longrightarrow>
      ds_ReadUserTuple ds store tk = Inl e \<Longrightarrow> errors_Is e ErrNotFound \<Longrightarrow>
      k \<in> stored store \<Longrightarrow> \<not> same_id k tk"
    and userset_law: "IsValidObject ob \<Longrightarrow> rel \<noteq> [] \<Longrightarrow> refs \<noteq> [] \<Longrightarrow> \<forall>ref\<in>set refs. userset_ref ref \<Longrightarrow>
      ds_ReadUsersetTuples ds store
        \<lparr>ruf_Object = ob, ruf_Relation = rel, ruf_AllowedUserTypeRestrictions = refs\<rparr> = Inr s \<Longrightarrow>
      invar s \<and> t_key ` set (contents s) =
        {k \<in> stored store. tk_object k = ob \<and> tk_relation k = rel \<and> GetUserTypeFromUser (tk_user k) = UserSet \<and>
           (\<exists>ref\<in>set refs. rr_type ref = GetType (tk_user k) \<and> rr_GetRelation ref = Tuples.GetRelation (tk_user k))}"

text \<open>A reader whose store holds at most one tuple, and so one condition, per object, relation and user.\<close>

locale unique_reader = tuple_reader +
  assumes unique: "k \<in> stored store \<Longrightarrow> k' \<in> stored store \<Longrightarrow> same_id k k' \<Longrightarrow> k = k'"

context tuple_reader
begin

lemma filtered_drain:
  assumes "ck_ds ck = ds" and "invar s"
  shows "\<exists>xs e st'. drain (filteredIter ck req) Live (NewFilteredIter s) = Some (xs, e, st') \<and>
    set xs = {k \<in> t_key ` set (contents s). tuple_filter ck k \<and> condition_filter ck req k = Inr True} \<and>
    (xs \<noteq> [] \<longrightarrow> e = ErrIteratorDone)"
proof -
  let ?it = "filteredTupleKeyIterator (tupleKeyIterator (ds_Iterator (ck_ds ck))) (tuple_filter ck)"
  let ?contents = "filter (tuple_filter ck) \<circ> (map t_key \<circ> contents \<circ> inner) \<circ> inner"
  have "iterator ?it ?contents ((invar \<circ> inner) \<circ> inner)"
    unfolding assms(1) by (intro iterator_filtered iterator_tupleKey iterates)
  from iteration.conditions_drain [OF iterator_iteration [OF this], of "NewFilteredIter s" "condition_filter ck req"]
  obtain st' where "drain (filteredIter ck req) Live (NewFilteredIter s) =
      Some (filter (\<lambda>k. condition_filter ck req k = Inr True) (?contents (inner (NewFilteredIter s))),
            final_error (\<exists>k\<in>set (?contents (inner (NewFilteredIter s))). condition_filter ck req k = Inr True)
              (last_error None (condition_filter ck req) (?contents (inner (NewFilteredIter s)))), st')"
    using assms(2) by (auto simp: filteredIter_def NewFilteredIter_def NewConditionsFilteredTupleKeyIterator_def)
  moreover have "set (filter (\<lambda>k. condition_filter ck req k = Inr True) (?contents (inner (NewFilteredIter s)))) =
      {k \<in> t_key ` set (contents s). tuple_filter ck k \<and> condition_filter ck req k = Inr True}"
    by (auto simp: NewFilteredIter_def NewConditionsFilteredTupleKeyIterator_def)
  moreover have "(\<exists>k\<in>set (?contents (inner (NewFilteredIter s))). condition_filter ck req k = Inr True) \<longleftrightarrow>
      filter (\<lambda>k. condition_filter ck req k = Inr True) (?contents (inner (NewFilteredIter s))) \<noteq> []"
    by (simp only: filter_empty_conv) blast
  ultimately show ?thesis
    by (intro exI conjI) (assumption, simp_all add: final_error_def)
qed

end

section \<open>The in-memory datastore\<close>

definition memory_reader :: "MemoryBackend \<Rightarrow> TupleRecord list RelationshipTupleReader" where
  "memory_reader s =
     \<lparr>ds_Iterator = staticIterator,
      ds_Read = (\<lambda>store tk. case Memory.Read s store tk of None \<Rightarrow> Inl ErrPanic | Some r \<Rightarrow> r),
      ds_ReadUserTuple = Memory.ReadUserTuple s,
      ds_ReadUsersetTuples = Memory.ReadUsersetTuples s,
      ds_ReadStartingWithUser = Memory.ReadStartingWithUser s\<rparr>"

definition memory_tuples :: "MemoryBackend \<Rightarrow> string \<Rightarrow> tuple_key set" where
  "memory_tuples s store = (\<lambda>r. t_key (AsTuple r)) ` set (mb_tuples s store)"

lemma AsTuple_key [simp]:
  assumes "wf_record r"
  shows "tk_object (t_key (AsTuple r)) = BuildObject (tr_ObjectType r) (tr_ObjectID r)"
    and "tk_relation (t_key (AsTuple r)) = tr_Relation r"
    and "tk_user (t_key (AsTuple r)) = tr_User r"
  using assms by (simp_all add: AsTuple_def Let_def wf_record_def NewTupleKeyWithCondition_def)

lemma match_object_relation:
  assumes "wf_record r" and "IsValidObject ob" and "rel \<noteq> []"
  shows "match r (NewTupleKey ob rel []) \<longleftrightarrow>
    tk_object (t_key (AsTuple r)) = ob \<and> tk_relation (t_key (AsTuple r)) = rel"
proof -
  obtain ty i where ob: "ob = BuildObject ty i" "CHR '':'' \<notin> set ty" "i \<noteq> []" "SplitObject ob = (ty, i)"
    using assms(2) by (auto simp: IsValidObject_iff BuildObject_def SplitObject_colon name_chars_excluded)
  then have "match r (NewTupleKey ob rel []) \<longleftrightarrow> ty = tr_ObjectType r \<and> i = tr_ObjectID r \<and> tr_Relation r = rel"
    using assms(3) by (auto simp: match_def NewTupleKey_def BuildObject_def)
  then show ?thesis
    using assms(1) ob by (auto simp: wf_record_def BuildObject_inject)
qed

lemma match_user:
  assumes "wf_record r" and "IsValidObject (tk_object tk)" and "tk_relation tk \<noteq> []" and "tk_user tk \<noteq> []"
  shows "match r tk \<longleftrightarrow> same_id (t_key (AsTuple r)) tk"
proof -
  have "full_key tk" using assms IsValidObject_split [OF assms(2)] by (simp add: full_key_def)
  then show ?thesis
    using match_full [OF assms(1)] assms(1)
    by (simp add: same_id_def rec_id_def tk_id_def)
qed

lemma find_SomeE: "List.find P xs = Some x \<Longrightarrow> x \<in> set xs \<and> P x"
  by (induction xs) (auto split: if_splits)

lemma set_repeated:
  "set (concat (map (\<lambda>x. if P x then map (\<lambda>_. x) (filter (Q x) ys) else []) xs)) =
     {x \<in> set xs. P x \<and> (\<exists>y\<in>set ys. Q x y)}"
  by (induction xs) auto

lemma memory_reader_contract:
  assumes "\<And>store. wf_store (mb_tuples s store)"
  shows "unique_reader (memory_reader s) (map AsTuple) (\<lambda>_. True) (memory_tuples s)"
proof (intro unique_reader.intro tuple_reader.intro unique_reader_axioms.intro)
  have wf: "wf_record r" if "r \<in> set (mb_tuples s store)" for r store
    using assms [of store] that by (simp add: wf_store_def)
  show "iterator (ds_Iterator (memory_reader s)) (map AsTuple) (\<lambda>_. True)"
    by (simp add: memory_reader_def memory_iterator.iterator_axioms)
  fix store
  show "True \<and> t_key ` set (map AsTuple recs) = {k \<in> memory_tuples s store. tk_object k = ob \<and> tk_relation k = rel}"
    if "IsValidObject ob" "rel \<noteq> []" "ds_Read (memory_reader s) store (NewTupleKey ob rel []) = Inr recs" for ob rel recs
  proof -
    have "recs = filter (\<lambda>r. match r (NewTupleKey ob rel [])) (mb_tuples s store)"
      using that by (auto simp: memory_reader_def Memory.Read_def read_def NewTupleKey_def Let_def split: if_splits)
    then show ?thesis
      using that wf by (auto simp: memory_tuples_def match_object_relation)
  qed
  show "t_key tup \<in> memory_tuples s store \<and> same_id (t_key tup) tk"
    if "IsValidObject (tk_object tk)" "tk_relation tk \<noteq> []" "wf_user (tk_user tk)"
      "ds_ReadUserTuple (memory_reader s) store tk = Inr tup" for tk tup
    using that wf match_user [OF wf that(1,2) wf_user_nonempty [OF that(3)]]
    by (auto simp: memory_reader_def Memory.ReadUserTuple_def memory_tuples_def dest!: find_SomeE split: option.splits)
  show "\<not> same_id k tk"
    if "IsValidObject (tk_object tk)" "tk_relation tk \<noteq> []" "wf_user (tk_user tk)"
      "ds_ReadUserTuple (memory_reader s) store tk = Inl e" "errors_Is e ErrNotFound" "k \<in> memory_tuples s store" for tk e k
    using that wf match_user [OF wf that(1,2) wf_user_nonempty [OF that(3)]]
    by (auto simp: memory_reader_def Memory.ReadUserTuple_def memory_tuples_def find_None_iff split: option.splits)
  show "True \<and> t_key ` set (map AsTuple recs) =
        {k \<in> memory_tuples s store. tk_object k = ob \<and> tk_relation k = rel \<and> GetUserTypeFromUser (tk_user k) = UserSet \<and>
           (\<exists>ref\<in>set refs. rr_type ref = GetType (tk_user k) \<and> rr_GetRelation ref = Tuples.GetRelation (tk_user k))}"
    if "IsValidObject ob" "rel \<noteq> []" "refs \<noteq> []"
      "ds_ReadUsersetTuples (memory_reader s) store
        \<lparr>ruf_Object = ob, ruf_Relation = rel, ruf_AllowedUserTypeRestrictions = refs\<rparr> = Inr recs" for ob rel refs recs
  proof -
    have "recs = concat (map (\<lambda>r.
        if match r (NewTupleKey ob rel []) \<and> GetUserTypeFromUser (tr_User r) = UserSet
        then map (\<lambda>_. r) (filter (\<lambda>ref. rr_type ref = GetType (tr_User r) \<and>
               rr_GetRelation ref = snd (SplitObjectRelation (tr_User r))) refs)
        else []) (mb_tuples s store))"
      using that(3,4) by (simp add: memory_reader_def Memory.ReadUsersetTuples_def Let_def cong: if_cong)
    then have "set recs = {r \<in> set (mb_tuples s store). (match r (NewTupleKey ob rel []) \<and>
        GetUserTypeFromUser (tr_User r) = UserSet) \<and>
        (\<exists>ref\<in>set refs. rr_type ref = GetType (tr_User r) \<and> rr_GetRelation ref = snd (SplitObjectRelation (tr_User r)))}"
      by (simp only: set_repeated)
    also have "\<dots> = {r \<in> set (mb_tuples s store). tk_object (t_key (AsTuple r)) = ob \<and>
        tk_relation (t_key (AsTuple r)) = rel \<and> GetUserTypeFromUser (tk_user (t_key (AsTuple r))) = UserSet \<and>
        (\<exists>ref\<in>set refs. rr_type ref = GetType (tk_user (t_key (AsTuple r))) \<and>
           rr_GetRelation ref = Tuples.GetRelation (tk_user (t_key (AsTuple r))))}"
      using that(1,2) wf by (auto simp: match_object_relation Tuples.GetRelation_def)
    finally show ?thesis by (auto simp: memory_tuples_def)
  qed
  show "k = k'" if kk: "k \<in> memory_tuples s store" "k' \<in> memory_tuples s store" "same_id k k'" for k k'
  proof -
    obtain r r' where r: "r \<in> set (mb_tuples s store)" "k = t_key (AsTuple r)"
      "r' \<in> set (mb_tuples s store)" "k' = t_key (AsTuple r')"
      using kk by (auto simp: memory_tuples_def)
    then have "rec_id r = rec_id r'" using kk(3) wf by (simp add: same_id_def rec_id_def)
    moreover have "distinct (map rec_id (mb_tuples s store))" using assms [of store] by (simp add: wf_store_def)
    ultimately have "r = r'" using r by (auto simp: distinct_map inj_on_def)
    with r show ?thesis by simp
  qed
qed

end
