(* ===== verification/CheckCorrect.thy ===== *)
theory CheckCorrect
  imports Readers
begin

text \<open>
  Correctness of the check engine against a declarative meaning of an authorization model. The
  meaning is the least relation closed under the rules for the rewrites. The engine is shown sound
  and complete for it, on models without exclusion, for every order in which concurrent results
  arrive; and it always returns.
\<close>

section \<open>The meaning of a model\<close>

text \<open>
  \<open>U ob rel u\<close> says that the tuple \<^verbatim>\<open>ob#rel@u\<close> is stored, valid for the model, and its condition
  is met. Self-defining usersets are members of themselves.
\<close>

inductive member :: "TypeSystem \<Rightarrow> (string \<Rightarrow> string \<Rightarrow> string \<Rightarrow> bool) \<Rightarrow> string \<Rightarrow> string \<Rightarrow> string \<Rightarrow> bool"
  and satisfies :: "TypeSystem \<Rightarrow> (string \<Rightarrow> string \<Rightarrow> string \<Rightarrow> bool) \<Rightarrow> userset \<Rightarrow> string \<Rightarrow> string \<Rightarrow> string \<Rightarrow> bool"
  for t U where
  self: "SplitObjectRelation u = (ob, rel) \<Longrightarrow> member t U ob rel u"
| rewrite: "TypeSystem.GetRelation t (GetType ob) rel = Inr r \<Longrightarrow> satisfies t U (rel_rewrite r) ob rel u \<Longrightarrow>
    member t U ob rel u"
| direct: "U ob rel u \<Longrightarrow> satisfies t U This ob rel u"
| everyone: "\<not> IsObjectRelation u \<Longrightarrow> U ob rel (TypedPublicWildcard (GetType u)) \<Longrightarrow> satisfies t U This ob rel u"
| userset: "U ob rel v \<Longrightarrow> SplitObjectRelation v = (ob', rel') \<Longrightarrow> rel' \<noteq> [] \<Longrightarrow> member t U ob' rel' u \<Longrightarrow>
    satisfies t U This ob rel u"
| computed: "member t U ob c u \<Longrightarrow> satisfies t U (ComputedUserset c) ob rel u"
| ttu: "U ob ts v \<Longrightarrow> TypeSystem.GetRelation t (GetType (fst (SplitObjectRelation v))) c = Inr r \<Longrightarrow>
    member t U (fst (SplitObjectRelation v)) c u \<Longrightarrow> satisfies t U (TupleToUserset ts c) ob rel u"
| union: "w \<in> set us \<Longrightarrow> satisfies t U w ob rel u \<Longrightarrow> satisfies t U (Union us) ob rel u"
| inter: "us \<noteq> [] \<Longrightarrow> (\<And>w. w \<in> set us \<Longrightarrow> satisfies t U w ob rel u) \<Longrightarrow> satisfies t U (Intersection us) ob rel u"

text \<open>The same by derivations of bounded height, for the proof of completeness.\<close>

fun satisfies_by :: "TypeSystem \<Rightarrow> (string \<Rightarrow> string \<Rightarrow> string \<Rightarrow> bool) \<Rightarrow> (string \<Rightarrow> string \<Rightarrow> string \<Rightarrow> bool) \<Rightarrow>
    userset \<Rightarrow> string \<Rightarrow> string \<Rightarrow> string \<Rightarrow> bool" where
  "satisfies_by t U M This ob rel u \<longleftrightarrow>
     U ob rel u \<or> (\<not> IsObjectRelation u \<and> U ob rel (TypedPublicWildcard (GetType u))) \<or>
     (\<exists>v ob' rel'. U ob rel v \<and> SplitObjectRelation v = (ob', rel') \<and> rel' \<noteq> [] \<and> M ob' rel' u)"
| "satisfies_by t U M (ComputedUserset c) ob rel u \<longleftrightarrow> M ob c u"
| "satisfies_by t U M (TupleToUserset ts c) ob rel u \<longleftrightarrow>
     (\<exists>v r. U ob ts v \<and> TypeSystem.GetRelation t (GetType (fst (SplitObjectRelation v))) c = Inr r \<and>
            M (fst (SplitObjectRelation v)) c u)"
| "satisfies_by t U M (Union us) ob rel u \<longleftrightarrow> (\<exists>w\<in>set us. satisfies_by t U M w ob rel u)"
| "satisfies_by t U M (Intersection us) ob rel u \<longleftrightarrow> us \<noteq> [] \<and> (\<forall>w\<in>set us. satisfies_by t U M w ob rel u)"
| "satisfies_by t U M _ ob rel u \<longleftrightarrow> False"

primrec member_by :: "TypeSystem \<Rightarrow> (string \<Rightarrow> string \<Rightarrow> string \<Rightarrow> bool) \<Rightarrow> nat \<Rightarrow> string \<Rightarrow> string \<Rightarrow> string \<Rightarrow> bool" where
  "member_by t U 0 = (\<lambda>ob rel u. False)"
| "member_by t U (Suc n) = (\<lambda>ob rel u. SplitObjectRelation u = (ob, rel) \<or>
     (\<exists>r. TypeSystem.GetRelation t (GetType ob) rel = Inr r \<and>
          satisfies_by t U (member_by t U n) (rel_rewrite r) ob rel u))"

lemma satisfies_by_mono:
  assumes "\<And>ob rel u. M ob rel u \<Longrightarrow> M' ob rel u"
  shows "satisfies_by t U M w ob rel u \<Longrightarrow> satisfies_by t U M' w ob rel u"
proof (induction w)
  case This
  then show ?case unfolding satisfies_by.simps using assms by blast
next
  case (ComputedUserset c)
  then show ?case unfolding satisfies_by.simps using assms by blast
next
  case (TupleToUserset ts c)
  then show ?case unfolding satisfies_by.simps using assms by blast
next
  case (Union us)
  then show ?case unfolding satisfies_by.simps by blast
next
  case (Intersection us)
  then show ?case unfolding satisfies_by.simps by blast
qed simp_all

lemma member_by_Suc: "member_by t U n ob rel u \<Longrightarrow> member_by t U (Suc n) ob rel u"
proof (induction n arbitrary: ob rel u)
  case (Suc n)
  from Suc.prems consider "SplitObjectRelation u = (ob, rel)"
    | r where "TypeSystem.GetRelation t (GetType ob) rel = Inr r"
        "satisfies_by t U (member_by t U n) (rel_rewrite r) ob rel u"
    unfolding member_by.simps by blast
  then show ?case
  proof cases
    case 1
    then show ?thesis unfolding member_by.simps by blast
  next
    case 2
    from satisfies_by_mono [where M' = "member_by t U (Suc n)", OF Suc.IH 2(2)] 2(1) show ?thesis
      unfolding member_by.simps(2) [of _ _ "Suc n"] by blast
  qed
qed simp

lemma member_by_le: "member_by t U n ob rel u \<Longrightarrow> n \<le> m \<Longrightarrow> member_by t U m ob rel u"
proof (induction m)
  case (Suc m)
  then show ?case using member_by_Suc le_Suc_eq by metis
qed simp

lemma member_bounded:
  "member t U ob rel u \<Longrightarrow> \<exists>n. member_by t U n ob rel u"
  "satisfies t U w ob rel u \<Longrightarrow> \<exists>n. satisfies_by t U (member_by t U n) w ob rel u"
proof (induction rule: member_satisfies.inducts)
  case (self u ob rel)
  then show ?case by (intro exI [of _ "Suc 0"]) simp
next
  case (rewrite ob rel r u)
  then obtain n where "satisfies_by t U (member_by t U n) (rel_rewrite r) ob rel u" by blast
  with rewrite(1) show ?case by (intro exI [of _ "Suc n"]) auto
next
  case (inter us ob rel u)
  then obtain f where f: "\<And>w. w \<in> set us \<Longrightarrow> satisfies_by t U (member_by t U (f w)) w ob rel u" by metis
  have "satisfies_by t U (member_by t U (Max (f ` set us))) w ob rel u" if "w \<in> set us" for w
    using f [OF that] by (rule satisfies_by_mono [rotated]) (use that in \<open>auto intro: member_by_le\<close>)
  with inter(1) show ?case by (intro exI [of _ "Max (f ` set us)"]) simp
next
  case (direct ob rel u)
  then show ?case by simp
next
  case (everyone u ob rel)
  then show ?case by simp
next
  case (userset ob rel v ob' rel' u)
  then obtain n where "member_by t U n ob' rel' u" by blast
  with userset show ?case by (intro exI [of _ n]) (unfold satisfies_by.simps, blast)
next
  case (computed ob c u rel)
  then show ?case by simp
next
  case (ttu ob ts v c r u rel)
  then obtain n where "member_by t U n (fst (SplitObjectRelation v)) c u" by blast
  with ttu show ?case by (intro exI [of _ n]) (unfold satisfies_by.simps, blast)
next
  case (union w us ob rel u)
  then show ?case by auto
qed
section \<open>Messages, deliveries and decisions\<close>

fun userset_msgs :: "TypeSystem \<Rightarrow> tuple_key \<Rightarrow> tuple_key list \<Rightarrow> err \<Rightarrow> dispatchMsg list" where
  "userset_msgs t tk [] e = (if IterIsDoneOrCancelled e then [] else [MsgErr e])"
| "userset_msgs t tk (k # ks) e =
     (let (ob, rel) = SplitObjectRelation (tk_user k)
      in if IsTypedWildcard ob \<and> IsSchemaVersionSupported (ts_schemaVersion t) \<and> GetType (tk_user tk) = GetType ob
         then [MsgShortCircuit]
         else if rel \<noteq> [] then MsgDispatch (NewTupleKey ob rel (tk_user tk)) # userset_msgs t tk ks e
         else userset_msgs t tk ks e)"

fun ttu_msgs :: "TypeSystem \<Rightarrow> string \<Rightarrow> tuple_key \<Rightarrow> tuple_key list \<Rightarrow> err \<Rightarrow> dispatchMsg list" where
  "ttu_msgs t c tk [] e = (if IterIsDoneOrCancelled e then [] else [MsgErr e])"
| "ttu_msgs t c tk (k # ks) e =
     (let ob = fst (SplitObjectRelation (tk_user k))
      in if (case TypeSystem.GetRelation t (GetType ob) c of Inl e \<Rightarrow> errors_Is e ErrRelationUndefined | Inr _ \<Rightarrow> False)
         then ttu_msgs t c tk ks e
         else MsgDispatch (NewTupleKey ob c (tk_user tk)) # ttu_msgs t c tk ks e)"

lemma produceUsersetDispatches_drain:
  "drain it cx st = Some (xs, e, st') \<Longrightarrow>
     produceUsersetDispatches it t cx tk st = Some (userset_msgs t tk xs e)"
proof (induction xs arbitrary: st)
  case Nil
  then show ?case
    by (subst produceUsersetDispatches.simps)
       (auto simp: drain.simps [of it cx st] split: option.splits sum.splits bind_splits)
next
  case (Cons x xs)
  from Cons.prems obtain s' where s': "iNext it cx st = Some (Inr x, s')" "drain it cx s' = Some (xs, e, st')"
    by (auto simp: drain.simps [of it cx st] split: option.splits sum.splits bind_splits)
  with Cons.IH [OF s'(2)] show ?case
    by (subst produceUsersetDispatches.simps) (simp add: split_beta Let_def)
qed

lemma produceTTUDispatches_drain:
  "drain it cx st = Some (xs, e, st') \<Longrightarrow>
     produceTTUDispatches it t cx c tk st = Some (ttu_msgs t c tk xs e)"
proof (induction xs arbitrary: st)
  case Nil
  then show ?case
    by (subst produceTTUDispatches.simps)
       (auto simp: drain.simps [of it cx st] split: option.splits sum.splits bind_splits)
next
  case (Cons x xs)
  from Cons.prems obtain s' where s': "iNext it cx st = Some (Inr x, s')" "drain it cx s' = Some (xs, e, st')"
    by (auto simp: drain.simps [of it cx st] split: option.splits sum.splits bind_splits)
  with Cons.IH [OF s'(2)] show ?case
    by (subst produceTTUDispatches.simps) (simp add: split_beta Let_def)
qed

lemma userset_msgs_dispatch:
  "MsgDispatch k \<in> set (userset_msgs t tk ks e) \<Longrightarrow>
     \<exists>v\<in>set ks. \<exists>ob rel. SplitObjectRelation (tk_user v) = (ob, rel) \<and> rel \<noteq> [] \<and> k = NewTupleKey ob rel (tk_user tk)"
  by (induction ks) (auto simp: split_beta Let_def prod_eq_iff split: if_splits)

lemma userset_msgs_short:
  "MsgShortCircuit \<in> set (userset_msgs t tk ks e) \<Longrightarrow>
     \<exists>v\<in>set ks. IsTypedWildcard (fst (SplitObjectRelation (tk_user v)))"
  by (induction ks) (auto simp: split_beta Let_def split: if_splits)

lemma userset_msgs_covers:
  "v \<in> set ks \<Longrightarrow> SplitObjectRelation (tk_user v) = (ob, rel) \<Longrightarrow> rel \<noteq> [] \<Longrightarrow>
     MsgShortCircuit \<in> set (userset_msgs t tk ks e) \<or>
     MsgDispatch (NewTupleKey ob rel (tk_user tk)) \<in> set (userset_msgs t tk ks e)"
  by (induction ks) (auto simp: split_beta Let_def)

lemma ttu_msgs_dispatch:
  "MsgDispatch k \<in> set (ttu_msgs t c tk ks e) \<Longrightarrow>
     \<exists>v\<in>set ks. k = NewTupleKey (fst (SplitObjectRelation (tk_user v))) c (tk_user tk) \<and>
       (\<forall>e. TypeSystem.GetRelation t (GetType (fst (SplitObjectRelation (tk_user v)))) c = Inl e \<longrightarrow>
          \<not> errors_Is e ErrRelationUndefined)"
  by (induction ks) (auto simp: Let_def split: if_splits sum.splits)

lemma ttu_msgs_no_short: "MsgShortCircuit \<notin> set (ttu_msgs t c tk ks e)"
  by (induction ks) (auto simp: Let_def)

lemma ttu_msgs_covers:
  "v \<in> set ks \<Longrightarrow> TypeSystem.GetRelation t (GetType (fst (SplitObjectRelation (tk_user v)))) c = Inr r \<Longrightarrow>
     MsgDispatch (NewTupleKey (fst (SplitObjectRelation (tk_user v))) c (tk_user tk)) \<in> set (ttu_msgs t c tk ks e)"
  by (induction ks) (auto simp: Let_def)

lemma processDispatches_elem:
  "processDispatches dl path req i msgs = Some outs \<Longrightarrow> out \<in> set outs \<Longrightarrow>
     (\<exists>e. out = Inl e) \<or> (MsgShortCircuit \<in> set msgs \<and> out = Inr (response True False)) \<or>
     (\<exists>k p. MsgDispatch k \<in> set msgs \<and> dispatch dl p req k = Some out)"
  by (induction dl path req i msgs arbitrary: outs rule: processDispatches.induct)
     (fastforce split: option.splits)+

lemma processDispatches_covers:
  "processDispatches dl path req i msgs = Some outs \<Longrightarrow> MsgDispatch k \<in> set msgs \<Longrightarrow>
     Inr (response True False) \<in> set outs \<or> (\<exists>p out. dispatch dl p req k = Some out \<and> out \<in> set outs)"
  by (induction dl path req i msgs arbitrary: outs rule: processDispatches.induct)
     (fastforce split: option.splits)+

lemma processDispatches_short:
  "processDispatches dl path req i msgs = Some outs \<Longrightarrow> MsgShortCircuit \<in> set msgs \<Longrightarrow>
     Inr (response True False) \<in> set outs"
  by (induction dl path req i msgs arbitrary: outs rule: processDispatches.induct)
     (fastforce split: option.splits)+

lemma processDispatches_returns:
  "(\<And>k p. MsgDispatch k \<in> set msgs \<Longrightarrow> \<exists>out. dispatch dl p req k = Some out) \<Longrightarrow>
     \<exists>outs. processDispatches dl path req i msgs = Some outs"
proof (induction dl path req i msgs rule: processDispatches.induct)
  case (4 dl path req i tk msgs)
  from 4(2) [of tk "i # path"] obtain out where out: "dispatch dl (i # path) req tk = Some out" by auto
  with 4 show ?case by fastforce
qed fastforce+
text \<open>
  A scheduler is orderly when no result arrives twice, and fair when moreover every result arrives
  and the context does not end. By \<open>resolver_delivers\<close> the resolver is fair as long as its context
  lives.
\<close>

definition orderly :: "scheduler \<Rightarrow> bool" where
  "orderly sched \<longleftrightarrow> (\<forall>path n. distinct (sched path n))"

definition fair :: "scheduler \<Rightarrow> bool" where
  "fair sched \<longleftrightarrow> (\<forall>path n. mset (sched path n) = mset (map Ready [0..<n]))"

lemma fair_orderly: "fair sched \<Longrightarrow> orderly sched"
proof -
  assume "fair sched"
  then have "mset (sched path n) = mset (map Ready [0..<n])" for path n by (simp add: fair_def)
  moreover have "distinct (map Ready [0..<n])" for n by (simp add: distinct_map inj_on_def)
  ultimately show ?thesis unfolding orderly_def by (metis mset_eq_imp_distinct_iff)
qed

lemma deliver_elem: "Arrive out \<in> set (deliver outs arr) \<Longrightarrow> out \<in> set outs"
  by (auto simp: deliver_def arrived_def split: arrival.splits)

lemma deliver_fair:
  assumes "fair sched"
  obtains os where "deliver outs (sched path (length outs)) = map Arrive os" "mset os = mset outs"
proof -
  let ?arr = "sched path (length outs)"
  have m: "mset ?arr = mset (map Ready [0..<length outs])" using assms by (simp add: fair_def)
  then have s: "set ?arr = Ready ` {0..<length outs}" using mset_eq_setD by fastforce
  then have "arrived outs ?arr = ?arr" by (auto simp: arrived_def)
  moreover define os where "os = map (\<lambda>a. case a of Ready i \<Rightarrow> outs ! i | Done e \<Rightarrow> Inl e) ?arr"
  ultimately have "deliver outs ?arr = map Arrive os"
    using s by (auto simp: deliver_def)
  moreover have "mset os = image_mset (\<lambda>a. case a of Ready i \<Rightarrow> outs ! i | Done e \<Rightarrow> Inl e) (mset (map Ready [0..<length outs]))"
    unfolding os_def by (simp only: mset_map m)
  then have "mset os = mset (map ((!) outs) [0..<length outs])"
    by (simp add: image_mset.compositionality comp_def)
  then have "mset os = mset outs" by (simp add: map_nth)
  ultimately show thesis using that by blast
qed

lemma union_sound:
  "union_loop n evs elErr cyc = Some r \<Longrightarrow> (\<And>out. Arrive out \<in> set evs \<Longrightarrow> coherent out) \<Longrightarrow>
     coherent r \<and> (decision r = Granted \<longrightarrow> (\<exists>out. Arrive out \<in> set evs \<and> decision out = Granted))"
proof (induction n evs elErr cyc rule: union_loop.induct)
  case (1 evs elErr cyc)
  then show ?case by (auto split: option.splits)
next
  case (4 n e evs elErr cyc)
  then show ?case by auto
next
  case (5 n r evs elErr cyc)
  show ?case
  proof (cases "Allowed r")
    case True
    with 5(2,3) show ?thesis by auto
  next
    case False
    with 5 show ?thesis by auto
  qed
qed auto

lemma union_reducer_sound:
  assumes "union_reducer None (length outs) (deliver outs arr) = Some r" and "\<forall>out\<in>set outs. coherent out"
  shows "coherent r \<and> (decision r = Granted \<longrightarrow> (\<exists>out\<in>set outs. decision out = Granted))"
proof -
  have "union_loop (length outs) (deliver outs arr) None False = Some r"
    using assms(1) by (auto simp: union_reducer_def split: option.splits)
  from union_sound [OF this] assms(2) show ?thesis using deliver_elem by blast
qed

lemma consume_sound:
  "(\<And>out. Arrive out \<in> set evs \<Longrightarrow> coherent out) \<Longrightarrow>
     coherent (consume_loop evs elErr cyc) \<and>
     (decision (consume_loop evs elErr cyc) = Granted \<longrightarrow> (\<exists>out. Arrive out \<in> set evs \<and> decision out = Granted))"
proof (induction evs elErr cyc rule: consume_loop.induct)
  case (1 elErr cyc)
  then show ?case by (auto split: option.splits)
next
  case (4 r evs elErr cyc)
  show ?case
  proof (cases "Allowed r")
    case True
    with 4(2) [of "Inr r"] show ?thesis by (auto split: list.splits event.splits)
  next
    case False
    with 4 show ?thesis by auto
  qed
qed auto

lemma consumeDispatches_sound:
  assumes "\<forall>out\<in>set outs. coherent out"
  shows "coherent (consumeDispatches (deliver outs arr)) \<and>
     (decision (consumeDispatches (deliver outs arr)) = Granted \<longrightarrow> (\<exists>out\<in>set outs. decision out = Granted))"
  unfolding consumeDispatches_def
  using consume_sound [of "deliver outs arr" None False] assms deliver_elem by blast

lemma intersection_sound:
  "intersection_loop n evs elErr = Some r \<Longrightarrow> (\<And>out. Arrive out \<in> set evs \<Longrightarrow> coherent out) \<Longrightarrow>
     coherent r \<and> (decision r = Granted \<longrightarrow>
       n \<le> length evs \<and> (\<forall>ev\<in>set (take n evs). \<exists>out. ev = Arrive out \<and> decision out = Granted) \<and> elErr = None)"
proof (induction n evs elErr rule: intersection_loop.induct)
  case (1 evs elErr)
  then show ?case by (auto split: option.splits)
next
  case (4 n e evs elErr)
  then show ?case by auto
next
  case (5 n x evs elErr)
  have "coherent (Inr x)" using 5(3) [of "Inr x"] by simp
  show ?case
  proof (cases "GetCycleDetected x \<or> \<not> Allowed x")
    case True
    with \<open>coherent (Inr x)\<close> have "\<not> Allowed x" by auto
    with 5(2) True show ?thesis by auto
  next
    case False
    with 5 show ?thesis by auto
  qed
qed auto

lemma intersection_reducer_sound:
  assumes "intersection None (length outs) (deliver outs arr) = Some r" and "\<forall>out\<in>set outs. coherent out"
    and "distinct arr"
  shows "coherent r \<and> (decision r = Granted \<longrightarrow> outs \<noteq> [] \<and> (\<forall>out\<in>set outs. decision out = Granted))"
proof (cases "outs = []")
  case True
  with assms(1) show ?thesis by (auto simp: intersection_def)
next
  case False
  let ?n = "length outs" and ?arr = "arrived outs arr"
  let ?f = "\<lambda>a. case a of Ready i \<Rightarrow> Arrive (outs ! i) | Done e \<Rightarrow> CtxDone e"
  have "intersection_loop ?n (deliver outs arr) None = Some r"
    using assms(1) False by (auto simp: intersection_def split: option.splits if_splits)
  from intersection_sound [OF this] have r: "coherent r"
    "decision r = Granted \<Longrightarrow> ?n \<le> length (deliver outs arr)"
    "decision r = Granted \<Longrightarrow> \<forall>ev\<in>set (take ?n (deliver outs arr)). \<exists>out. ev = Arrive out \<and> decision out = Granted"
    using assms(2) deliver_elem by blast+
  have "decision out = Granted" if g: "decision r = Granted" and out: "out \<in> set outs" for out
  proof -
    let ?first = "take ?n ?arr"
    have first: "\<forall>a\<in>set ?first. \<exists>out. ?f a = Arrive out \<and> decision out = Granted"
      using r(3) [OF g] by (simp add: deliver_def take_map)
    have len: "length ?first = ?n" using r(2) [OF g] by (simp add: deliver_def)
    have "distinct ?first" using assms(3) by (simp add: arrived_def)
    have sub: "set ?first \<subseteq> Ready ` {0..<?n}"
    proof
      fix a
      assume a: "a \<in> set ?first"
      then have "a \<in> set ?arr" by (rule in_set_takeD)
      with first a show "a \<in> Ready ` {0..<?n}" by (cases a) (auto simp: arrived_def)
    qed
    have "card (set ?first) = ?n" using \<open>distinct ?first\<close> len by (simp add: distinct_card)
    moreover have "card (Ready ` {0..<?n}) = ?n" by (simp add: card_image inj_on_def)
    ultimately have all: "set ?first = Ready ` {0..<?n}" using sub by (intro card_subset_eq) auto
    from out obtain i where i: "i < ?n" "out = outs ! i" by (auto simp: in_set_conv_nth)
    then have "Ready i \<in> set ?first" unfolding all by simp
    with first i show ?thesis by fastforce
  qed
  with r(1) False show ?thesis by blast
qed

lemma exclusion_loop_coherent: "exclusion_loop n evs b s = Some r \<Longrightarrow> coherent r"
  by (induction n evs b s rule: exclusion_loop.induct) (auto split: if_splits option.splits)

lemma exclusion_coherent: "exclusion n evs = Some r \<Longrightarrow> coherent r"
  by (auto simp: exclusion_def exclusion_loop_coherent split: if_splits)
section \<open>Requests the theorems are about\<close>

lemma wf_user_split:
  assumes "wf_user v" and "SplitObjectRelation v = (ob, rel)"
  shows "IsValidObject ob" and "GetType ob = GetType v" and "rel \<noteq> [] \<longleftrightarrow> IsObjectRelation v"
    and "rel \<noteq> [] \<Longrightarrow> \<not> IsTypedWildcard ob" and "rel = [] \<Longrightarrow> ob = v"
proof -
  from assms(1) have "IsValidUser v" by (simp add: wf_user_def)
  then have "IsValidObject ob \<and> GetType ob = GetType v \<and> (rel \<noteq> [] \<longleftrightarrow> IsObjectRelation v) \<and>
      (rel \<noteq> [] \<longrightarrow> \<not> IsTypedWildcard ob) \<and> (rel = [] \<longrightarrow> ob = v)"
  proof (cases rule: IsValidUser_cases)
    case uid
    with assms(1) show ?thesis
      by (auto simp: wf_user_def IsValidObject_iff IsObjectRelation_def GetType_def valid_user_simps)
  next
    case (object ty i)
    with assms(2) show ?thesis
      by (auto simp: valid_user_simps IsValidObject_iff IsObjectRelation_def Tuples.GetRelation_def)
  next
    case (userset ty i r)
    then have sp: "SplitObjectRelation v = (ty @ CHR '':'' # i, r)" by (simp add: valid_user_simps)
    have colon: "CHR '':'' \<notin> set ty" using userset(5) by (rule name_chars_excluded)
    have valid: "IsValidObject (ty @ CHR '':'' # i)" unfolding IsValidObject_iff using userset by blast
    have "SplitObject v = (ty, i @ CHR ''#'' # r)" "SplitObject (ty @ CHR '':'' # i) = (ty, i)"
      using SplitObject_colon [OF colon] userset(1) by simp_all
    moreover have "i \<noteq> Wildcard"
    proof
      assume "i = Wildcard"
      then have "CHR ''*'' \<in> set i" by (simp add: Wildcard_def)
      with userset(6) show False by blast
    qed
    moreover have "ob = ty @ CHR '':'' # i" "rel = r" using sp assms(2) by simp_all
    ultimately show ?thesis
      using valid userset(2,4)
      by (simp add: IsObjectRelation_def Tuples.GetRelation_def GetType_def IsTypedWildcard_def sp)
  qed
  then show "IsValidObject ob" "GetType ob = GetType v" "rel \<noteq> [] \<longleftrightarrow> IsObjectRelation v"
    "rel \<noteq> [] \<Longrightarrow> \<not> IsTypedWildcard ob" "rel = [] \<Longrightarrow> ob = v"
    by blast+
qed

lemma wf_user_wildcard:
  assumes "wf_user v" and "GetUserTypeFromUser v = UserSet" and "Tuples.GetRelation v = []"
  shows "v = TypedPublicWildcard (GetType v)"
proof -
  have "\<not> IsObjectRelation v" using assms(3) by (simp add: IsObjectRelation_def)
  with assms(2) have "IsWildcard v" by (simp add: GetUserTypeFromUser_def split: if_splits)
  moreover have "\<not> IsValidObject Wildcard" by code_simp
  then have "v \<noteq> Wildcard"
    using assms(1) \<open>\<not> IsObjectRelation v\<close> by (auto simp: wf_user_def)
  ultimately have "IsTypedWildcard v" by (simp add: IsWildcard_def)
  then have "SplitObject v = (GetType v, Wildcard)" "GetType v \<noteq> []"
    by (auto simp: IsTypedWildcard_def GetType_def split: prod.splits)
  then show ?thesis
    by (simp add: TypedPublicWildcard_def SplitObject_eq_iff)
qed

fun no_exclusion :: "userset \<Rightarrow> bool" where
  "no_exclusion (Union us) = (\<forall>w\<in>set us. no_exclusion w)"
| "no_exclusion (Intersection us) = (\<forall>w\<in>set us. no_exclusion w)"
| "no_exclusion (Difference base sub) = False"
| "no_exclusion _ = True"

fun wf_rewrite :: "userset \<Rightarrow> bool" where
  "wf_rewrite (ComputedUserset c) = (c \<noteq> [])"
| "wf_rewrite (TupleToUserset ts c) = (ts \<noteq> [])"
| "wf_rewrite (Union us) = (\<forall>w\<in>set us. wf_rewrite w)"
| "wf_rewrite (Intersection us) = (\<forall>w\<in>set us. wf_rewrite w)"
| "wf_rewrite (Difference base sub) = (wf_rewrite base \<and> wf_rewrite sub)"
| "wf_rewrite _ = True"

text \<open>A model whose relation names are valid and whose restrictions name defined types, as validation requires.\<close>

definition wf_model :: "TypeSystem \<Rightarrow> bool" where
  "wf_model t \<longleftrightarrow> consistent t \<and> IsSchemaVersionSupported (ts_schemaVersion t) \<and>
     (\<forall>ot rel r. TypeSystem.GetRelation t ot rel = Inr r \<longrightarrow>
        IsValidRelation rel \<and> wf_rewrite (rel_rewrite r) \<and>
        (\<forall>ref\<in>set (rel_types r). GetTypeDefinition t (rr_type ref) \<noteq> None \<and>
           (\<forall>rel'. rr_ref ref = RelationRef rel' \<longrightarrow> IsValidRelation rel')))"

definition exclusion_free :: "TypeSystem \<Rightarrow> bool" where
  "exclusion_free t \<longleftrightarrow>
     (\<forall>ot rel r. TypeSystem.GetRelation t ot rel = Inr r \<longrightarrow> no_exclusion (rel_rewrite r))"

text \<open>
  A request for a well-formed object and user, that is resolved without fast paths: they need the
  weighted graph and are not used for usersets.
\<close>

definition good :: "('s, 'c) LocalChecker \<Rightarrow> ResolveCheckRequest \<Rightarrow> bool" where
  "good ck req \<longleftrightarrow> IsValidObject (tk_object (rq_TupleKey req)) \<and> wf_user (tk_user (rq_TupleKey req)) \<and>
     (ts_authzWeightedGraph (ck_typesys ck) = None \<or> IsObjectRelation (tk_user (rq_TupleKey req)))"

definition same_scope :: "ResolveCheckRequest \<Rightarrow> ResolveCheckRequest \<Rightarrow> bool" where
  "same_scope req r0 \<longleftrightarrow> rq_StoreID req = rq_StoreID r0 \<and> rq_Context req = rq_Context r0"

text \<open>The tuples a check may use: stored, valid, and with a condition that is met.\<close>

definition usable :: "('s, 'c) LocalChecker \<Rightarrow> (string \<Rightarrow> tuple_key set) \<Rightarrow> ResolveCheckRequest \<Rightarrow>
    string \<Rightarrow> string \<Rightarrow> string \<Rightarrow> bool" where
  "usable ck stored req ob rel u \<longleftrightarrow>
     (\<exists>k\<in>stored (rq_StoreID req). tk_object k = ob \<and> tk_relation k = rel \<and> tk_user k = u \<and>
        tuple_filter ck k \<and> condition_filter ck req k = Inr True)"

lemma condition_filter_scope: "same_scope req r0 \<Longrightarrow> condition_filter ck req = condition_filter ck r0"
  by (simp add: fun_eq_iff condition_filter_def same_scope_def)

lemma usable_scope: "same_scope req r0 \<Longrightarrow> usable ck stored req = usable ck stored r0"
  by (simp add: fun_eq_iff usable_def condition_filter_scope) (simp add: same_scope_def)

lemma same_scope_simps [simp]:
  "same_scope (req\<lparr>rq_TupleKey := tk\<rparr>) r0 = same_scope req r0"
  "same_scope (req\<lparr>rq_VisitedPaths := vs\<rparr>) r0 = same_scope req r0"
  "same_scope (req\<lparr>rq_TupleKey := tk, rq_Depth := d\<rparr>) r0 = same_scope req r0"
  "same_scope (computed_request req rel) r0 = same_scope req r0"
  by (simp_all add: same_scope_def computed_request_def)

lemma good_simps [simp]:
  "good ck (req\<lparr>rq_VisitedPaths := vs\<rparr>) = good ck req"
  "good ck (computed_request req rel) = good ck req"
  by (simp_all add: good_def computed_request_def NewTupleKey_def)

lemma drain_next:
  assumes "drain it cx st = Some (xs, e, st')"
  shows "\<exists>st''. iNext it cx st = Some (case xs of [] \<Rightarrow> Inl e | x # _ \<Rightarrow> Inr x, st'')"
  using assms by (auto simp: drain.simps [of it cx st] split: option.splits sum.splits bind_splits)
lemma wf_user_type:
  assumes "wf_user u"
  shows "GetType u \<noteq> []" and "CHR '':'' \<notin> set (GetType u)" and "CHR ''#'' \<notin> set (GetType u)"
proof -
  obtain ob rel where sp: "SplitObjectRelation u = (ob, rel)" by fastforce
  from wf_user_split(1,2) [OF assms sp] have ob: "IsValidObject ob" "GetType u = GetType ob" by simp_all
  then show "GetType u \<noteq> []" by (simp add: GetType_def IsValidObject_split)
  show "CHR '':'' \<notin> set (GetType u)" by (simp add: GetType_def)
  have "set (GetType ob) \<subseteq> set ob"
    using IsValidObject_split(3) [OF ob(1)] unfolding GetType_def BuildObject_def by (metis Un_upper1 set_append)
  with IsValidObject_no_hash [OF ob(1)] ob(2) show "CHR ''#'' \<notin> set (GetType u)" by auto
qed

lemma TypedPublicWildcard_facts:
  assumes "wf_user u"
  shows "GetType (TypedPublicWildcard (GetType u)) = GetType u"
    and "GetUserTypeFromUser (TypedPublicWildcard (GetType u)) = UserSet"
    and "Tuples.GetRelation (TypedPublicWildcard (GetType u)) = []"
    and "IsTypedWildcard (TypedPublicWildcard (GetType u))"
proof -
  let ?w = "TypedPublicWildcard (GetType u)"
  have sp: "SplitObject ?w = (GetType u, Wildcard)"
    using wf_user_type(2) [OF assms] by (simp add: TypedPublicWildcard_def)
  then show "GetType ?w = GetType u" by (simp add: GetType_def)
  from sp show "GetUserTypeFromUser ?w = UserSet"
    using wf_user_type(1) [OF assms] by (simp add: GetUserTypeFromUser_def IsWildcard_def IsTypedWildcard_def)
  have "CHR ''#'' \<notin> set ?w"
    using wf_user_type(3) [OF assms] by (simp add: TypedPublicWildcard_def BuildObject_def Wildcard_def)
  then show "Tuples.GetRelation ?w = []"
    by (simp add: Tuples.GetRelation_def SplitObjectRelation_no_hash)
  show "IsTypedWildcard ?w" using wf_user_type(1) [OF assms] sp by (simp add: IsTypedWildcard_def)
qed

section \<open>Soundness\<close>

text \<open>A checker over a reader that keeps the contract, a well-formed model and well-formed tuples.\<close>

locale checker = tuple_reader ds contents invar stored
  for ds :: "'s RelationshipTupleReader" and contents invar stored +
  fixes ck :: "('s, 'c) LocalChecker" and r0 :: ResolveCheckRequest
  assumes reader: "ck_ds ck = ds" and live: "ck_ctx ck = Live"
    and stored_wf: "k \<in> stored (rq_StoreID r0) \<Longrightarrow> wf_tuple k"
    and model_wf: "wf_model (ck_typesys ck)"
begin

abbreviation t where "t \<equiv> ck_typesys ck"
abbreviation U where "U \<equiv> usable ck stored r0"

lemma usable_wf: "U ob rel u \<Longrightarrow> wf_user u \<and> IsValidObject ob \<and> IsValidRelation rel"
  using stored_wf by (auto simp: usable_def wf_tuple_def)

lemma defined_valid: "TypeSystem.GetRelation t ot rel = Inr r \<Longrightarrow> IsValidRelation rel"
  using model_wf by (auto simp: wf_model_def)

lemma valid_nonempty: "IsValidRelation rel \<Longrightarrow> rel \<noteq> []"
  by (simp add: IsValidRelation_iff)

lemma read_usable:
  assumes "same_scope req r0" and "invar s"
    and "t_key ` set (contents s) = {k \<in> stored (rq_StoreID req). P k}"
  shows "\<exists>xs e st'. drain (filteredIter ck req) Live (NewFilteredIter s) = Some (xs, e, st') \<and>
    set xs = {k \<in> stored (rq_StoreID r0). P k \<and> tuple_filter ck k \<and> condition_filter ck r0 k = Inr True} \<and>
    (xs \<noteq> [] \<longrightarrow> e = ErrIteratorDone)"
proof -
  have "{k \<in> {k \<in> stored (rq_StoreID req). P k}. tuple_filter ck k \<and> condition_filter ck req k = Inr True} =
      {k \<in> stored (rq_StoreID r0). P k \<and> tuple_filter ck k \<and> condition_filter ck r0 k = Inr True}"
    using assms(1) by (simp add: condition_filter_scope [OF assms(1)]) (auto simp: same_scope_def)
  with filtered_drain [OF reader assms(2), of req] show ?thesis unfolding assms(3) by simp
qed

text \<open>The direct and the public tuple.\<close>

lemma checkDirectUserTuple_sound:
  assumes "good ck req" and "same_scope req r0" and "tk_relation (rq_TupleKey req) \<noteq> []"
  shows "coherent (checkDirectUserTuple ck req) \<and>
    (decision (checkDirectUserTuple ck req) = Granted \<longrightarrow>
       U (tk_object (rq_TupleKey req)) (tk_relation (rq_TupleKey req)) (tk_user (rq_TupleKey req)))"
proof (cases "ds_ReadUserTuple ds (rq_StoreID req) (rq_TupleKey req)")
  case (Inl e)
  then show ?thesis by (simp add: checkDirectUserTuple_def reader)
next
  case (Inr tup)
  have "t_key tup \<in> stored (rq_StoreID req) \<and> same_id (t_key tup) (rq_TupleKey req)"
    using assms Inr by (intro user_law) (auto simp: good_def)
  then have "t_key tup \<in> stored (rq_StoreID r0) \<and> same_id (t_key tup) (rq_TupleKey req)"
    using assms(2) by (simp add: same_scope_def)
  then show ?thesis
    by (auto simp: checkDirectUserTuple_def reader Inr usable_def same_id_def condition_filter_scope [OF assms(2)]
        split: sum.splits)
qed

lemma public_read:
  assumes "good ck req" and "same_scope req r0" and "tk_relation (rq_TupleKey req) \<noteq> []"
    and "ds_ReadUsersetTuples ds (rq_StoreID req)
      \<lparr>ruf_Object = tk_object (rq_TupleKey req), ruf_Relation = tk_relation (rq_TupleKey req),
       ruf_AllowedUserTypeRestrictions = [WildcardRelationReference (GetType (tk_user (rq_TupleKey req)))]\<rparr> = Inr s"
  shows "\<exists>xs e st'. drain (filteredIter ck req) Live (NewFilteredIter s) = Some (xs, e, st') \<and>
    (xs \<noteq> [] \<longleftrightarrow> U (tk_object (rq_TupleKey req)) (tk_relation (rq_TupleKey req))
       (TypedPublicWildcard (GetType (tk_user (rq_TupleKey req)))))"
proof -
  let ?tk = "rq_TupleKey req"
  let ?ty = "GetType (tk_user ?tk)"
  let ?P = "\<lambda>k. tk_object k = tk_object ?tk \<and> tk_relation k = tk_relation ?tk \<and>
    GetUserTypeFromUser (tk_user k) = UserSet \<and>
    (\<exists>ref\<in>set [WildcardRelationReference ?ty]. rr_type ref = GetType (tk_user k) \<and>
       rr_GetRelation ref = Tuples.GetRelation (tk_user k))"
  have "userset_ref (WildcardRelationReference ?ty)" by (simp add: userset_ref_def WildcardRelationReference_def)
  with userset_law [OF _ assms(3) _ _ assms(4)] assms(1)
  have s: "invar s" "t_key ` set (contents s) = {k \<in> stored (rq_StoreID req). ?P k}"
    by (simp_all add: good_def)
  from read_usable [OF assms(2) s] obtain xs e st' where
    xs: "drain (filteredIter ck req) Live (NewFilteredIter s) = Some (xs, e, st')"
      "set xs = {k \<in> stored (rq_StoreID r0). ?P k \<and> tuple_filter ck k \<and> condition_filter ck r0 k = Inr True}"
    by blast
  have "?P k \<longleftrightarrow> tk_object k = tk_object ?tk \<and> tk_relation k = tk_relation ?tk \<and> tk_user k = TypedPublicWildcard ?ty"
    if "k \<in> stored (rq_StoreID r0)" for k
  proof -
    have "wf_user (tk_user k)" using stored_wf [OF that] by (simp add: wf_tuple_def)
    from wf_user_wildcard [OF this] TypedPublicWildcard_facts [of "tk_user ?tk"] assms(1) show ?thesis
      by (auto simp: WildcardRelationReference_def rr_GetRelation_def good_def)
  qed
  with xs(2) have "xs \<noteq> [] \<longleftrightarrow> U (tk_object ?tk) (tk_relation ?tk) (TypedPublicWildcard ?ty)"
    by (auto simp: usable_def simp flip: set_empty)
  with xs(1) show ?thesis by blast
qed

end
text \<open>An outcome that grants access only for a reason.\<close>

definition justified :: "bool \<Rightarrow> outcome \<Rightarrow> bool" where
  "justified P out \<longleftrightarrow> coherent out \<and> (decision out = Granted \<longrightarrow> P)"

lemma justified_mono: "justified P out \<Longrightarrow> (P \<Longrightarrow> Q) \<Longrightarrow> justified Q out"
  by (auto simp: justified_def)

lemma justified_error [simp]: "justified P (Inl e)"
  by (simp add: justified_def)

lemma union_reducer_justified:
  assumes "union_reducer None (length outs) (deliver outs arr) = Some r" and "\<And>out. out \<in> set outs \<Longrightarrow> justified P out"
  shows "justified P r"
  using union_reducer_sound [OF assms(1)] assms(2) unfolding justified_def by blast

lemma consumeDispatches_justified:
  assumes "\<And>out. out \<in> set outs \<Longrightarrow> justified P out"
  shows "justified P (consumeDispatches (deliver outs arr))"
  using consumeDispatches_sound [of outs arr] assms unfolding justified_def by blast

lemma intersection_justified:
  assumes "intersection None (length outs) (deliver outs arr) = Some r" and "distinct arr"
    and "list_all2 (\<lambda>w out. justified (Q w) out) us outs"
  shows "justified (us \<noteq> [] \<and> (\<forall>w\<in>set us. Q w)) r"
proof -
  from assms(3) have "coherent out" if "out \<in> set outs" for out
    using that by (induction rule: list_all2_induct) (auto simp: justified_def)
  with intersection_reducer_sound [OF assms(1) _ assms(2)] have r: "coherent r"
    "decision r = Granted \<Longrightarrow> outs \<noteq> [] \<and> (\<forall>out\<in>set outs. decision out = Granted)"
    by blast+
  from assms(3) have "(\<forall>out\<in>set outs. decision out = Granted) \<longrightarrow> (\<forall>w\<in>set us. Q w)"
    by (induction rule: list_all2_induct) (auto simp: justified_def)
  with r list_all2_lengthD [OF assms(3)] show ?thesis unfolding justified_def by auto
qed

lemma sequence_Some: "sequence xs = Some ys \<longleftrightarrow> xs = map Some ys"
proof
  show "sequence xs = Some ys \<Longrightarrow> xs = map Some ys"
    by (induction xs arbitrary: ys) (auto split: option.splits)
  show "xs = map Some ys \<Longrightarrow> sequence xs = Some ys"
    by (induction ys arbitrary: xs) auto
qed

context checker
begin

text \<open>What a request asks, and what a delegate that answers soundly does.\<close>

definition asked :: "ResolveCheckRequest \<Rightarrow> bool" where
  "asked req \<longleftrightarrow> (exclusion_free t \<longrightarrow>
     member t U (tk_object (rq_TupleKey req)) (tk_relation (rq_TupleKey req)) (tk_user (rq_TupleKey req)))"

definition asked_rewrite :: "ResolveCheckRequest \<Rightarrow> userset \<Rightarrow> bool" where
  "asked_rewrite req w \<longleftrightarrow> (exclusion_free t \<and> no_exclusion w \<longrightarrow>
     satisfies t U w (tk_object (rq_TupleKey req)) (tk_relation (rq_TupleKey req)) (tk_user (rq_TupleKey req)))"

definition answers :: "delegate \<Rightarrow> bool" where
  "answers dl \<longleftrightarrow> (\<forall>path req out. good ck req \<and> same_scope req r0 \<and> dl path req = Some out \<longrightarrow> justified (asked req) out)"

lemma checkPublicAssignable_result:
  assumes "good ck req" and "same_scope req r0" and "tk_relation (rq_TupleKey req) \<noteq> []"
  shows "\<exists>out. checkPublicAssignable ck req = Some out \<and> coherent out \<and>
    (case decision out of
       Granted \<Rightarrow> U (tk_object (rq_TupleKey req)) (tk_relation (rq_TupleKey req))
                    (TypedPublicWildcard (GetType (tk_user (rq_TupleKey req))))
     | Denied \<Rightarrow> \<not> U (tk_object (rq_TupleKey req)) (tk_relation (rq_TupleKey req))
                    (TypedPublicWildcard (GetType (tk_user (rq_TupleKey req))))
     | Failed \<Rightarrow> True)"
proof (cases "ds_ReadUsersetTuples ds (rq_StoreID req)
      \<lparr>ruf_Object = tk_object (rq_TupleKey req), ruf_Relation = tk_relation (rq_TupleKey req),
       ruf_AllowedUserTypeRestrictions = [WildcardRelationReference (GetType (tk_user (rq_TupleKey req)))]\<rparr>")
  case (Inl e)
  then show ?thesis by (simp add: checkPublicAssignable_def reader)
next
  case (Inr s)
  from public_read [OF assms Inr] obtain xs e st' where
    xs: "drain (filteredIter ck req) Live (NewFilteredIter s) = Some (xs, e, st')"
      "xs \<noteq> [] \<longleftrightarrow> U (tk_object (rq_TupleKey req)) (tk_relation (rq_TupleKey req))
       (TypedPublicWildcard (GetType (tk_user (rq_TupleKey req))))" by blast
  from drain_next [OF xs(1)] obtain st'' where
    "iNext (filteredIter ck req) Live (NewFilteredIter s) = Some (case xs of [] \<Rightarrow> Inl e | x # _ \<Rightarrow> Inr x, st'')"
    by blast
  with xs(2) show ?thesis
    by (auto simp: checkPublicAssignable_def reader live Inr split: list.splits)
qed

lemma dispatched_good:
  assumes "good ck req" and "wf_user v" and "SplitObjectRelation v = (ob, rel')"
  shows "good ck (req\<lparr>rq_TupleKey := NewTupleKey ob rel (tk_user (rq_TupleKey req)), rq_Depth := d\<rparr>)"
  using assms wf_user_split(1) [OF assms(2,3)] by (simp add: good_def NewTupleKey_def)

lemma userset_read:
  assumes "good ck req" and "same_scope req r0" and "tk_relation (rq_TupleKey req) \<noteq> []" and "refs \<noteq> []"
    and "\<forall>ref\<in>set refs. rr_GetRelation ref \<noteq> []"
    and "ds_ReadUsersetTuples ds (rq_StoreID req)
      \<lparr>ruf_Object = tk_object (rq_TupleKey req), ruf_Relation = tk_relation (rq_TupleKey req),
       ruf_AllowedUserTypeRestrictions = refs\<rparr> = Inr s"
  shows "\<exists>xs e st'. drain (filteredIter ck req) Live (NewFilteredIter s) = Some (xs, e, st') \<and>
    tk_user ` set xs = {v. U (tk_object (rq_TupleKey req)) (tk_relation (rq_TupleKey req)) v \<and> IsObjectRelation v \<and>
        (\<exists>ref\<in>set refs. rr_type ref = GetType v \<and> rr_GetRelation ref = Tuples.GetRelation v)}"
proof -
  let ?tk = "rq_TupleKey req"
  let ?P = "\<lambda>k. tk_object k = tk_object ?tk \<and> tk_relation k = tk_relation ?tk \<and>
    GetUserTypeFromUser (tk_user k) = UserSet \<and>
    (\<exists>ref\<in>set refs. rr_type ref = GetType (tk_user k) \<and> rr_GetRelation ref = Tuples.GetRelation (tk_user k))"
  have "\<forall>ref\<in>set refs. userset_ref ref" using assms(5) by (simp add: userset_ref_def)
  from userset_law [OF _ assms(3,4) this assms(6)] assms(1)
  have s: "invar s" "t_key ` set (contents s) = {k \<in> stored (rq_StoreID req). ?P k}"
    by (simp_all add: good_def)
  from read_usable [OF assms(2) s] obtain xs e st' where
    xs: "drain (filteredIter ck req) Live (NewFilteredIter s) = Some (xs, e, st')"
      "set xs = {k \<in> stored (rq_StoreID r0). ?P k \<and> tuple_filter ck k \<and> condition_filter ck r0 k = Inr True}"
    by blast
  have "GetUserTypeFromUser (tk_user k) = UserSet \<longleftrightarrow> IsObjectRelation (tk_user k)"
    if "k \<in> stored (rq_StoreID r0)" and "ref \<in> set refs" and "rr_GetRelation ref = Tuples.GetRelation (tk_user k)" for k ref
  proof -
    from assms(5) that(2,3) have "Tuples.GetRelation (tk_user k) \<noteq> []" by metis
    moreover have "wf_user (tk_user k)" using stored_wf [OF that(1)] by (simp add: wf_tuple_def)
    ultimately show ?thesis
      by (simp add: GetUserTypeFromUser_def IsObjectRelation_def wf_user_type)
  qed
  then have "set xs = {k \<in> stored (rq_StoreID r0). tk_object k = tk_object (rq_TupleKey req) \<and>
        tk_relation k = tk_relation (rq_TupleKey req) \<and> IsObjectRelation (tk_user k) \<and>
        (\<exists>ref\<in>set refs. rr_type ref = GetType (tk_user k) \<and> rr_GetRelation ref = Tuples.GetRelation (tk_user k)) \<and>
        tuple_filter ck k \<and> condition_filter ck r0 k = Inr True}"
    unfolding xs(2) by blast
  then have "tk_user ` set xs = {v. U (tk_object ?tk) (tk_relation ?tk) v \<and> IsObjectRelation v \<and>
        (\<exists>ref\<in>set refs. rr_type ref = GetType v \<and> rr_GetRelation ref = Tuples.GetRelation v)}"
    unfolding usable_def by blast
  with xs(1) show ?thesis by blast
qed

lemma ttu_read:
  assumes "good ck req" and "same_scope req r0" and "ts \<noteq> []"
    and "ds_Read ds (rq_StoreID req) (NewTupleKey (tk_object (rq_TupleKey req)) ts []) = Inr s"
  shows "\<exists>xs e st'. drain (filteredIter ck req) Live (NewFilteredIter s) = Some (xs, e, st') \<and>
    tk_user ` set xs = {v. U (tk_object (rq_TupleKey req)) ts v}"
proof -
  from read_law [OF _ assms(3,4)] assms(1)
  have s: "invar s" "t_key ` set (contents s) =
      {k \<in> stored (rq_StoreID req). tk_object k = tk_object (rq_TupleKey req) \<and> tk_relation k = ts}"
    by (simp_all add: good_def)
  from read_usable [OF assms(2) s] obtain xs e st' where
    xs: "drain (filteredIter ck req) Live (NewFilteredIter s) = Some (xs, e, st')"
      "set xs = {k \<in> stored (rq_StoreID r0). (tk_object k = tk_object (rq_TupleKey req) \<and> tk_relation k = ts) \<and>
         tuple_filter ck k \<and> condition_filter ck r0 k = Inr True}"
    by blast
  from xs(2) have "tk_user ` set xs = {v. U (tk_object (rq_TupleKey req)) ts v}" unfolding usable_def by blast
  with xs(1) show ?thesis by blast
qed

end
context checker
begin

lemma usable_admitted:
  assumes "U ob rel u"
  obtains r ref where "TypeSystem.GetRelation t (GetType ob) rel = Inr r" "ref \<in> set (rel_types r)" "admits ref u"
proof -
  from assms obtain k where k: "tk_object k = ob" "tk_relation k = rel" "tk_user k = u"
    and "ValidateTupleForRead (ck_stdlib ck) t k = Some None"
    by (auto simp: usable_def tuple_filter_def FilterInvalidTuples_def)
  then obtain r where r: "TypeSystem.GetRelation t (GetType (tk_object k)) (tk_relation k) = Inr r"
    using ValidateTupleForRead_relation by blast
  from ValidateTupleForRead_iff [OF _ _ r] model_wf \<open>ValidateTupleForRead (ck_stdlib ck) t k = Some None\<close>
  obtain ref where "ref \<in> set (rel_types r)" "admits ref (tk_user k)" by (auto simp: wf_model_def)
  with r k that show thesis by simp
qed

lemma restriction_wf:
  assumes "TypeSystem.GetRelation t ot rel = Inr r" and "ref \<in> set (rel_types r)"
  shows "GetTypeDefinition t (rr_type ref) \<noteq> None" and "rr_ref ref = RelationRef rel' \<Longrightarrow> IsValidRelation rel'"
  using model_wf assms by (auto simp: wf_model_def)

lemma usable_type_defined:
  assumes "U ob rel u" and "SplitObjectRelation u = (ob', rel')"
  shows "(\<exists>r. TypeSystem.GetRelation t (GetType ob') c = Inr r) \<or>
    (\<exists>e. TypeSystem.GetRelation t (GetType ob') c = Inl e \<and> errors_Is e ErrRelationUndefined)"
proof -
  from assms(1) obtain r ref where r: "TypeSystem.GetRelation t (GetType ob) rel = Inr r" "ref \<in> set (rel_types r)" "admits ref u"
    by (rule usable_admitted)
  from r(3) have "rr_type ref = GetType ob'"
    using wf_user_split(2) [OF _ assms(2)] usable_wf [OF assms(1)] by (simp add: admits_def)
  with restriction_wf(1) [OF r(1,2)] show ?thesis
    by (auto simp: TypeSystem.GetRelation_def GetRelations_def split: option.splits)
qed

lemma dispatch_answers:
  assumes "answers dl" and "good ck req" and "same_scope req r0" and "wf_user v" and "SplitObjectRelation v = (ob, rel')"
    and "dispatch dl p req (NewTupleKey ob rel (tk_user (rq_TupleKey req))) = Some out"
  shows "justified (exclusion_free t \<longrightarrow> member t U ob rel (tk_user (rq_TupleKey req))) out"
proof -
  let ?req = "req\<lparr>rq_TupleKey := NewTupleKey ob rel (tk_user (rq_TupleKey req)), rq_Depth := rq_Depth req + 1\<rparr>"
  have "justified (asked ?req) out"
    using assms(1,3,6) dispatched_good [OF assms(2,4,5)] unfolding answers_def dispatch_def
    by (metis same_scope_simps(3))
  then show ?thesis by (simp add: asked_def NewTupleKey_def)
qed

lemma checkUsersetSlowPath_sound:
  assumes "answers dl" and "good ck req" and "same_scope req r0" and "tk_relation (rq_TupleKey req) \<noteq> []" and "refs \<noteq> []"
    and "\<forall>ref\<in>set refs. rr_GetRelation ref \<noteq> []"
    and "ds_ReadUsersetTuples ds (rq_StoreID req)
      \<lparr>ruf_Object = tk_object (rq_TupleKey req), ruf_Relation = tk_relation (rq_TupleKey req),
       ruf_AllowedUserTypeRestrictions = refs\<rparr> = Inr s"
    and "checkUsersetSlowPath ck dl sched path req (NewFilteredIter s) = Some out"
  shows "justified (asked_rewrite req This) out"
proof -
  let ?tk = "rq_TupleKey req"
  from userset_read [OF assms(2-7)] obtain xs e st' where
    xs: "drain (filteredIter ck req) Live (NewFilteredIter s) = Some (xs, e, st')"
    and users: "tk_user ` set xs = {v. U (tk_object ?tk) (tk_relation ?tk) v \<and> IsObjectRelation v \<and>
        (\<exists>ref\<in>set refs. rr_type ref = GetType v \<and> rr_GetRelation ref = Tuples.GetRelation v)}"
    by (elim exE conjE)
  have k: "U (tk_object ?tk) (tk_relation ?tk) (tk_user k)" and rel: "IsObjectRelation (tk_user k)" if "k \<in> set xs" for k
    using imageI [OF that, of tk_user] unfolding users by blast+
  from produceUsersetDispatches_drain [OF xs] assms(8) live obtain outs where
    outs: "processDispatches dl path req 0 (userset_msgs t ?tk xs e) = Some outs"
      "out = consumeDispatches (deliver outs (sched path (length outs)))"
    by (auto simp: checkUsersetSlowPath_def split: option.splits)
  have short: "MsgShortCircuit \<notin> set (userset_msgs t ?tk xs e)"
  proof
    assume "MsgShortCircuit \<in> set (userset_msgs t ?tk xs e)"
    from userset_msgs_short [OF this] obtain v where v: "v \<in> set xs" "IsTypedWildcard (fst (SplitObjectRelation (tk_user v)))"
      by blast
    from wf_user_split(3,4) [OF _ prod.collapse [symmetric], of "tk_user v"] v(2) usable_wf [OF k [OF v(1)]] rel [OF v(1)]
    show False by auto
  qed
  have "justified (asked_rewrite req This) o'" if "o' \<in> set outs" for o'
    using processDispatches_elem [OF outs(1) that]
  proof (elim disjE exE conjE)
    fix k p
    assume "MsgDispatch k \<in> set (userset_msgs t ?tk xs e)" and d: "dispatch dl p req k = Some o'"
    from userset_msgs_dispatch [OF this(1)] obtain v ob rel where
      v: "v \<in> set xs" "SplitObjectRelation (tk_user v) = (ob, rel)" "rel \<noteq> []" "k = NewTupleKey ob rel (tk_user ?tk)"
      by blast
    from dispatch_answers [OF assms(1-3) _ v(2) d [unfolded v(4)]] usable_wf [OF k [OF v(1)]]
    have "justified (exclusion_free t \<longrightarrow> member t U ob rel (tk_user ?tk)) o'" by blast
    then show ?thesis
      by (rule justified_mono) (auto simp: asked_rewrite_def intro: member_satisfies.userset [where U = U, OF k [OF v(1)] v(2,3)])
  qed (use short in auto)
  then show ?thesis unfolding outs(2) by (rule consumeDispatches_justified)
qed

lemma checkTTUSlowPath_sound:
  assumes "answers dl" and "good ck req" and "same_scope req r0" and "ts \<noteq> []"
    and "ds_Read ds (rq_StoreID req) (NewTupleKey (tk_object (rq_TupleKey req)) ts []) = Inr s"
    and "checkTTUSlowPath ck dl sched path req c (NewFilteredIter s) = Some out"
  shows "justified (asked_rewrite req (TupleToUserset ts c)) out"
proof -
  let ?tk = "rq_TupleKey req"
  from ttu_read [OF assms(2-5)] obtain xs e st' where
    xs: "drain (filteredIter ck req) Live (NewFilteredIter s) = Some (xs, e, st')"
    and users: "tk_user ` set xs = {v. U (tk_object ?tk) ts v}"
    by (elim exE conjE)
  have k: "U (tk_object ?tk) ts (tk_user k)" if "k \<in> set xs" for k
    using imageI [OF that, of tk_user] unfolding users by blast
  from produceTTUDispatches_drain [OF xs] assms(6) live obtain outs where
    outs: "processDispatches dl path req 0 (ttu_msgs t c ?tk xs e) = Some outs"
      "out = consumeDispatches (deliver outs (sched path (length outs)))"
    by (auto simp: checkTTUSlowPath_def split: option.splits)
  have "justified (asked_rewrite req (TupleToUserset ts c)) o'" if "o' \<in> set outs" for o'
    using processDispatches_elem [OF outs(1) that]
  proof (elim disjE exE conjE)
    fix k p
    assume "MsgDispatch k \<in> set (ttu_msgs t c ?tk xs e)" and d: "dispatch dl p req k = Some o'"
    from ttu_msgs_dispatch [OF this(1)] obtain v where
      v: "v \<in> set xs" "k = NewTupleKey (fst (SplitObjectRelation (tk_user v))) c (tk_user ?tk)"
      and "\<forall>e. TypeSystem.GetRelation t (GetType (fst (SplitObjectRelation (tk_user v)))) c = Inl e \<longrightarrow>
          \<not> errors_Is e ErrRelationUndefined"
      by blast
    then obtain r where r: "TypeSystem.GetRelation t (GetType (fst (SplitObjectRelation (tk_user v)))) c = Inr r"
      using usable_type_defined [OF k [OF v(1)] prod.collapse [symmetric], of c] by blast
    from dispatch_answers [OF assms(1-3) _ prod.collapse [symmetric] d [unfolded v(2)]] usable_wf [OF k [OF v(1)]]
    have "justified (exclusion_free t \<longrightarrow> member t U (fst (SplitObjectRelation (tk_user v))) c (tk_user ?tk)) o'"
      by blast
    then show ?thesis
      by (rule justified_mono) (auto simp: asked_rewrite_def intro: member_satisfies.ttu [where U = U, OF k [OF v(1)] r])
  qed (use ttu_msgs_no_short in auto)
  then show ?thesis unfolding outs(2) by (rule consumeDispatches_justified)
qed

end
context checker
begin

lemma no_fast_path:
  assumes "good ck req"
  shows "checkDirectUsersetTuples ck dl sched path req refs =
      (case ds_ReadUsersetTuples ds (rq_StoreID req)
              \<lparr>ruf_Object = tk_object (rq_TupleKey req), ruf_Relation = tk_relation (rq_TupleKey req),
               ruf_AllowedUserTypeRestrictions = refs\<rparr> of
         Inl e \<Rightarrow> Some (Inl e)
       | Inr s \<Rightarrow> checkUsersetSlowPath ck dl sched path req (NewFilteredIter s))"
    and "checkTTU ck dl sched path req ts c =
      (case ds_Read ds (rq_StoreID req) (NewTupleKey (tk_object (rq_TupleKey req)) ts []) of
         Inl e \<Rightarrow> Some (Inl e)
       | Inr s \<Rightarrow> checkTTUSlowPath ck dl sched path req c (NewFilteredIter s))"
  using assms
  by (auto simp: good_def checkDirectUsersetTuples_def checkTTU_def Let_def reader live split: sum.split)

text \<open>The checks that \<^verbatim>\<open>checkDirect\<close> runs, with the type restrictions of the relation.\<close>

lemma checkDirect_outs:
  assumes "TypeSystem.GetRelation t (GetType (tk_object (rq_TupleKey req))) (tk_relation (rq_TupleKey req)) = Inr r"
    and "checkDirect ck dl sched path req = Some out"
  obtains outs where "union_reducer None (length outs) (deliver outs (sched path (length outs))) = Some out"
    and "map Some outs =
      (if shouldCheckDirectTuple t (rq_TupleKey req) then [Some (checkDirectUserTuple ck req)] else []) @
      (if shouldCheckPublicAssignable t (rq_TupleKey req) then [checkPublicAssignable ck req] else []) @
      (if filter (\<lambda>ref. rr_GetRelation ref \<noteq> []) (rel_types r) \<noteq> []
       then [checkDirectUsersetTuples ck dl sched (0 # path) req (filter (\<lambda>ref. rr_GetRelation ref \<noteq> []) (rel_types r))]
       else [])"
proof -
  have refs: "DirectlyRelatedUsersets t (GetType (tk_object (rq_TupleKey req))) (tk_relation (rq_TupleKey req)) =
      Inr (filter (\<lambda>ref. rr_GetRelation ref \<noteq> []) (rel_types r))"
    using assms(1) by (simp add: DirectlyRelatedUsersets_def GetDirectlyRelatedUserTypes_def)
  let ?L = "(if shouldCheckDirectTuple t (rq_TupleKey req) then [Some (checkDirectUserTuple ck req)] else []) @
      (if shouldCheckPublicAssignable t (rq_TupleKey req) then [checkPublicAssignable ck req] else []) @
      (if filter (\<lambda>ref. rr_GetRelation ref \<noteq> []) (rel_types r) \<noteq> []
       then [checkDirectUsersetTuples ck dl sched (0 # path) req (filter (\<lambda>ref. rr_GetRelation ref \<noteq> []) (rel_types r))]
       else [])"
  have "checkDirect ck dl sched path req = (case sequence ?L of None \<Rightarrow> None
      | Some outs \<Rightarrow> union_reducer None (length outs) (deliver outs (sched path (length outs))))"
    by (simp only: checkDirect_def Let_def live ctx_Err.simps option.case refs sum.case)
  with assms(2) obtain outs where "sequence ?L = Some outs"
    "union_reducer None (length outs) (deliver outs (sched path (length outs))) = Some out"
    by (cases "sequence ?L") simp_all
  then show thesis using that unfolding sequence_Some by metis
qed

lemma checkDirect_sound:
  assumes "answers dl" and "good ck req" and "same_scope req r0"
    and rel: "TypeSystem.GetRelation t (GetType (tk_object (rq_TupleKey req))) (tk_relation (rq_TupleKey req)) = Inr r"
    and "checkDirect ck dl sched path req = Some out"
  shows "justified (asked_rewrite req This) out"
proof -
  let ?tk = "rq_TupleKey req"
  let ?refs = "filter (\<lambda>ref. rr_GetRelation ref \<noteq> []) (rel_types r)"
  have nonempty: "tk_relation ?tk \<noteq> []" using defined_valid [OF rel] valid_nonempty by blast
  obtain outs where outs: "union_reducer None (length outs) (deliver outs (sched path (length outs))) = Some out"
    and all: "map Some outs =
      (if shouldCheckDirectTuple t ?tk then [Some (checkDirectUserTuple ck req)] else []) @
      (if shouldCheckPublicAssignable t ?tk then [checkPublicAssignable ck req] else []) @
      (if ?refs \<noteq> [] then [checkDirectUsersetTuples ck dl sched (0 # path) req ?refs] else [])"
    using rel assms(5) by (rule checkDirect_outs)
  show ?thesis
  proof (rule union_reducer_justified [OF outs])
    fix o'
    assume "o' \<in> set outs"
    then have "Some o' \<in> set (map Some outs)" by simp
    then consider "o' = checkDirectUserTuple ck req"
      | "shouldCheckPublicAssignable t ?tk" "checkPublicAssignable ck req = Some o'"
      | "?refs \<noteq> []" "checkDirectUsersetTuples ck dl sched (0 # path) req ?refs = Some o'"
      unfolding all by (auto split: if_splits)
    then show "justified (asked_rewrite req This) o'"
    proof cases
      case 1
      with checkDirectUserTuple_sound [OF assms(2,3) nonempty] show ?thesis
        by (auto simp: justified_def asked_rewrite_def intro: direct)
    next
      case 2
      from 2(1) have "\<not> IsObjectRelation (tk_user ?tk)" by (simp add: shouldCheckPublicAssignable_def)
      with checkPublicAssignable_result [OF assms(2,3) nonempty] 2(2) show ?thesis
        by (auto simp: justified_def asked_rewrite_def intro: everyone)
    next
      case 3
      then show ?thesis
        using checkUsersetSlowPath_sound [OF assms(1-3) nonempty 3(1)]
        by (auto simp: no_fast_path(1) [OF assms(2)] split: sum.splits)
    qed
  qed
qed

lemma checkTTU_sound:
  assumes "answers dl" and "good ck req" and "same_scope req r0" and "ts \<noteq> []"
    and "checkTTU ck dl sched path req ts c = Some out"
  shows "justified (asked_rewrite req (TupleToUserset ts c)) out"
  using assms(5) checkTTUSlowPath_sound [OF assms(1-4)]
  by (auto simp: no_fast_path(2) [OF assms(2)] split: sum.splits)

end
lemma list_all2_right: "list_all2 P xs ys \<Longrightarrow> y \<in> set ys \<Longrightarrow> \<exists>x\<in>set xs. P x y"
  by (induction rule: list_all2_induct) auto

lemma list_all2_left: "list_all2 P xs ys \<Longrightarrow> x \<in> set xs \<Longrightarrow> \<exists>y\<in>set ys. P x y"
  by (induction rule: list_all2_induct) auto

lemma member_self: "IsSelfDefining tk \<Longrightarrow> member t U (tk_object tk) (tk_relation tk) (tk_user tk)"
  by (auto simp: IsSelfDefining_def split: prod.splits intro: self)

context checker
begin

lemma relation_rewrite:
  assumes "TypeSystem.GetRelation t ot rel = Inr r"
  shows "wf_rewrite (rel_rewrite r)" and "exclusion_free t \<Longrightarrow> no_exclusion (rel_rewrite r)"
  using model_wf assms by (auto simp: wf_model_def exclusion_free_def)

lemma ResolveCheck_cases:
  assumes "ResolveCheck ck dl sched path req = Some out"
  obtains (failed) e where "out = Inl e"
  | (cycle) "TupleKeyToString (rq_TupleKey req) \<in> set (rq_VisitedPaths req)" "out = Inr (response False True)"
  | (self) "TupleKeyToString (rq_TupleKey req) \<notin> set (rq_VisitedPaths req)" "IsSelfDefining (rq_TupleKey req)"
      "out = Inr (response True False)"
  | (unreachable) r where "TupleKeyToString (rq_TupleKey req) \<notin> set (rq_VisitedPaths req)" "\<not> IsSelfDefining (rq_TupleKey req)"
      "TypeSystem.GetRelation t (GetType (tk_object (rq_TupleKey req))) (tk_relation (rq_TupleKey req)) = Inr r"
      "PathExists t (tk_user (rq_TupleKey req)) (tk_relation (rq_TupleKey req)) (GetType (tk_object (rq_TupleKey req))) = Inr False"
      "out = Inr (response False False)"
  | (rewrite) r where "TupleKeyToString (rq_TupleKey req) \<notin> set (rq_VisitedPaths req)" "\<not> IsSelfDefining (rq_TupleKey req)"
      "TypeSystem.GetRelation t (GetType (tk_object (rq_TupleKey req))) (tk_relation (rq_TupleKey req)) = Inr r"
      "rq_Depth req \<noteq> ck_maxResolutionDepth ck"
      "PathExists t (tk_user (rq_TupleKey req)) (tk_relation (rq_TupleKey req)) (GetType (tk_object (rq_TupleKey req))) = Inr True"
      "CheckRewrite ck dl sched path (req\<lparr>rq_VisitedPaths := TupleKeyToString (rq_TupleKey req) # rq_VisitedPaths req\<rparr>)
         (rel_rewrite r) = Some out"
proof -
  let ?tk = "rq_TupleKey req"
  note eq = assms [unfolded ResolveCheck.simps [of ck] Let_def live ctx_Err.simps option.case, folded GetType_def]
  show thesis
  proof (cases "rq_Depth req = ck_maxResolutionDepth ck")
    case True
    with eq have "\<exists>e. out = Inl e" by auto
            then show ?thesis using failed by blast
  next
    case depth: False
    show ?thesis
    proof (cases "TupleKeyToString ?tk \<in> set (rq_VisitedPaths req)")
      case True
      with eq depth cycle show ?thesis by simp
    next
      case visited: False
      show ?thesis
      proof (cases "IsSelfDefining ?tk")
        case True
        with eq depth visited self show ?thesis by simp
      next
        case undef: False
        show ?thesis
        proof (cases "TypeSystem.GetRelation t (GetType (tk_object ?tk)) (tk_relation ?tk)")
          case (Inl e)
          with eq depth visited undef have "\<exists>e. out = Inl e" by auto
            then show ?thesis using failed by blast
        next
          case rel: (Inr r)
          show ?thesis
          proof (cases "PathExists t (tk_user ?tk) (tk_relation ?tk) (GetType (tk_object ?tk))")
            case (Inl e)
            with eq depth visited undef rel have "\<exists>e. out = Inl e" by auto
            then show ?thesis using failed by blast
          next
            case (Inr b)
            with eq depth visited undef rel rewrite [OF visited undef rel depth] unreachable [OF visited undef rel]
            show ?thesis by (cases b) simp_all
          qed
        qed
      qed
    qed
  qed
qed

lemma CheckRewrite_sound:
  fixes ck' :: "('s, 'c) LocalChecker"
  shows "ck' = ck \<Longrightarrow> answers dl \<Longrightarrow> orderly sched \<Longrightarrow> good ck req \<Longrightarrow> same_scope req r0 \<Longrightarrow>
      ResolveCheck ck' dl sched path req = Some out \<Longrightarrow> justified (asked req) out"
    and "ck' = ck \<Longrightarrow> answers dl \<Longrightarrow> orderly sched \<Longrightarrow> good ck req \<Longrightarrow> same_scope req r0 \<Longrightarrow>
      TypeSystem.GetRelation t (GetType (tk_object (rq_TupleKey req))) (tk_relation (rq_TupleKey req)) = Inr r \<Longrightarrow>
      wf_rewrite w \<Longrightarrow> CheckRewrite ck' dl sched path req w = Some out \<Longrightarrow> justified (asked_rewrite req w) out"
    and "ck' = ck \<Longrightarrow> answers dl \<Longrightarrow> orderly sched \<Longrightarrow> good ck req \<Longrightarrow> same_scope req r0 \<Longrightarrow>
      TypeSystem.GetRelation t (GetType (tk_object (rq_TupleKey req))) (tk_relation (rq_TupleKey req)) = Inr r \<Longrightarrow>
      \<forall>w\<in>set us. wf_rewrite w \<Longrightarrow> CheckRewrites ck' dl sched path req i us = Some outs \<Longrightarrow>
      list_all2 (\<lambda>w out. justified (asked_rewrite req w) out) us outs"
proof (induction ck' dl sched path req and ck' dl sched path req w and ck' dl sched path req i us
    arbitrary: out and out r and outs r rule: ResolveCheck_CheckRewrite_CheckRewrites.induct)
  case (1 ck' dl sched path req)
  note ck' = \<open>ck' = ck\<close>
  from 1(7) [unfolded ck'] show ?case
  proof (cases rule: ResolveCheck_cases)
    case (rewrite r)
    have "justified (asked_rewrite (req\<lparr>rq_VisitedPaths := TupleKeyToString (rq_TupleKey req) # rq_VisitedPaths req\<rparr>) (rel_rewrite r)) out"
      by (rule 1(1) [OF refl refl refl refl, of r True r out])
         (use 1(3-6) rewrite relation_rewrite(1) in \<open>simp_all add: ck' live GetType_def\<close>)
    then show ?thesis
      by (rule justified_mono) (use relation_rewrite [OF rewrite(3)] rewrite(3) in
        \<open>auto simp: asked_def asked_rewrite_def intro: member_satisfies.rewrite\<close>)
  qed (auto simp: justified_def asked_def member_self)
next
  case (2 ck' dl sched path req)
  then show ?case using checkDirect_sound by auto
next
  case (3 ck' dl sched path req rel)
  then have "justified (asked (computed_request req rel)) out" by auto
  then show ?case
    by (rule justified_mono) (auto simp: asked_def asked_rewrite_def computed_request_def NewTupleKey_def intro: computed)
next
  case (4 ck' dl sched path req ts c)
  then show ?case using checkTTU_sound by auto
next
  case (5 ck' dl sched path req us)
  then obtain outs where outs: "CheckRewrites ck dl sched path req 0 us = Some outs"
    "union_reducer None (length outs) (deliver outs (sched path (length outs))) = Some out"
    by (auto split: option.splits)
  have "list_all2 (\<lambda>w out. justified (asked_rewrite req w) out) us outs"
    using 5 outs(1) by auto
  have "justified (asked_rewrite req (Union us)) o'" if o': "o' \<in> set outs" for o'
  proof -
    from list_all2_right [OF \<open>list_all2 _ us outs\<close> o'] obtain w where "w \<in> set us" "justified (asked_rewrite req w) o'"
      by blast
    then show ?thesis by (elim justified_mono) (auto simp: asked_rewrite_def intro: union)
  qed
  with outs(2) show ?case by (rule union_reducer_justified)
next
  case (6 ck' dl sched path req us)
  then obtain outs where outs: "CheckRewrites ck dl sched path req 0 us = Some outs"
    "intersection None (length outs) (deliver outs (sched path (length outs))) = Some out"
    by (auto split: option.splits)
  have "list_all2 (\<lambda>w out. justified (asked_rewrite req w) out) us outs"
    using 6 outs(1) by auto
  from intersection_justified [OF outs(2) _ this] 6(4)
  have "justified (us \<noteq> [] \<and> (\<forall>w\<in>set us. asked_rewrite req w)) out" by (simp add: orderly_def)
  then show ?case by (rule justified_mono) (auto simp: asked_rewrite_def intro: inter)
next
  case (7 ck' dl sched path req base sub)
  then show ?case
    by (auto simp: justified_def asked_rewrite_def exclusion_coherent split: option.splits)
next
  case (8 ck' dl sched path req)
  then show ?case by auto
next
  case (9 ck' dl sched path req i)
  then show ?case by auto
next
  case (10 ck' dl sched path req i u us)
  then show ?case by (auto split: option.splits)
qed

end
section \<open>Fair schedules\<close>

lemma union_fair:
  assumes "fair sched"
  shows "\<exists>r. union_reducer None (length outs) (deliver outs (sched path (length outs))) = Some r \<and>
    decision r = any_decision (decision ` set outs)"
proof -
  obtain os where os: "deliver outs (sched path (length outs)) = map Arrive os" "mset os = mset outs"
    using assms by (rule deliver_fair)
  then have "length os = length outs" "set os = set outs" using mset_eq_length mset_eq_setD by blast+
  with union_loop_decision [of os None False] show ?thesis
    by (auto simp: os(1) union_reducer_def any_decision_def)
qed

lemma consume_fair:
  assumes "fair sched"
  shows "decision (consumeDispatches (deliver outs (sched path (length outs)))) = any_decision (decision ` set outs)"
proof -
  obtain os where os: "deliver outs (sched path (length outs)) = map Arrive os" "mset os = mset outs"
    using assms by (rule deliver_fair)
  then show ?thesis using mset_eq_setD [OF os(2)] by (simp add: consumeDispatches_decision)
qed

lemma intersection_loop_returns: "\<exists>r. intersection_loop (length os) (map Arrive os) elErr = Some r"
proof (induction os arbitrary: elErr)
  case Nil
  then show ?case by (cases elErr) auto
next
  case (Cons x os)
  then show ?case by (cases x) auto
qed

lemma intersection_fair:
  assumes "fair sched"
  shows "\<exists>r. intersection None (length outs) (deliver outs (sched path (length outs))) = Some r \<and>
    (outs \<noteq> [] \<and> (\<forall>out\<in>set outs. coherent out \<and> decision out \<noteq> Denied) \<longrightarrow> decision r \<noteq> Denied)"
proof -
  obtain os where os: "deliver outs (sched path (length outs)) = map Arrive os" "mset os = mset outs"
    using assms by (rule deliver_fair)
  then have len: "length os = length outs" "set os = set outs" using mset_eq_length mset_eq_setD by blast+
  obtain r where r: "intersection_loop (length outs) (map Arrive os) None = Some r"
    using intersection_loop_returns [of os None] len by auto
  have "decision r \<noteq> Denied" if "\<forall>out\<in>set outs. coherent out \<and> decision out \<noteq> Denied"
    using intersection_loop_decision [of os None] that len r by (auto split: if_splits)
  with r show ?thesis by (auto simp: os(1) intersection_def)
qed

lemma exclusion_fair:
  assumes "fair sched"
  shows "\<exists>r. exclusion 2 (deliver_exclusion [b, s] (sched path 2)) = Some r"
proof -
  have "[0..<2] = [0, 1::nat]" by (simp add: upt_rec numeral_2_eq_2)
  then have "mset (sched path 2) = mset (map Ready [0, 1])"
    using assms unfolding fair_def by metis
  moreover obtain x y where "sched path 2 = [x, y]"
    using arg_cong [OF calculation, of size] by (auto simp: numeral_2_eq_2 length_Suc_conv)
  ultimately have "sched path 2 = [Ready 0, Ready 1] \<or> sched path 2 = [Ready 1, Ready 0]"
    by (auto simp: add_eq_conv_ex)
  then show ?thesis
    by (cases b; cases s) (auto simp: deliver_exclusion_def arrived_def exclusion_def numeral_2_eq_2)
qed

lemma any_decision_not_Denied: "any_decision D \<noteq> Denied \<longleftrightarrow> (\<exists>d\<in>D. d \<noteq> Denied)"
  by (auto simp: any_decision_def) (metis verdict.exhaust)

lemma decision_any:
  assumes "out \<in> set outs" and "decision out \<noteq> Denied"
  shows "any_decision (decision ` set outs) \<noteq> Denied"
  using assms unfolding any_decision_not_Denied by blast
section \<open>The engine returns\<close>

context checker
begin

definition returns_at :: "delegate \<Rightarrow> 32 word \<Rightarrow> bool" where
  "returns_at dl d \<longleftrightarrow>
     (\<forall>path req. good ck req \<and> same_scope req r0 \<and> rq_Depth req = d \<longrightarrow> (\<exists>out. dl path req = Some out))"

lemma dispatch_returns:
  assumes "returns_at dl (rq_Depth req + 1)" and "good ck req" and "same_scope req r0" and "wf_user v"
    and "SplitObjectRelation v = (ob, rel')"
  shows "\<exists>out. dispatch dl p req (NewTupleKey ob rel (tk_user (rq_TupleKey req))) = Some out"
  using assms(1,3) dispatched_good [OF assms(2,4,5)] unfolding returns_at_def dispatch_def
  by (simp add: same_scope_simps)

lemma checkUsersetSlowPath_returns:
  assumes "returns_at dl (rq_Depth req + 1)" and "good ck req" and "same_scope req r0"
    and "tk_relation (rq_TupleKey req) \<noteq> []" and "refs \<noteq> []" and "\<forall>ref\<in>set refs. rr_GetRelation ref \<noteq> []"
    and "ds_ReadUsersetTuples ds (rq_StoreID req)
      \<lparr>ruf_Object = tk_object (rq_TupleKey req), ruf_Relation = tk_relation (rq_TupleKey req),
       ruf_AllowedUserTypeRestrictions = refs\<rparr> = Inr s"
  shows "\<exists>out. checkUsersetSlowPath ck dl sched path req (NewFilteredIter s) = Some out"
proof -
  let ?tk = "rq_TupleKey req"
  from userset_read [OF assms(2-7)] obtain xs e st' where
    xs: "drain (filteredIter ck req) Live (NewFilteredIter s) = Some (xs, e, st')"
    and users: "tk_user ` set xs = {v. U (tk_object ?tk) (tk_relation ?tk) v \<and> IsObjectRelation v \<and>
        (\<exists>ref\<in>set refs. rr_type ref = GetType v \<and> rr_GetRelation ref = Tuples.GetRelation v)}"
    by (elim exE conjE)
  have "\<exists>out. dispatch dl p req k = Some out" if "MsgDispatch k \<in> set (userset_msgs t ?tk xs e)" for k p
  proof -
    from userset_msgs_dispatch [OF that] obtain v ob rel where
      v: "v \<in> set xs" "SplitObjectRelation (tk_user v) = (ob, rel)" "k = NewTupleKey ob rel (tk_user ?tk)"
      by blast
    from imageI [OF v(1), of tk_user] have "wf_user (tk_user v)" unfolding users using usable_wf by blast
    from dispatch_returns [OF assms(1-3) this v(2)] show ?thesis unfolding v(3) .
  qed
  from processDispatches_returns [OF this] obtain outs where
    "processDispatches dl path req 0 (userset_msgs t ?tk xs e) = Some outs" by blast
  with produceUsersetDispatches_drain [OF xs] show ?thesis
    by (simp add: checkUsersetSlowPath_def live)
qed

lemma checkTTUSlowPath_returns:
  assumes "returns_at dl (rq_Depth req + 1)" and "good ck req" and "same_scope req r0" and "ts \<noteq> []"
    and "ds_Read ds (rq_StoreID req) (NewTupleKey (tk_object (rq_TupleKey req)) ts []) = Inr s"
  shows "\<exists>out. checkTTUSlowPath ck dl sched path req c (NewFilteredIter s) = Some out"
proof -
  let ?tk = "rq_TupleKey req"
  from ttu_read [OF assms(2-5)] obtain xs e st' where
    xs: "drain (filteredIter ck req) Live (NewFilteredIter s) = Some (xs, e, st')"
    and users: "tk_user ` set xs = {v. U (tk_object ?tk) ts v}"
    by (elim exE conjE)
  have "\<exists>out. dispatch dl p req k = Some out" if "MsgDispatch k \<in> set (ttu_msgs t c ?tk xs e)" for k p
  proof -
    from ttu_msgs_dispatch [OF that] obtain v where
      v: "v \<in> set xs" "k = NewTupleKey (fst (SplitObjectRelation (tk_user v))) c (tk_user ?tk)"
      by blast
    from imageI [OF v(1), of tk_user] have "wf_user (tk_user v)" unfolding users using usable_wf by blast
    from dispatch_returns [OF assms(1-3) this prod.collapse [symmetric]] show ?thesis unfolding v(2) .
  qed
  from processDispatches_returns [OF this] obtain outs where
    "processDispatches dl path req 0 (ttu_msgs t c ?tk xs e) = Some outs" by blast
  with produceTTUDispatches_drain [OF xs] show ?thesis
    by (simp add: checkTTUSlowPath_def live)
qed

lemma checkDirect_returns:
  assumes "fair sched" and "returns_at dl (rq_Depth req + 1)" and "good ck req" and "same_scope req r0"
    and rel: "TypeSystem.GetRelation t (GetType (tk_object (rq_TupleKey req))) (tk_relation (rq_TupleKey req)) = Inr r"
  shows "\<exists>out. checkDirect ck dl sched path req = Some out"
proof -
  let ?refs = "filter (\<lambda>ref. rr_GetRelation ref \<noteq> []) (rel_types r)"
  have nonempty: "tk_relation (rq_TupleKey req) \<noteq> []" using defined_valid [OF rel] valid_nonempty by blast
  have refs: "DirectlyRelatedUsersets t (GetType (tk_object (rq_TupleKey req))) (tk_relation (rq_TupleKey req)) = Inr ?refs"
    using rel by (simp add: DirectlyRelatedUsersets_def GetDirectlyRelatedUserTypes_def)
  have public: "\<exists>out. checkPublicAssignable ck req = Some out"
    using checkPublicAssignable_result [OF assms(3,4) nonempty] by blast
  have userset: "\<exists>out. checkDirectUsersetTuples ck dl sched (0 # path) req ?refs = Some out" if "?refs \<noteq> []"
    using checkUsersetSlowPath_returns [OF assms(2-4) nonempty that]
    by (auto simp: no_fast_path(1) [OF assms(3)] split: sum.split)
  have "\<exists>outs. sequence
      ((if shouldCheckDirectTuple t (rq_TupleKey req) then [Some (checkDirectUserTuple ck req)] else []) @
       (if shouldCheckPublicAssignable t (rq_TupleKey req) then [checkPublicAssignable ck req] else []) @
       (if ?refs \<noteq> [] then [checkDirectUsersetTuples ck dl sched (0 # path) req ?refs] else [])) = Some outs"
    using public userset by auto
  then show ?thesis
    using union_fair [OF assms(1)]
    by (simp only: checkDirect_def Let_def live ctx_Err.simps option.case refs sum.case) fastforce
qed

lemma checkTTU_returns:
  assumes "returns_at dl (rq_Depth req + 1)" and "good ck req" and "same_scope req r0" and "ts \<noteq> []"
  shows "\<exists>out. checkTTU ck dl sched path req ts c = Some out"
  using checkTTUSlowPath_returns [OF assms]
  by (auto simp: no_fast_path(2) [OF assms(2)] split: sum.split)

end
context checker
begin

lemma ResolveCheck_unfold:
  assumes "rq_Depth req \<noteq> ck_maxResolutionDepth ck" and "TupleKeyToString (rq_TupleKey req) \<notin> set (rq_VisitedPaths req)"
    and "\<not> IsSelfDefining (rq_TupleKey req)"
    and "TypeSystem.GetRelation t (GetType (tk_object (rq_TupleKey req))) (tk_relation (rq_TupleKey req)) = Inr r"
    and "PathExists t (tk_user (rq_TupleKey req)) (tk_relation (rq_TupleKey req)) (GetType (tk_object (rq_TupleKey req))) = Inr True"
  shows "ResolveCheck ck dl sched path req =
    CheckRewrite ck dl sched path (req\<lparr>rq_VisitedPaths := TupleKeyToString (rq_TupleKey req) # rq_VisitedPaths req\<rparr>) (rel_rewrite r)"
  using assms by (simp add: ResolveCheck.simps [of ck] Let_def live GetType_def)

lemma ResolveCheck_returns_or:
  assumes "ResolveCheck ck dl sched path req = None"
  obtains r where "rq_Depth req \<noteq> ck_maxResolutionDepth ck"
    "TupleKeyToString (rq_TupleKey req) \<notin> set (rq_VisitedPaths req)" "\<not> IsSelfDefining (rq_TupleKey req)"
    "TypeSystem.GetRelation t (GetType (tk_object (rq_TupleKey req))) (tk_relation (rq_TupleKey req)) = Inr r"
    "PathExists t (tk_user (rq_TupleKey req)) (tk_relation (rq_TupleKey req)) (GetType (tk_object (rq_TupleKey req))) = Inr True"
proof -
  let ?tk = "rq_TupleKey req"
  note eq = assms [unfolded ResolveCheck.simps [of ck] Let_def live ctx_Err.simps option.case, folded GetType_def]
  have d: "rq_Depth req \<noteq> ck_maxResolutionDepth ck" using eq by (auto split: if_splits)
  then have v: "TupleKeyToString ?tk \<notin> set (rq_VisitedPaths req)" using eq by (auto split: if_splits)
  with d have s: "\<not> IsSelfDefining ?tk" using eq by (auto split: if_splits)
  show thesis
  proof (cases "TypeSystem.GetRelation t (GetType (tk_object ?tk)) (tk_relation ?tk)")
    case (Inl e)
    with eq d v s show ?thesis by simp
  next
    case (Inr r)
    then have "PathExists t (tk_user ?tk) (tk_relation ?tk) (GetType (tk_object ?tk)) = Inr True"
      using eq d v s by (cases "PathExists t (tk_user ?tk) (tk_relation ?tk) (GetType (tk_object ?tk))") (auto split: if_splits)
    with Inr d v s that show ?thesis by blast
  qed
qed

lemma CheckRewrite_returns:
  fixes ck' :: "('s, 'c) LocalChecker"
  shows "ck' = ck \<Longrightarrow> fair sched \<Longrightarrow> good ck req \<Longrightarrow> same_scope req r0 \<Longrightarrow>
      rq_Depth req \<noteq> ck_maxResolutionDepth ck \<Longrightarrow> returns_at dl (rq_Depth req + 1) \<Longrightarrow>
      \<exists>out. ResolveCheck ck' dl sched path req = Some out"
    and "ck' = ck \<Longrightarrow> fair sched \<Longrightarrow> good ck req \<Longrightarrow> same_scope req r0 \<Longrightarrow>
      rq_Depth req \<noteq> ck_maxResolutionDepth ck \<Longrightarrow> returns_at dl (rq_Depth req + 1) \<Longrightarrow>
      TypeSystem.GetRelation t (GetType (tk_object (rq_TupleKey req))) (tk_relation (rq_TupleKey req)) = Inr r \<Longrightarrow>
      wf_rewrite w \<Longrightarrow> \<exists>out. CheckRewrite ck' dl sched path req w = Some out"
    and "ck' = ck \<Longrightarrow> fair sched \<Longrightarrow> good ck req \<Longrightarrow> same_scope req r0 \<Longrightarrow>
      rq_Depth req \<noteq> ck_maxResolutionDepth ck \<Longrightarrow> returns_at dl (rq_Depth req + 1) \<Longrightarrow>
      TypeSystem.GetRelation t (GetType (tk_object (rq_TupleKey req))) (tk_relation (rq_TupleKey req)) = Inr r \<Longrightarrow>
      \<forall>w\<in>set us. wf_rewrite w \<Longrightarrow>
      \<exists>outs. CheckRewrites ck' dl sched path req i us = Some outs \<and> length outs = length us"
proof (induction ck' dl sched path req and ck' dl sched path req w and ck' dl sched path req i us
    arbitrary: and r and r rule: ResolveCheck_CheckRewrite_CheckRewrites.induct)
  case (1 ck' dl sched path req)
  note ck' = \<open>ck' = ck\<close>
  show ?case
  proof (cases "ResolveCheck ck' dl sched path req")
    case None
    with ck' obtain r where r: "rq_Depth req \<noteq> ck_maxResolutionDepth ck"
      "TupleKeyToString (rq_TupleKey req) \<notin> set (rq_VisitedPaths req)" "\<not> IsSelfDefining (rq_TupleKey req)"
      "TypeSystem.GetRelation t (GetType (tk_object (rq_TupleKey req))) (tk_relation (rq_TupleKey req)) = Inr r"
      "PathExists t (tk_user (rq_TupleKey req)) (tk_relation (rq_TupleKey req)) (GetType (tk_object (rq_TupleKey req))) = Inr True"
      using ResolveCheck_returns_or by blast
    have "\<exists>out. CheckRewrite ck' dl sched path
        (req\<lparr>rq_VisitedPaths := TupleKeyToString (rq_TupleKey req) # rq_VisitedPaths req\<rparr>) (rel_rewrite r) = Some out"
      by (rule 1(1) [OF refl refl refl refl, of r True r])
         (use 1(3-7) r relation_rewrite(1) in \<open>simp_all add: ck' live GetType_def\<close>)
    then show ?thesis unfolding ck' ResolveCheck_unfold [OF r] .
  qed simp
next
  case (2 ck' dl sched path req)
  then show ?case using checkDirect_returns by auto
next
  case (3 ck' dl sched path req rel)
  have "rq_Depth (computed_request req rel) = rq_Depth req" by (simp add: computed_request_def)
  with 3 show ?case by auto
next
  case (4 ck' dl sched path req ts c)
  then show ?case using checkTTU_returns by auto
next
  case (5 ck' dl sched path req us)
  then obtain outs where "CheckRewrites ck' dl sched path req 0 us = Some outs" by auto
  with union_fair [OF 5(3), of outs path] show ?case by auto
next
  case (6 ck' dl sched path req us)
  then obtain outs where "CheckRewrites ck' dl sched path req 0 us = Some outs" by auto
  with intersection_fair [OF 6(3), of outs path] show ?case by auto
next
  case (7 ck' dl sched path req base sub)
  then obtain outs where outs: "CheckRewrites ck' dl sched path req 0 [base, sub] = Some outs" "length outs = 2"
    by fastforce
  then obtain b s where "outs = [b, s]" by (auto simp: numeral_2_eq_2 length_Suc_conv)
  with outs exclusion_fair [OF 7(3), of b s path] show ?case by (simp add: numeral_2_eq_2)
next
  case (8 ck' dl sched path req)
  then show ?case by simp
next
  case (9 ck' dl sched path req i)
  then show ?case by simp
next
  case (10 ck' dl sched path req i u us)
  from 10(1) [OF 10(3-9)] 10(10) obtain out where out: "CheckRewrite ck' dl sched (i # path) req u = Some out" by auto
  with 10(2) [OF out 10(3-9)] 10(10) show ?case by auto
qed

lemma resolve_returns:
  assumes "fair sched"
  shows "good ck req \<Longrightarrow> same_scope req r0 \<Longrightarrow> unat (ck_maxResolutionDepth ck - rq_Depth req) < n \<Longrightarrow>
    \<exists>out. resolve n ck sched path req = Some out"
proof (induction n arbitrary: path req)
  case (Suc n)
  show ?case
  proof (cases "rq_Depth req = ck_maxResolutionDepth ck")
    case True
    then show ?thesis by (simp add: ResolveCheck.simps [of ck] live Let_def)
  next
    case False
    have "unat (ck_maxResolutionDepth ck - (rq_Depth req + 1)) < n"
    proof -
      have "ck_maxResolutionDepth ck - rq_Depth req \<noteq> 0" using False by simp
      then have "unat (ck_maxResolutionDepth ck - rq_Depth req - 1) < unat (ck_maxResolutionDepth ck - rq_Depth req)"
        by (simp add: unat_minus_one unat_gt_0)
      with Suc.prems(3) show ?thesis by (simp add: diff_diff_eq [symmetric])
    qed
    then have "returns_at (resolve n ck sched) (rq_Depth req + 1)"
      unfolding returns_at_def using Suc.IH by auto
    with CheckRewrite_returns(1) [OF refl assms Suc.prems(1,2) False] show ?thesis by simp
  qed
qed simp

end
section \<open>Paths between types\<close>

text \<open>
  Which kinds of users can reach a relation at all, by the rewrites and the type restrictions. A
  kind is the label of a node of the model graph: a type, a typed wildcard or a type and relation.
\<close>

definition ref_label :: "relation_reference \<Rightarrow> string" where
  "ref_label ref =
     (case rr_ref ref of
        NoRef \<Rightarrow> rr_type ref
      | WildcardRef \<Rightarrow> TypedPublicWildcard (rr_type ref)
      | RelationRef rel \<Rightarrow> ToObjectRelationString (rr_type ref) rel)"

inductive type_path :: "TypeSystem \<Rightarrow> string \<Rightarrow> string \<Rightarrow> string \<Rightarrow> bool" for t label where
  start: "TypeSystem.GetRelation t ot rel = Inr r \<Longrightarrow> label = ToObjectRelationString ot rel \<Longrightarrow> type_path t label ot rel"
| assigned: "TypeSystem.GetRelation t ot rel = Inr r \<Longrightarrow> This \<in> leaves (rel_rewrite r) \<Longrightarrow> ref \<in> set (rel_types r) \<Longrightarrow>
    label = ref_label ref \<Longrightarrow> type_path t label ot rel"
| userset: "TypeSystem.GetRelation t ot rel = Inr r \<Longrightarrow> This \<in> leaves (rel_rewrite r) \<Longrightarrow> ref \<in> set (rel_types r) \<Longrightarrow>
    rr_ref ref = RelationRef rel' \<Longrightarrow> type_path t label (rr_type ref) rel' \<Longrightarrow> type_path t label ot rel"
| computed: "TypeSystem.GetRelation t ot rel = Inr r \<Longrightarrow> ComputedUserset c \<in> leaves (rel_rewrite r) \<Longrightarrow>
    type_path t label ot c \<Longrightarrow> type_path t label ot rel"
| ttu: "TypeSystem.GetRelation t ot rel = Inr r \<Longrightarrow> TupleToUserset ts c \<in> leaves (rel_rewrite r) \<Longrightarrow>
    TypeSystem.GetRelation t ot ts = Inr r' \<Longrightarrow> ref \<in> set (rel_types r') \<Longrightarrow> type_path t label (rr_type ref) c \<Longrightarrow>
    type_path t label ot rel"

definition user_labels :: "string \<Rightarrow> string set" where
  "user_labels u = (if IsObjectRelation u then {ToObjectRelationString (GetType u) (Tuples.GetRelation u)}
                    else {GetType u, TypedPublicWildcard (GetType u)})"

text \<open>The relation of a userset is defined, as \<^verbatim>\<open>ValidateUser\<close> requires.\<close>

definition user_defined :: "TypeSystem \<Rightarrow> string \<Rightarrow> bool" where
  "user_defined t u \<longleftrightarrow> (IsObjectRelation u \<longrightarrow> (\<exists>r. TypeSystem.GetRelation t (GetType u) (Tuples.GetRelation u) = Inr r))"

text \<open>The model graph finds every path between types.\<close>

definition graph_complete :: "TypeSystem \<Rightarrow> bool" where
  "graph_complete t \<longleftrightarrow>
     (\<forall>label ot rel. type_path t label ot rel \<longrightarrow>
        ag_PathExists (ts_authorizationModelGraph t) label (ToObjectRelationString ot rel) = Inr True)"

lemma ref_label_admits:
  assumes "admits ref u"
  shows "ref_label ref \<in> user_labels u"
  using assms by (auto simp: admits_def ref_label_def user_labels_def split: if_splits)

lemma ToUserParts_wf:
  assumes "wf_user u"
  shows "\<exists>i. ToUserParts u = (GetType u, i, Tuples.GetRelation u)"
  using wf_user_split(2) [OF assms prod.collapse [symmetric]]
  by (auto simp: ToUserParts_def ToUserPartsFromObjectRelation_def Tuples.GetRelation_def GetType_def split_beta Let_def)

lemma PathExists_complete:
  assumes "graph_complete t" and "wf_user u" and "label \<in> user_labels u" and "type_path t label ot rel"
  shows "PathExists t u rel ot \<noteq> Inr False"
proof -
  have path: "ag_PathExists (ts_authorizationModelGraph t) label (ToObjectRelationString ot rel) = Inr True"
    using assms(1,4) by (simp add: graph_complete_def)
  obtain i where "ToUserParts u = (GetType u, i, Tuples.GetRelation u)" using ToUserParts_wf [OF assms(2)] by blast
  moreover have "IsObjectRelation u \<longleftrightarrow> Tuples.GetRelation u \<noteq> []"
    by (simp add: IsObjectRelation_def wf_user_type [OF assms(2)])
  ultimately show ?thesis
    using path assms(3) by (auto simp: PathExists_def user_labels_def Let_def split: sum.splits if_splits)
qed

context checker
begin

lemma member_type_path:
  assumes "wf_user u" and "user_defined t u"
  shows "member t U ob rel u' \<Longrightarrow> u' = u \<Longrightarrow> rel \<noteq> [] \<Longrightarrow> \<exists>label\<in>user_labels u. type_path t label (GetType ob) rel"
    and "satisfies t U w ob rel u' \<Longrightarrow> u' = u \<Longrightarrow> TypeSystem.GetRelation t (GetType ob) rel = Inr r \<Longrightarrow>
      wf_rewrite w \<Longrightarrow> leaves w \<subseteq> leaves (rel_rewrite r) \<Longrightarrow> \<exists>label\<in>user_labels u. type_path t label (GetType ob) rel"
proof (induction arbitrary: and r rule: member_satisfies.inducts)
  case (self u' ob rel)
  with assms wf_user_split(2,3) [of u ob rel] show ?case
    by (auto simp: user_labels_def user_defined_def Tuples.GetRelation_def intro: type_path.start)
next
  case (rewrite ob rel r u')
  then show ?case using relation_rewrite(1) by blast
next
  case (direct ob rel u')
  then obtain r' ref where "TypeSystem.GetRelation t (GetType ob) rel = Inr r'" "ref \<in> set (rel_types r')" "admits ref u"
    using usable_admitted by blast
  with direct ref_label_admits show ?case by (auto intro: type_path.assigned)
next
  case (everyone u' ob rel)
  then obtain r' ref where ref: "TypeSystem.GetRelation t (GetType ob) rel = Inr r'" "ref \<in> set (rel_types r')"
    "admits ref (TypedPublicWildcard (GetType u))"
    using usable_admitted by blast
  from ref(3) have "ref_label ref \<in> user_labels u"
    using everyone(1,3) TypedPublicWildcard_facts [OF assms(1)]
    by (auto simp: admits_def IsObjectRelation_def ref_label_def user_labels_def)
  with everyone ref show ?case by (auto intro: type_path.assigned)
next
  case (userset ob rel v ob' rel' u')
  then obtain r' ref where ref: "TypeSystem.GetRelation t (GetType ob) rel = Inr r'" "ref \<in> set (rel_types r')" "admits ref v"
    using usable_admitted by blast
  have "wf_user v" using usable_wf userset(1) by blast
  from wf_user_split(2,3) [OF this \<open>SplitObjectRelation v = (ob', rel')\<close>]
    \<open>SplitObjectRelation v = (ob', rel')\<close> \<open>rel' \<noteq> []\<close> ref(3)
  have "rr_ref ref = RelationRef rel'" "rr_type ref = GetType ob'"
    by (auto simp: admits_def Tuples.GetRelation_def)
  with userset ref type_path.userset [of t "GetType ob" rel r ref rel'] show ?case by auto
next
  case (computed ob c u' rel)
  then show ?case by (auto intro: type_path.computed)
next
  case (ttu ob ts v c r' u' rel)
  then obtain r'' ref where ref: "TypeSystem.GetRelation t (GetType ob) ts = Inr r''" "ref \<in> set (rel_types r'')" "admits ref v"
    using usable_admitted by blast
  have "wf_user v" using usable_wf ttu(1) by blast
  from wf_user_split(2) [OF this prod.collapse [symmetric]] ref(3)
  have "rr_type ref = GetType (fst (SplitObjectRelation v))" by (simp add: admits_def)
  moreover have "c \<noteq> []" using defined_valid [OF \<open>TypeSystem.GetRelation t (GetType (fst (SplitObjectRelation v))) c = Inr r'\<close>] valid_nonempty by blast
  ultimately show ?case using ttu ref type_path.ttu [of t "GetType ob" rel r ts c r'' ref] by auto
next
  case (union w us ob rel u')
  then show ?case by auto
next
  case (inter us ob rel u')
  then obtain w where w: "w \<in> set us" by (cases us) auto
  with inter have "wf_rewrite w" "leaves w \<subseteq> leaves (rel_rewrite r)" by auto
  with inter w show ?case by blast
qed

end
section \<open>Completeness\<close>

lemma satisfies_by_member:
  assumes "\<And>ob rel u. M ob rel u \<Longrightarrow> member t U ob rel u"
  shows "satisfies_by t U M w ob rel u \<Longrightarrow> satisfies t U w ob rel u"
proof (induction w)
  case This
  then show ?case unfolding satisfies_by.simps using assms by (blast intro: member_satisfies.intros(3-5) [where U = U])
next
  case (TupleToUserset ts c)
  then show ?case unfolding satisfies_by.simps using assms by (blast intro: member_satisfies.ttu [where U = U])
next
  case (Union us)
  then show ?case unfolding satisfies_by.simps by (blast intro: union)
next
  case (Intersection us)
  then show ?case unfolding satisfies_by.simps by (blast intro: inter)
qed (use assms in \<open>simp_all add: member_satisfies.computed\<close>)

lemma member_by_member: "member_by t U n ob rel u \<Longrightarrow> member t U ob rel u"
proof (induction n arbitrary: ob rel u)
  case (Suc n)
  from Suc.prems consider "SplitObjectRelation u = (ob, rel)"
    | r where "TypeSystem.GetRelation t (GetType ob) rel = Inr r"
        "satisfies_by t U (member_by t U n) (rel_rewrite r) ob rel u"
    unfolding member_by.simps by blast
  then show ?case
  proof cases
    case 1
    then show ?thesis by (rule self)
  next
    case 2
    from satisfies_by_member [OF Suc.IH 2(2)] show ?thesis by (rule rewrite [OF 2(1)])
  qed
qed simp

text \<open>A checker over a reader that stores one tuple per object, relation and user.\<close>

locale complete_checker = checker ds contents invar stored ck r0
  for ds :: "'s RelationshipTupleReader" and contents invar stored
    and ck :: "('s, 'c) LocalChecker" and r0 +
  assumes unique: "k \<in> stored (rq_StoreID r0) \<Longrightarrow> k' \<in> stored (rq_StoreID r0) \<Longrightarrow> same_id k k' \<Longrightarrow> k = k'"
    and graph: "graph_complete (ck_typesys ck)"
begin

lemma checkDirectUserTuple_complete:
  assumes "good ck req" and "same_scope req r0" and "tk_relation (rq_TupleKey req) \<noteq> []"
    and "U (tk_object (rq_TupleKey req)) (tk_relation (rq_TupleKey req)) (tk_user (rq_TupleKey req))"
  shows "decision (checkDirectUserTuple ck req) \<noteq> Denied"
proof -
  let ?tk = "rq_TupleKey req"
  from assms(4) obtain k where k: "k \<in> stored (rq_StoreID req)" "same_id k ?tk" "tuple_filter ck k"
    "condition_filter ck req k = Inr True"
    using assms(2) by (auto simp: usable_def same_id_def same_scope_def condition_filter_scope [OF assms(2)])
  have valid: "IsValidObject (tk_object ?tk)" "wf_user (tk_user ?tk)"
    using assms(1) by (auto simp: good_def)
  show ?thesis
  proof (cases "ds_ReadUserTuple ds (rq_StoreID req) ?tk")
    case (Inl e)
    then have "\<not> errors_Is e ErrNotFound" using missing_law [OF valid(1) assms(3) valid(2) Inl] k(1,2) by blast
    with Inl show ?thesis by (simp add: checkDirectUserTuple_def reader)
  next
    case (Inr tup)
    from user_law [OF valid(1) assms(3) valid(2) Inr] have tup: "t_key tup \<in> stored (rq_StoreID req)" "same_id (t_key tup) ?tk"
      by simp_all
    have "t_key tup = k"
      by (rule unique) (use tup k(1,2) assms(2) in \<open>simp_all add: same_id_def same_scope_def\<close>)
    with Inr k show ?thesis by (simp add: checkDirectUserTuple_def reader)
  qed
qed

text \<open>Which of the checks runs for a tuple that grants access.\<close>

lemma direct_or_public:
  assumes rel: "TypeSystem.GetRelation t (GetType (tk_object tk)) (tk_relation tk) = Inr r" and "wf_user (tk_user tk)"
    and "U (tk_object tk) (tk_relation tk) (tk_user tk)"
  shows "shouldCheckDirectTuple t tk \<or>
    (shouldCheckPublicAssignable t tk \<and> U (tk_object tk) (tk_relation tk) (TypedPublicWildcard (GetType (tk_user tk))))"
proof -
  let ?u = "tk_user tk"
  from assms(3) rel obtain ref where ref: "ref \<in> set (rel_types r)" "admits ref ?u"
    by (auto elim: usable_admitted)
  have nonempty: "tk_relation tk \<noteq> []" using defined_valid [OF rel] valid_nonempty by blast
  have obj: "IsObjectRelation ?u \<longleftrightarrow> Tuples.GetRelation ?u \<noteq> []"
    by (simp add: IsObjectRelation_def wf_user_type [OF assms(2)])
  show ?thesis
  proof (cases "IsObjectRelation ?u \<or> \<not> IsTypedWildcard ?u")
    case True
    then have "RelationEquals (DirectRelationReference (GetType ?u) (Tuples.GetRelation ?u)) ref"
      using ref(2) obj by (auto simp: admits_def RelationEquals_def DirectRelationReference_def rr_GetRelation_def split: if_splits)
    with ref(1) rel nonempty show ?thesis
      by (auto simp: shouldCheckDirectTuple_def IsDirectlyRelated_def rr_GetRelation_def
          DirectRelationReference_def [of _ "tk_relation tk"])
  next
    case False
    then have "rr_type ref = GetType ?u" "rr_ref ref = WildcardRef" using ref(2) by (simp_all add: admits_def)
    then have "List.find (\<lambda>ref. rr_type ref = GetType ?u \<and> rr_GetWildcard ref) (rel_types r) \<noteq> None"
      using ref(1) by (auto simp: find_None_iff rr_GetWildcard_def)
    then have "shouldCheckPublicAssignable t tk"
      using False rel nonempty
      by (simp add: shouldCheckPublicAssignable_def IsPubliclyAssignable_def PubliclyAssignableReferences_def
          DirectRelationReference_def rr_GetRelation_def)
    moreover have "?u = TypedPublicWildcard (GetType ?u)"
      using False obj by (intro wf_user_wildcard [OF assms(2)]) (auto simp: GetUserTypeFromUser_def IsWildcard_def)
    ultimately show ?thesis using assms(3) by metis
  qed
qed

lemma public_restriction:
  assumes rel: "TypeSystem.GetRelation t (GetType (tk_object tk)) (tk_relation tk) = Inr r" and "wf_user (tk_user tk)"
    and "\<not> IsObjectRelation (tk_user tk)"
    and "U (tk_object tk) (tk_relation tk) (TypedPublicWildcard (GetType (tk_user tk)))"
  shows "shouldCheckPublicAssignable t tk"
proof -
  let ?u = "tk_user tk"
  from assms(4) rel obtain ref where ref: "ref \<in> set (rel_types r)" "admits ref (TypedPublicWildcard (GetType ?u))"
    by (auto elim: usable_admitted)
  have nonempty: "tk_relation tk \<noteq> []" using defined_valid [OF rel] valid_nonempty by blast
  from ref(2) have "rr_type ref = GetType ?u" "rr_ref ref = WildcardRef"
    using TypedPublicWildcard_facts [OF assms(2)] by (auto simp: admits_def IsObjectRelation_def)
  then have "List.find (\<lambda>ref. rr_type ref = GetType ?u \<and> rr_GetWildcard ref) (rel_types r) \<noteq> None"
    using ref(1) by (auto simp: find_None_iff rr_GetWildcard_def)
  then show ?thesis
    using assms(3) rel nonempty
    by (simp add: shouldCheckPublicAssignable_def IsPubliclyAssignable_def PubliclyAssignableReferences_def
        DirectRelationReference_def rr_GetRelation_def)
qed

end
context complete_checker
begin

definition asks :: "nat \<Rightarrow> ResolveCheckRequest \<Rightarrow> bool" where
  "asks n req \<longleftrightarrow>
     member_by t U n (tk_object (rq_TupleKey req)) (tk_relation (rq_TupleKey req)) (tk_user (rq_TupleKey req))"

text \<open>The checks that have been visited on the way have no derivation of this height.\<close>

definition visited_ok :: "nat \<Rightarrow> ResolveCheckRequest \<Rightarrow> bool" where
  "visited_ok n req \<longleftrightarrow> (\<forall>s\<in>set (rq_VisitedPaths req). \<exists>tk. s = TupleKeyToString (tk :: tuple_key) \<and>
     IsValidObject (tk_object tk) \<and> IsValidRelation (tk_relation tk) \<and>
     \<not> member_by t U n (tk_object tk) (tk_relation tk) (tk_user tk))"

definition admissible :: "nat \<Rightarrow> ResolveCheckRequest \<Rightarrow> bool" where
  "admissible n req \<longleftrightarrow> good ck req \<and> same_scope req r0 \<and> user_defined t (tk_user (rq_TupleKey req)) \<and> visited_ok n req"

definition complete_at :: "nat \<Rightarrow> delegate \<Rightarrow> bool" where
  "complete_at n dl \<longleftrightarrow>
     (\<forall>path req out. admissible n req \<and> asks n req \<and> dl path req = Some out \<longrightarrow> decision out \<noteq> Denied)"

lemma visited_ok_mono: "visited_ok (Suc n) req \<Longrightarrow> visited_ok n req"
  unfolding visited_ok_def using member_by_Suc by blast

lemma dispatched_complete:
  assumes "complete_at n dl" and "admissible n req" and "wf_user v" and "SplitObjectRelation v = (ob, rel')"
    and "member_by t U n ob rel (tk_user (rq_TupleKey req))"
    and "dispatch dl p req (NewTupleKey ob rel (tk_user (rq_TupleKey req))) = Some out"
  shows "decision out \<noteq> Denied"
proof -
  let ?req = "req\<lparr>rq_TupleKey := NewTupleKey ob rel (tk_user (rq_TupleKey req)), rq_Depth := rq_Depth req + 1\<rparr>"
  have "admissible n ?req"
    using assms(2) dispatched_good [OF _ assms(3,4), of req]
    by (simp add: admissible_def visited_ok_def) (simp add: NewTupleKey_def)
  moreover have "asks n ?req" using assms(5) by (simp add: asks_def NewTupleKey_def)
  ultimately show ?thesis using assms(1,6) unfolding complete_at_def dispatch_def by blast
qed

lemma checkUsersetSlowPath_complete:
  assumes "fair sched" and "complete_at n dl" and "admissible n req"
    and "tk_relation (rq_TupleKey req) \<noteq> []" and "refs \<noteq> []" and "\<forall>ref\<in>set refs. rr_GetRelation ref \<noteq> []"
    and "ds_ReadUsersetTuples ds (rq_StoreID req)
      \<lparr>ruf_Object = tk_object (rq_TupleKey req), ruf_Relation = tk_relation (rq_TupleKey req),
       ruf_AllowedUserTypeRestrictions = refs\<rparr> = Inr s"
    and "checkUsersetSlowPath ck dl sched path req (NewFilteredIter s) = Some out"
    and v: "U (tk_object (rq_TupleKey req)) (tk_relation (rq_TupleKey req)) v" "IsObjectRelation v"
      "ref \<in> set refs" "rr_type ref = GetType v" "rr_GetRelation ref = Tuples.GetRelation v"
    and sp: "SplitObjectRelation v = (ob, rel)" "member_by t U n ob rel (tk_user (rq_TupleKey req))"
  shows "decision out \<noteq> Denied"
proof -
  let ?tk = "rq_TupleKey req"
  have req: "good ck req" "same_scope req r0" using assms(3) by (simp_all add: admissible_def)
  from userset_read [OF req assms(4-7)] obtain xs e st' where
    xs: "drain (filteredIter ck req) Live (NewFilteredIter s) = Some (xs, e, st')"
    and users: "tk_user ` set xs = {v. U (tk_object ?tk) (tk_relation ?tk) v \<and> IsObjectRelation v \<and>
        (\<exists>ref\<in>set refs. rr_type ref = GetType v \<and> rr_GetRelation ref = Tuples.GetRelation v)}"
    by (elim exE conjE)
  from produceUsersetDispatches_drain [OF xs] assms(8) live obtain outs where
    outs: "processDispatches dl path req 0 (userset_msgs t ?tk xs e) = Some outs"
      "out = consumeDispatches (deliver outs (sched path (length outs)))"
    by (auto simp: checkUsersetSlowPath_def split: option.splits)
  from v have "v \<in> tk_user ` set xs" unfolding users by blast
  then obtain k where k: "k \<in> set xs" "tk_user k = v" by blast
  have wf: "wf_user v" using usable_wf [OF v(1)] by blast
  have "rel \<noteq> []" using wf_user_split(3) [OF wf sp(1)] v(2) by blast
  have "\<exists>o'\<in>set outs. decision o' \<noteq> Denied"
    using userset_msgs_covers [OF k(1) sp(1) [folded k(2)] \<open>rel \<noteq> []\<close>, of t ?tk e]
  proof
    assume "MsgShortCircuit \<in> set (userset_msgs t ?tk xs e)"
    from processDispatches_short [OF outs(1) this] show ?thesis by (rule rev_bexI) simp
  next
    assume "MsgDispatch (NewTupleKey ob rel (tk_user ?tk)) \<in> set (userset_msgs t ?tk xs e)"
    from processDispatches_covers [OF outs(1) this] show ?thesis
      using dispatched_complete [OF assms(2,3) wf sp] by (auto intro: rev_bexI)
  qed
  then show ?thesis
    unfolding outs(2) consume_fair [OF assms(1)] by (blast dest: decision_any)
qed

lemma checkTTUSlowPath_complete:
  assumes "fair sched" and "complete_at n dl" and "admissible n req" and "ts \<noteq> []"
    and "ds_Read ds (rq_StoreID req) (NewTupleKey (tk_object (rq_TupleKey req)) ts []) = Inr s"
    and "checkTTUSlowPath ck dl sched path req c (NewFilteredIter s) = Some out"
    and v: "U (tk_object (rq_TupleKey req)) ts v"
      "TypeSystem.GetRelation t (GetType (fst (SplitObjectRelation v))) c = Inr r"
      "member_by t U n (fst (SplitObjectRelation v)) c (tk_user (rq_TupleKey req))"
  shows "decision out \<noteq> Denied"
proof -
  let ?tk = "rq_TupleKey req"
  have req: "good ck req" "same_scope req r0" using assms(3) by (simp_all add: admissible_def)
  from ttu_read [OF req assms(4,5)] obtain xs e st' where
    xs: "drain (filteredIter ck req) Live (NewFilteredIter s) = Some (xs, e, st')"
    and users: "tk_user ` set xs = {v. U (tk_object ?tk) ts v}"
    by (elim exE conjE)
  from produceTTUDispatches_drain [OF xs] assms(6) live obtain outs where
    outs: "processDispatches dl path req 0 (ttu_msgs t c ?tk xs e) = Some outs"
      "out = consumeDispatches (deliver outs (sched path (length outs)))"
    by (auto simp: checkTTUSlowPath_def split: option.splits)
  from v have "v \<in> tk_user ` set xs" unfolding users by blast
  then obtain k where k: "k \<in> set xs" "tk_user k = v" by blast
  have wf: "wf_user v" using usable_wf [OF v(1)] by blast
  from ttu_msgs_covers [OF k(1) v(2) [folded k(2)], of ?tk e]
  have "MsgDispatch (NewTupleKey (fst (SplitObjectRelation v)) c (tk_user ?tk)) \<in> set (ttu_msgs t c ?tk xs e)"
    unfolding k(2) .
  from processDispatches_covers [OF outs(1) this] have "\<exists>o'\<in>set outs. decision o' \<noteq> Denied"
    using dispatched_complete [OF assms(2,3) wf prod.collapse [symmetric] v(3)] by (auto intro: rev_bexI)
  then show ?thesis
    unfolding outs(2) consume_fair [OF assms(1)] by (blast dest: decision_any)
qed

end
context complete_checker
begin

lemma checkDirect_complete:
  assumes "fair sched" and "complete_at n dl" and "admissible n req"
    and rel: "TypeSystem.GetRelation t (GetType (tk_object (rq_TupleKey req))) (tk_relation (rq_TupleKey req)) = Inr r"
    and "checkDirect ck dl sched path req = Some out"
    and "satisfies_by t U (member_by t U n) This
      (tk_object (rq_TupleKey req)) (tk_relation (rq_TupleKey req)) (tk_user (rq_TupleKey req))"
  shows "decision out \<noteq> Denied"
proof -
  let ?tk = "rq_TupleKey req"
  let ?refs = "filter (\<lambda>ref. rr_GetRelation ref \<noteq> []) (rel_types r)"
  have req: "good ck req" "same_scope req r0" and wf: "wf_user (tk_user ?tk)"
    using assms(3) by (simp_all add: admissible_def good_def)
  have nonempty: "tk_relation ?tk \<noteq> []" using defined_valid [OF rel] valid_nonempty by blast
  obtain outs where outs: "union_reducer None (length outs) (deliver outs (sched path (length outs))) = Some out"
    and all: "map Some outs =
      (if shouldCheckDirectTuple t ?tk then [Some (checkDirectUserTuple ck req)] else []) @
      (if shouldCheckPublicAssignable t ?tk then [checkPublicAssignable ck req] else []) @
      (if ?refs \<noteq> [] then [checkDirectUsersetTuples ck dl sched (0 # path) req ?refs] else [])"
    using rel assms(5) by (rule checkDirect_outs)
  have in_outs: "o' \<in> set outs" if "Some o' \<in> set (map Some outs)" for o' using that by auto
  have public: "\<exists>o'\<in>set outs. decision o' \<noteq> Denied"
    if p: "shouldCheckPublicAssignable t ?tk"
      "U (tk_object ?tk) (tk_relation ?tk) (TypedPublicWildcard (GetType (tk_user ?tk)))"
  proof -
    from checkPublicAssignable_result [OF req nonempty] obtain o' where o': "checkPublicAssignable ck req = Some o'"
      "decision o' = Denied \<Longrightarrow> \<not> U (tk_object ?tk) (tk_relation ?tk) (TypedPublicWildcard (GetType (tk_user ?tk)))"
      by force
    have "Some o' \<in> set (map Some outs)" unfolding all using p(1) o'(1) by simp
    with in_outs o'(2) p(2) show ?thesis by blast
  qed
  from assms(6) consider "U (tk_object ?tk) (tk_relation ?tk) (tk_user ?tk)"
    | "\<not> IsObjectRelation (tk_user ?tk)" "U (tk_object ?tk) (tk_relation ?tk) (TypedPublicWildcard (GetType (tk_user ?tk)))"
    | v ob' rel' where "U (tk_object ?tk) (tk_relation ?tk) v" "SplitObjectRelation v = (ob', rel')" "rel' \<noteq> []"
        "member_by t U n ob' rel' (tk_user ?tk)"
    unfolding satisfies_by.simps by blast
  then have "\<exists>o'\<in>set outs. decision o' \<noteq> Denied"
  proof cases
    case 1
    from direct_or_public [OF rel wf 1] show ?thesis
    proof
      assume "shouldCheckDirectTuple t ?tk"
      then have "Some (checkDirectUserTuple ck req) \<in> set (map Some outs)" unfolding all by simp
      with in_outs checkDirectUserTuple_complete [OF req nonempty 1] show ?thesis by blast
    qed (use public in blast)
  next
    case 2
    from public_restriction [OF rel wf 2] 2(2) show ?thesis by (rule public)
  next
    case (3 v ob' rel')
    have v: "wf_user v" using usable_wf [OF 3(1)] by blast
    from 3(1) rel obtain ref where ref: "ref \<in> set (rel_types r)" "admits ref v" by (auto elim: usable_admitted)
    have "IsObjectRelation v" "Tuples.GetRelation v = rel'"
      using wf_user_split(3) [OF v 3(2)] 3(2,3) by (simp_all add: Tuples.GetRelation_def)
    with ref(2) have r: "rr_type ref = GetType v" "rr_GetRelation ref = Tuples.GetRelation v"
      by (simp_all add: admits_def rr_GetRelation_def)
    with ref(1) \<open>Tuples.GetRelation v = rel'\<close> 3(3) have mem: "ref \<in> set ?refs" by simp
    then have "?refs \<noteq> []" by (metis empty_iff list.set(1))
    then have "checkDirectUsersetTuples ck dl sched (0 # path) req ?refs \<in> set (map Some outs)" unfolding all by simp
    then obtain o' where o': "checkDirectUsersetTuples ck dl sched (0 # path) req ?refs = Some o'" "o' \<in> set outs" by auto
    have "decision o' \<noteq> Denied"
    proof (cases "ds_ReadUsersetTuples ds (rq_StoreID req)
        \<lparr>ruf_Object = tk_object ?tk, ruf_Relation = tk_relation ?tk, ruf_AllowedUserTypeRestrictions = ?refs\<rparr>")
      case (Inl e)
      with o'(1) show ?thesis by (auto simp: no_fast_path(1) [OF req(1)])
    next
      case (Inr s)
      with o'(1) have "checkUsersetSlowPath ck dl sched (0 # path) req (NewFilteredIter s) = Some o'"
        by (simp add: no_fast_path(1) [OF req(1)])
      from checkUsersetSlowPath_complete [OF assms(1-3) nonempty \<open>?refs \<noteq> []\<close> _ Inr this 3(1)
          \<open>IsObjectRelation v\<close> mem r 3(2,4)]
      show ?thesis by simp
    qed
    with o'(2) show ?thesis by blast
  qed
  with union_fair [OF assms(1), of outs path] outs show ?thesis by (auto dest: decision_any)
qed

lemma checkTTU_complete:
  assumes "fair sched" and "complete_at n dl" and "admissible n req" and "ts \<noteq> []"
    and "checkTTU ck dl sched path req ts c = Some out"
    and "satisfies_by t U (member_by t U n) (TupleToUserset ts c)
      (tk_object (rq_TupleKey req)) (tk_relation (rq_TupleKey req)) (tk_user (rq_TupleKey req))"
  shows "decision out \<noteq> Denied"
proof -
  have req: "good ck req" using assms(3) by (simp add: admissible_def)
  from assms(6) obtain v r where v: "U (tk_object (rq_TupleKey req)) ts v"
      "TypeSystem.GetRelation t (GetType (fst (SplitObjectRelation v))) c = Inr r"
      "member_by t U n (fst (SplitObjectRelation v)) c (tk_user (rq_TupleKey req))"
    unfolding satisfies_by.simps by blast
  show ?thesis
  proof (cases "ds_Read ds (rq_StoreID req) (NewTupleKey (tk_object (rq_TupleKey req)) ts [])")
    case (Inl e)
    with assms(5) show ?thesis by (auto simp: no_fast_path(2) [OF req])
  next
    case (Inr s)
    with assms(5) have "checkTTUSlowPath ck dl sched path req c (NewFilteredIter s) = Some out"
      by (simp add: no_fast_path(2) [OF req])
    from checkTTUSlowPath_complete [OF assms(1-4) Inr this v] show ?thesis .
  qed
qed

lemma CheckRewrites_nth:
  "CheckRewrites ck dl sched path req i us = Some outs \<Longrightarrow>
     list_all2 (\<lambda>w out. \<exists>p. CheckRewrite ck dl sched p req w = Some out) us outs"
  by (induction us arbitrary: i outs) (auto split: option.splits)

lemma CheckRewrite_complete:
  assumes "fair sched" and "answers dl" and "complete_at n dl" and "complete_at n (ResolveCheck ck dl sched)"
    and "admissible n req"
    and rel: "TypeSystem.GetRelation t (GetType (tk_object (rq_TupleKey req))) (tk_relation (rq_TupleKey req)) = Inr r"
  shows "wf_rewrite w \<Longrightarrow> CheckRewrite ck dl sched path req w = Some out \<Longrightarrow>
    satisfies_by t U (member_by t U n) w
      (tk_object (rq_TupleKey req)) (tk_relation (rq_TupleKey req)) (tk_user (rq_TupleKey req)) \<Longrightarrow>
    decision out \<noteq> Denied"
proof (induction w arbitrary: path out)
  case This
  with checkDirect_complete [OF assms(1,3,5) rel] show ?case by simp
next
  case (ComputedUserset c)
  then have "ResolveCheck ck dl sched (0 # path) (computed_request req c) = Some out"
    "asks n (computed_request req c)"
    by (simp_all add: asks_def computed_request_def NewTupleKey_def)
  moreover have "admissible n (computed_request req c)"
    using assms(5) by (simp add: admissible_def visited_ok_def) (simp add: computed_request_def NewTupleKey_def)
  ultimately show ?case using assms(4) unfolding complete_at_def by blast
next
  case (TupleToUserset ts c)
  with checkTTU_complete [OF assms(1,3,5)] show ?case by simp
next
  case (Union us)
  from Union.prems(2) obtain outs where outs: "CheckRewrites ck dl sched path req 0 us = Some outs"
    "union_reducer None (length outs) (deliver outs (sched path (length outs))) = Some out"
    by (auto split: option.splits)
  from Union.prems(3) obtain w where w: "w \<in> set us" "satisfies_by t U (member_by t U n) w
      (tk_object (rq_TupleKey req)) (tk_relation (rq_TupleKey req)) (tk_user (rq_TupleKey req))"
    by auto
  from list_all2_left [OF CheckRewrites_nth [OF outs(1)] w(1)] obtain o' p where
    "o' \<in> set outs" "CheckRewrite ck dl sched p req w = Some o'" by blast
  with Union.IH [OF w(1) _ _ w(2)] Union.prems(1) w(1) have "\<exists>o'\<in>set outs. decision o' \<noteq> Denied" by auto
  with union_fair [OF assms(1), of outs path] outs(2) show ?case by (auto dest: decision_any)
next
  case (Intersection us)
  from Intersection.prems(2) obtain outs where outs: "CheckRewrites ck dl sched path req 0 us = Some outs"
    "intersection None (length outs) (deliver outs (sched path (length outs))) = Some out"
    by (auto split: option.splits)
  have "us \<noteq> []" using Intersection.prems(3) by simp
  with list_all2_lengthD [OF CheckRewrites_nth [OF outs(1)]] have "outs \<noteq> []" by auto
  have coherent: "coherent o'" if o': "o' \<in> set outs" for o'
  proof -
    have "list_all2 (\<lambda>w out. justified (asked_rewrite req w) out) us outs"
      using assms(5) Intersection.prems(1)
      by (intro CheckRewrite_sound(3) [OF refl assms(2) fair_orderly [OF assms(1)] _ _ rel _ outs(1)])
         (simp_all add: admissible_def)
    from list_all2_right [OF this o'] show ?thesis by (auto simp: justified_def)
  qed
  have "decision o' \<noteq> Denied" if o': "o' \<in> set outs" for o'
  proof -
    from list_all2_right [OF CheckRewrites_nth [OF outs(1)] o'] obtain w p where
      "w \<in> set us" "CheckRewrite ck dl sched p req w = Some o'" by blast
    with Intersection show ?thesis by auto
  qed
  with intersection_fair [OF assms(1), of outs path] coherent outs(2) \<open>outs \<noteq> []\<close> show ?case by auto
qed simp_all

end
context checker
begin

lemma resolve_answers:
  assumes "orderly sched"
  shows "answers (resolve n ck sched)"
proof (induction n)
  case 0
  show ?case by (simp add: answers_def)
next
  case (Suc n)
  then show ?case
    using CheckRewrite_sound(1) [OF refl Suc assms] unfolding answers_def resolve.simps by blast
qed

end

context complete_checker
begin

lemma asks_defined:
  assumes "asks n req" and "good ck req" and "user_defined t (tk_user (rq_TupleKey req))"
  shows "CHR ''@'' \<notin> set (tk_relation (rq_TupleKey req))"
proof (cases "tk_relation (rq_TupleKey req) = []")
  case False
  let ?tk = "rq_TupleKey req"
  from assms(1) obtain m where "n = Suc m" by (cases n) (simp_all add: asks_def)
  with assms(1) consider "SplitObjectRelation (tk_user ?tk) = (tk_object ?tk, tk_relation ?tk)"
    | r where "TypeSystem.GetRelation t (GetType (tk_object ?tk)) (tk_relation ?tk) = Inr r"
    by (auto simp: asks_def)
  then show ?thesis
  proof cases
    case 1
    from wf_user_split(3) [OF _ 1] assms(2,3) False 1
    have "\<exists>r. TypeSystem.GetRelation t (GetType (tk_user ?tk)) (tk_relation ?tk) = Inr r"
      by (auto simp: good_def user_defined_def Tuples.GetRelation_def)
    then show ?thesis using defined_valid IsValidRelation_no_at by blast
  next
    case 2
    then show ?thesis using defined_valid IsValidRelation_no_at by blast
  qed
qed simp

lemma not_visited:
  assumes "asks n req" and "admissible n req"
  shows "TupleKeyToString (rq_TupleKey req) \<notin> set (rq_VisitedPaths req)"
proof
  let ?tk = "rq_TupleKey req"
  assume "TupleKeyToString ?tk \<in> set (rq_VisitedPaths req)"
  then obtain tk :: tuple_key where tk: "TupleKeyToString ?tk = TupleKeyToString tk" "IsValidObject (tk_object tk)"
    "IsValidRelation (tk_relation tk)" "\<not> member_by t U n (tk_object tk) (tk_relation tk) (tk_user tk)"
    using assms(2) unfolding admissible_def visited_ok_def by blast
  have "IsValidObject (tk_object ?tk)" using assms(2) by (simp add: admissible_def good_def)
  moreover have "CHR ''@'' \<notin> set (tk_relation ?tk)"
    using asks_defined assms by (simp add: admissible_def)
  ultimately have
    "tk_object ?tk = tk_object tk \<and> tk_relation ?tk = tk_relation tk \<and> tk_user ?tk = tk_user tk"
    using TupleKeyToString_inject [OF tk(1)] tk(2,3) by (simp add: IsValidObject_no_hash IsValidRelation_no_at)
  with tk(4) assms(1) show False by (simp add: asks_def)
qed

lemma path_exists:
  assumes "asks n req" and "admissible n req" and "tk_relation (rq_TupleKey req) \<noteq> []"
  shows "PathExists t (tk_user (rq_TupleKey req)) (tk_relation (rq_TupleKey req)) (GetType (tk_object (rq_TupleKey req))) \<noteq> Inr False"
proof -
  let ?tk = "rq_TupleKey req"
  have u: "wf_user (tk_user ?tk)" "user_defined t (tk_user ?tk)"
    using assms(2) by (simp_all add: admissible_def good_def)
  from member_by_member [OF assms(1) [unfolded asks_def]] assms(3)
  obtain label where "label \<in> user_labels (tk_user ?tk)" "type_path t label (GetType (tk_object ?tk)) (tk_relation ?tk)"
    using member_type_path(1) [OF u] by blast
  then show ?thesis by (rule PathExists_complete [OF graph u(1)])
qed

lemma resolve_complete_step:
  assumes "fair sched" and IH: "\<And>m. complete_at n (resolve m ck sched)"
    and "asks (Suc n) req" and "\<not> asks n req" and "admissible (Suc n) req" and "resolve m ck sched path req = Some out"
  shows "decision out \<noteq> Denied"
proof -
  let ?tk = "rq_TupleKey req"
  obtain m' where m: "m = Suc m'" using assms(6) by (cases m) simp_all
  let ?dl = "resolve m' ck sched"
  have adm: "good ck req" "same_scope req r0" "user_defined t (tk_user ?tk)" "visited_ok (Suc n) req"
    using assms(5) by (simp_all add: admissible_def)
  from assms(6) have "ResolveCheck ck ?dl sched path req = Some out" by (simp add: m)
  then show ?thesis
  proof (cases rule: ResolveCheck_cases)
    case cycle
    with not_visited [OF assms(3,5)] show ?thesis by blast
  next
    case (unreachable r)
    have "tk_relation ?tk \<noteq> []" using defined_valid [OF unreachable(3)] valid_nonempty by blast
    with path_exists [OF assms(3,5)] unreachable(4) show ?thesis by blast
  next
    case (rewrite r)
    let ?req = "req\<lparr>rq_VisitedPaths := TupleKeyToString ?tk # rq_VisitedPaths req\<rparr>"
    have "IsValidRelation (tk_relation ?tk)" using defined_valid [OF rewrite(3)] .
    then have "visited_ok n ?req"
      using visited_ok_mono [OF adm(4)] assms(4) adm(1) by (auto simp: visited_ok_def asks_def good_def)
    then have "admissible n ?req" using adm by (simp add: admissible_def)
    moreover have "satisfies_by t U (member_by t U n) (rel_rewrite r) (tk_object ?tk) (tk_relation ?tk) (tk_user ?tk)"
      using assms(3) rewrite(2,3) by (auto simp: asks_def IsSelfDefining_def)
    moreover have "complete_at n (ResolveCheck ck ?dl sched)"
      using IH [of "Suc m'"] by (simp add: complete_at_def)
    ultimately show ?thesis
      using rewrite(3)
      by (intro CheckRewrite_complete [OF assms(1) resolve_answers [OF fair_orderly [OF assms(1)]] IH _ _ _
            relation_rewrite(1) [OF rewrite(3)] rewrite(6)]) simp_all
  qed auto
qed

lemma resolve_complete:
  assumes "fair sched"
  shows "complete_at n (resolve m ck sched)"
proof (induction n arbitrary: m)
  case 0
  show ?case by (simp add: complete_at_def asks_def)
next
  case (Suc n)
  have "decision out \<noteq> Denied"
    if r: "admissible (Suc n) req" "asks (Suc n) req" "resolve m ck sched path req = Some out" for path req out
  proof (cases "asks n req")
    case True
    moreover have "admissible n req" using r(1) visited_ok_mono by (simp add: admissible_def)
    ultimately show ?thesis using Suc r(3) unfolding complete_at_def by blast
  next
    case False
    show ?thesis by (rule resolve_complete_step [OF assms Suc r(2) False r(1,3)])
  qed
  then show ?case unfolding complete_at_def by blast
qed

lemma decides:
  assumes "fair sched" and "exclusion_free t" and "good ck r0" and "user_defined t (tk_user (rq_TupleKey r0))"
    and "rq_VisitedPaths r0 = []"
  shows "\<exists>out. Check ck sched r0 = Some out \<and>
    (decision out = Granted \<longrightarrow> member t U (tk_object (rq_TupleKey r0)) (tk_relation (rq_TupleKey r0)) (tk_user (rq_TupleKey r0))) \<and>
    (decision out = Denied \<longrightarrow> \<not> member t U (tk_object (rq_TupleKey r0)) (tk_relation (rq_TupleKey r0)) (tk_user (rq_TupleKey r0)))"
proof -
  have scope: "same_scope r0 r0" by (simp add: same_scope_def)
  obtain out where out: "Check ck sched r0 = Some out"
    using resolve_returns [OF assms(1,3) scope] unfolding Check_def by blast
  have "justified (asked r0) out"
    using resolve_answers [OF fair_orderly [OF assms(1)]] assms(3) scope out unfolding answers_def Check_def by blast
  moreover have "decision out \<noteq> Denied" if "asks n r0" for n
    using resolve_complete [OF assms(1)] that out assms(3-5) scope
    unfolding complete_at_def Check_def admissible_def visited_ok_def by fastforce
  ultimately show ?thesis
    using out assms(2) by (auto simp: justified_def asked_def asks_def dest: member_bounded(1))
qed

end

end
