(* ===== verification/CheckProperties.thy ===== *)
theory CheckProperties
  imports CheckCorrect
begin

text \<open>
  The properties of the check engine over the in-memory datastore, and the dependence of exclusions
  on the order of arrival.
\<close>

section \<open>The engine over the in-memory datastore\<close>

locale memory_state =
  fixes us :: "ulid \<Rightarrow> string" and s :: MemoryBackend
  assumes state: "reachable us s"

sublocale memory_state < reader: unique_reader "memory_reader s" "map AsTuple" "\<lambda>_. True" "memory_tuples s"
  by (rule memory_reader_contract) (use reachable_store_inv [OF state] in \<open>simp add: store_inv_def\<close>)

locale memory_checker = memory_state us s
  for us :: "ulid \<Rightarrow> string" and s :: MemoryBackend +
  fixes ck :: "(TupleRecord list, 'c) LocalChecker" and req :: ResolveCheckRequest
  assumes uses_memory: "ck_ds ck = memory_reader s" and context_live: "ck_ctx ck = Live"
    and tuples_wf: "\<forall>k\<in>memory_tuples s (rq_StoreID req). wf_tuple k"
    and types_wf: "wf_model (ck_typesys ck)"

sublocale memory_checker < checker "memory_reader s" "map AsTuple" "\<lambda>_. True" "memory_tuples s" ck req
  by unfold_locales (use uses_memory context_live tuples_wf types_wf in auto)

locale memory_model_checker = memory_checker us s ck req
  for us :: "ulid \<Rightarrow> string" and s :: MemoryBackend and ck :: "(TupleRecord list, 'c) LocalChecker" and req +
  assumes paths_found: "graph_complete (ck_typesys ck)"

sublocale memory_model_checker < complete_checker "memory_reader s" "map AsTuple" "\<lambda>_. True" "memory_tuples s" ck req
  by unfold_locales (use reader.unique paths_found in auto)

lemmas memory_checker_intro =
  memory_checker.intro memory_state.intro memory_checker_axioms.intro
  memory_model_checker.intro memory_model_checker_axioms.intro

context memory_checker
begin

lemma memory_returns: "fair sched \<Longrightarrow> good ck req \<Longrightarrow> \<exists>out. Check ck sched req = Some out"
  unfolding Check_def by (rule resolve_returns) (simp_all add: same_scope_def)

lemma memory_sound:
  assumes "orderly sched" and "good ck req" and "Check ck sched req = Some out"
  shows "justified (exclusion_free (ck_typesys ck) \<longrightarrow> member (ck_typesys ck) (usable ck (memory_tuples s) req)
    (tk_object (rq_TupleKey req)) (tk_relation (rq_TupleKey req)) (tk_user (rq_TupleKey req))) out"
proof -
  have "same_scope req req" by (simp add: same_scope_def)
  with resolve_answers [OF assms(1)] assms(2,3) show ?thesis
    unfolding answers_def Check_def asked_def by blast
qed

end

context memory_model_checker
begin

lemmas memory_decides = decides

end

section \<open>Examples\<close>

text \<open>Documents that are shared with groups and inherit the viewers of their parent.\<close>

definition sharing_model :: authorization_model where
  "sharing_model =
     \<lparr>am_id = ''m'', am_schema_version = ''1.1'', am_type_definitions =
        [\<lparr>td_type = ''user'', td_relations = [], td_metadata = None\<rparr>,
         \<lparr>td_type = ''group'', td_relations = [(''member'', This)],
          td_metadata = Some [(''member'', \<lparr>directly_related_user_types =
            [DirectRelationReference ''user'' [], DirectRelationReference ''group'' ''member'']\<rparr>)]\<rparr>,
         \<lparr>td_type = ''doc'', td_relations = [(''parent'', This),
            (''viewer'', Union [This, TupleToUserset ''parent'' ''viewer''])],
          td_metadata = Some
            [(''parent'', \<lparr>directly_related_user_types = [DirectRelationReference ''doc'' []]\<rparr>),
             (''viewer'', \<lparr>directly_related_user_types = [DirectRelationReference ''group'' ''member'']\<rparr>)]\<rparr>],
      am_conditions = []\<rparr>"

definition sharing_types :: TypeSystem where
  "sharing_types = projr (NewTypeSystem (\<lambda>_. Inr example_graph) Inr (\<lambda>_. None) sharing_model)"

definition sharing_tuples :: "tuple_key list" where
  "sharing_tuples =
     [NewTupleKey ''doc:1'' ''parent'' ''doc:2'', NewTupleKey ''doc:2'' ''parent'' ''doc:1'',
      NewTupleKey ''doc:2'' ''viewer'' ''group:g#member'', NewTupleKey ''group:g'' ''member'' ''user:anne'']"

definition sharing_state :: MemoryBackend where
  "sharing_state = projr (Write utoa 5 (\<lambda>k. k) New ''s'' [] sharing_tuples)"

definition checker_on :: "TypeSystem \<Rightarrow> MemoryBackend \<Rightarrow> (TupleRecord list, (string \<times> native) list) LocalChecker" where
  "checker_on t s =
     \<lparr>ck_maxResolutionDepth = 25, ck_ctx = Live, ck_typesys = t, ck_ds = memory_reader s,
      ck_stdlib = example_stdlib, ck_cel = example_cel,
      ck_checkUsersetFastPathV2 = (\<lambda>_ _. None), ck_recursiveUsersetFastPathV2 = (\<lambda>_ _. None),
      ck_checkTTUFastPathV2 = (\<lambda>_ _ _. None), ck_recursiveTTUFastPathV2 = (\<lambda>_ _ _. None)\<rparr>"

definition check_request :: "tuple_key \<Rightarrow> ResolveCheckRequest" where
  "check_request tk =
     \<lparr>rq_StoreID = ''s'', rq_AuthorizationModelID = ''m'', rq_TupleKey = tk, rq_ContextualTuples = [],
      rq_Context = None, rq_Depth = 0, rq_VisitedPaths = [], rq_Consistency = 0,
      rq_LastCacheInvalidationTime = 0, rq_invariantCacheKey = []\<rparr>"

definition in_order :: scheduler where
  "in_order path n = map Ready [0..<n]"

definition reversed :: scheduler where
  "reversed path n = rev (map Ready [0..<n])"
section \<open>Type systems of well-formed models\<close>

definition wf_definitions :: "authorization_model \<Rightarrow> bool" where
  "wf_definitions m \<longleftrightarrow>
     (\<forall>td\<in>set (am_type_definitions m).
        (\<forall>(rel, rewrite)\<in>set (td_relations td). IsValidRelation rel \<and> wf_rewrite rewrite) \<and>
        (\<forall>(rel, rm)\<in>set (case td_metadata td of None \<Rightarrow> [] | Some md \<Rightarrow> md).
           \<forall>ref\<in>set (directly_related_user_types rm).
             rr_type ref \<in> td_type ` set (am_type_definitions m) \<and>
             (case rr_ref ref of RelationRef rel' \<Rightarrow> IsValidRelation rel' | _ \<Rightarrow> True)))"

definition no_exclusions :: "authorization_model \<Rightarrow> bool" where
  "no_exclusions m \<longleftrightarrow>
     (\<forall>td\<in>set (am_type_definitions m). \<forall>(rel, rewrite)\<in>set (td_relations td). no_exclusion rewrite)"

lemma NewTypeSystem_relation:
  assumes "NewTypeSystem mk rv wt m = Inr t" and "TypeSystem.GetRelation t ot rel = Inr r"
  obtains td where "td \<in> set (am_type_definitions m)" "(rel, rel_rewrite r) \<in> set (td_relations td)"
    "rel_types r = restrictions_of td rel"
proof -
  note t = NewTypeSystem_fields [OF assms(1)]
  from assms(2) have r: "map_of (relations_of t ot) rel = Some r" by (simp add: GetRelation_Inr)
  then obtain rs where rs: "ts_relations t ot = Some rs" "map_of rs rel = Some r"
    by (cases "ts_relations t ot") (simp_all add: relations_of_def)
  from rs(1) obtain td where td: "td \<in> set (am_type_definitions m)"
    "rs = map (\<lambda>(r, rewrite). (r, new_relation td r rewrite)) (td_relations td)"
    by (auto simp: t dest!: map_of_SomeD)
  from map_of_SomeD [OF rs(2)] td(2) obtain rewrite where "(rel, rewrite) \<in> set (td_relations td)" "r = new_relation td rel rewrite"
    by auto
  with td(1) that show thesis by (auto simp: new_relation_def restrictions_of_def split: option.splits)
qed

lemma restrictions_in_metadata:
  assumes "ref \<in> set (restrictions_of td rel)"
  obtains rm where "(rel, rm) \<in> set (case td_metadata td of None \<Rightarrow> [] | Some md \<Rightarrow> md)"
    "ref \<in> set (directly_related_user_types rm)"
proof (cases "td_metadata td")
  case None
  with assms show ?thesis by (simp add: restrictions_of_def)
next
  case (Some md)
  with assms obtain rm where "map_of md rel = Some rm" "ref \<in> set (directly_related_user_types rm)"
    by (cases "map_of md rel") (simp_all add: restrictions_of_def)
  with Some that map_of_SomeD show ?thesis by fastforce
qed

lemma NewTypeSystem_wf_model:
  assumes new: "NewTypeSystem mk rv wt m = Inr t" and "wf_definitions m"
    and "IsSchemaVersionSupported (ts_schemaVersion t)"
  shows "wf_model t"
proof -
  have ref: "rr_type ref \<in> td_type ` set (am_type_definitions m) \<and>
      (\<forall>rel'. rr_ref ref = RelationRef rel' \<longrightarrow> IsValidRelation rel')"
    if "td \<in> set (am_type_definitions m)" "ref \<in> set (restrictions_of td rel)" for td rel ref
    using assms(2) that by (elim restrictions_in_metadata) (fastforce simp: wf_definitions_def)
  have "\<not> IsValidRelation []" by (simp add: IsValidRelation_iff)
  with ref have "consistent t" by (intro NewTypeSystem_consistent [OF new]) blast
  moreover have "ty \<in> td_type ` set (am_type_definitions m) \<Longrightarrow> GetTypeDefinition t ty \<noteq> None" for ty
    unfolding GetTypeDefinition_def NewTypeSystem_fields(1) [OF new] map_of_eq_None_iff by force
  moreover have "IsValidRelation rel \<and> wf_rewrite (rel_rewrite r)" if "TypeSystem.GetRelation t ot rel = Inr r" for ot rel r
    using NewTypeSystem_relation [OF new that] assms(2) unfolding wf_definitions_def by fast
  ultimately show ?thesis
    using assms(3) ref unfolding wf_model_def by (metis NewTypeSystem_relation [OF new])
qed

lemma NewTypeSystem_exclusion_free:
  assumes "NewTypeSystem mk rv wt m = Inr t" and "no_exclusions m"
  shows "exclusion_free t"
  using assms(2) NewTypeSystem_relation [OF assms(1)] unfolding exclusion_free_def no_exclusions_def by fast
section \<open>The properties of a check\<close>




text \<open>
  For every well-formed model, exclusions included, and in every order of arrival, a check that
  grants access has met no cycle.
\<close>

theorem Check_grants_without_cycle:
  assumes "reachable us s" and "ck_ds ck = memory_reader s" and "ck_ctx ck = Live"
    and "\<forall>k\<in>memory_tuples s (rq_StoreID req). wf_tuple k" and "wf_model (ck_typesys ck)"
    and "orderly sched" and "good ck req" and "Check ck sched req = Some (Inr resp)" and "Allowed resp"
  shows "\<not> GetCycleDetected resp"
proof -
  have "memory_checker us s ck req" using assms(1-5) by (intro memory_checker_intro)
  from memory_checker.memory_sound [OF this assms(6-8)] assms(9) show ?thesis
    by (simp add: justified_def)
qed
section \<open>The example, checked\<close>

lemma sharing_types_new:
  "NewTypeSystem (\<lambda>_. Inr example_graph) Inr (\<lambda>_. None) sharing_model = Inr sharing_types"
  by (simp add: sharing_types_def NewTypeSystem_def Let_def example_graph_def)

lemma sharing_types_wf: "wf_model sharing_types"
proof (rule NewTypeSystem_wf_model [OF sharing_types_new])
  show "wf_definitions sharing_model" by code_simp
  show "IsSchemaVersionSupported (ts_schemaVersion sharing_types)" by code_simp
qed

lemma sharing_types_exclusion_free: "exclusion_free sharing_types"
proof (rule NewTypeSystem_exclusion_free [OF sharing_types_new])
  show "no_exclusions sharing_model" by code_simp
qed

lemma example_graph_complete: "ts_authorizationModelGraph t = example_graph \<Longrightarrow> graph_complete t"
  by (simp add: graph_complete_def example_graph_def)

lemma sharing_types_paths: "graph_complete sharing_types"
  by (rule example_graph_complete) (simp add: sharing_types_def NewTypeSystem_def example_graph_def Let_def)

lemma write_tuples:
  assumes "Write utoa 5 (\<lambda>k. k) New ''s'' [] tks = Inr s" and "\<forall>tk\<in>set tks. full_key tk"
  shows "reachable utoa s"
  by (rule reachable_Write [OF reachable_New assms(2) _ _ _ assms(1)]) (simp_all add: New_def strict_mono_def)

lemma sharing_state_reachable: "reachable utoa sharing_state"
proof (rule write_tuples)
  have "case Write utoa 5 (\<lambda>k. k) New ''s'' [] sharing_tuples of Inl _ \<Rightarrow> False | Inr _ \<Rightarrow> True" by code_simp
  then show "Write utoa 5 (\<lambda>k. k) New ''s'' [] sharing_tuples = Inr sharing_state"
    unfolding sharing_state_def by (auto split: sum.splits)
  show "\<forall>tk\<in>set sharing_tuples. full_key tk" by code_simp
qed

lemma sharing_tuples_wf: "\<forall>k\<in>memory_tuples sharing_state ''s''. wf_tuple k"
  by code_simp

abbreviation sharing_checker :: "(TupleRecord list, (string \<times> native) list) LocalChecker" where
  "sharing_checker \<equiv> checker_on sharing_types sharing_state"

abbreviation sharing_request :: ResolveCheckRequest where
  "sharing_request \<equiv> check_request (NewTupleKey ''doc:1'' ''viewer'' ''user:anne'')"

lemma checker_on_simps [simp]:
  "ck_ds (checker_on t s) = memory_reader s" "ck_ctx (checker_on t s) = Live" "ck_typesys (checker_on t s) = t"
  by (simp_all add: checker_on_def)

lemma check_request_simps [simp]:
  "rq_StoreID (check_request tk) = ''s''" "rq_TupleKey (check_request tk) = tk" "rq_VisitedPaths (check_request tk) = []"
  by (simp_all add: check_request_def)

interpretation sharing: memory_model_checker utoa sharing_state sharing_checker sharing_request
  by (intro memory_checker_intro)
     (simp_all add: sharing_state_reachable sharing_tuples_wf sharing_types_wf sharing_types_paths)

lemma fair_in_order: "fair in_order"
  by (simp add: fair_def in_order_def)

lemma fair_reversed: "fair reversed"
  by (simp add: fair_def reversed_def)

lemma sharing_request_good: "good sharing_checker sharing_request"
  by code_simp

lemma sharing_granted: "Check sharing_checker in_order sharing_request = Some (Inr (response True False))"
  by code_simp

lemma sharing_user: "user_defined sharing_types ''user:anne''"
proof -
  have "\<not> IsObjectRelation ''user:anne''" by code_simp
  then show ?thesis by (simp add: user_defined_def)
qed



theorem Check_grants_without_cycle_witness: "\<not> GetCycleDetected (response True False)"
  using Check_grants_without_cycle [OF sharing_state_reachable, of sharing_checker sharing_request in_order "response True False"]
  by (simp only: checker_on_simps check_request_simps sharing_tuples_wf sharing_types_wf fair_orderly fair_in_order
      sharing_request_good sharing_granted response_simps simp_thms)

section \<open>Exclusions and the order of arrival\<close>

text \<open>
  A document with readers except those who are both reviewers and owners. The reviewers are inherited
  from the parent, and the document is its own parent.
\<close>

definition review_model :: authorization_model where
  "review_model =
     \<lparr>am_id = ''m'', am_schema_version = ''1.1'', am_type_definitions =
        [\<lparr>td_type = ''user'', td_relations = [], td_metadata = None\<rparr>,
         \<lparr>td_type = ''group'', td_relations = [(''member'', This)],
          td_metadata = Some [(''member'', \<lparr>directly_related_user_types = [DirectRelationReference ''user'' []]\<rparr>)]\<rparr>,
         \<lparr>td_type = ''doc'', td_relations = [(''parent'', This), (''reader'', This), (''owner'', This),
            (''reviewer'', Union [This, TupleToUserset ''parent'' ''reviewer'']),
            (''viewer'', Difference (ComputedUserset ''reader'')
               (Intersection [ComputedUserset ''reviewer'', ComputedUserset ''owner'']))],
          td_metadata = Some
            [(''parent'', \<lparr>directly_related_user_types = [DirectRelationReference ''doc'' []]\<rparr>),
             (''reader'', \<lparr>directly_related_user_types = [DirectRelationReference ''group'' ''member'']\<rparr>),
             (''owner'', \<lparr>directly_related_user_types = [DirectRelationReference ''group'' ''member'']\<rparr>),
             (''reviewer'', \<lparr>directly_related_user_types = [DirectRelationReference ''group'' ''member'']\<rparr>)]\<rparr>],
      am_conditions = []\<rparr>"

definition review_types :: TypeSystem where
  "review_types = projr (NewTypeSystem (\<lambda>_. Inr example_graph) Inr (\<lambda>_. None) review_model)"

definition review_state :: MemoryBackend where
  "review_state = projr (Write utoa 5 (\<lambda>k. k) New ''s'' []
     [NewTupleKey ''doc:1'' ''parent'' ''doc:1'', NewTupleKey ''doc:1'' ''reader'' ''group:g#member''])"

abbreviation review_request :: ResolveCheckRequest where
  "review_request \<equiv> check_request (NewTupleKey ''doc:1'' ''viewer'' ''group:g#member'')"

text \<open>
  C5: with an exclusion the answer depends on the order of arrival. The group is a reader, and
  neither a reviewer nor an owner, so it is a viewer. The check of the reviewers meets a cycle. An
  intersection passes on the first response that is not allowed with its cycle flag, and an exclusion
  denies access when the flag of what it subtracts is set. So the group is denied when the reviewers
  are answered first and granted when the owners are.
\<close>

theorem exclusion_depends_on_order:
  "fair in_order \<and> fair reversed \<and>
   Check (checker_on review_types review_state) in_order review_request = Some (Inr (response False True)) \<and>
   Check (checker_on review_types review_state) reversed review_request = Some (Inr (response True False))"
proof (intro conjI fair_in_order fair_reversed)
  show "Check (checker_on review_types review_state) in_order review_request = Some (Inr (response False True))"
    by code_simp
  show "Check (checker_on review_types review_state) reversed review_request = Some (Inr (response True False))"
    by code_simp
qed


end
