(* ===== verification/CombinedReader.thy ===== *)
theory CombinedReader
  imports CheckProperties
begin

text \<open>
  Contextual tuples (\<^verbatim>\<open>pkg/storage/storagewrappers/combinedtuplereader.go\<close>): a reader that adds the tuples
  of a request to those of a datastore. It keeps the contract of a tuple reader, with the tuples of both, so that a
  check over it is correct for the stored and the contextual tuples together.
\<close>

section \<open>The reader\<close>

definition contextual_key :: "tuple_key \<Rightarrow> tuple_key" where
  "contextual_key t = NewTupleKeyWithCondition (tk_object t) (tk_relation t) (tk_user t)
     (GetConditionName (tk_condition t)) (GetConditionContext (tk_condition t))"

text \<open>\<^verbatim>\<open>contextualTuplesOrderedByObjectID\<close>; \<^verbatim>\<open>slices.SortFunc\<close> is modelled by a stable sort.\<close>

definition orderedByObjectID :: "tuple_key list \<Rightarrow> tuple_key list" where
  "orderedByObjectID contextualTuples = sort_key tk_object (map contextual_key contextualTuples)"

definition filterTuples :: "tuple_key list \<Rightarrow> string \<Rightarrow> string \<Rightarrow> string list \<Rightarrow> tuple list" where
  "filterTuples tuples targetObject targetRelation targetUsers =
     map (\<lambda>tk. \<lparr>t_key = tk, t_timestamp = 0\<rparr>)
       (filter (\<lambda>tk. (targetObject = [] \<or> tk_object tk = targetObject) \<and>
                     (targetRelation = [] \<or> tk_relation tk = targetRelation) \<and>
                     (targetUsers = [] \<or> tk_user tk \<in> set targetUsers)) tuples)"

definition tupleMatchesAllowedUserTypeRestrictions :: "tuple \<Rightarrow> relation_reference list \<Rightarrow> bool" where
  "tupleMatchesAllowedUserTypeRestrictions t allowedUserTypeRestrictions =
     (let tupleUser = tk_user (t_key t)
      in if GetUserTypeFromUser tupleUser \<noteq> UserSet then False
         else \<exists>ref\<in>set allowedUserTypeRestrictions.
                rr_ref ref = WildcardRef \<and> IsTypedWildcard tupleUser \<and> GetType tupleUser = rr_type ref \<or>
                (case rr_ref ref of RelationRef _ \<Rightarrow> True | _ \<Rightarrow> False) \<and> IsObjectRelation tupleUser \<and>
                GetType tupleUser = rr_type ref \<and> Tuples.GetRelation tupleUser = rr_GetRelation ref)"

definition user_filter :: "object_relation list \<Rightarrow> string list" where
  "user_filter us = map (\<lambda>u. if snd u \<noteq> [] then ToObjectRelationString (fst u) (snd u) else fst u) us"

definition contextual_starting_with :: "tuple_key list \<Rightarrow> ReadStartingWithUserFilter \<Rightarrow> tuple list" where
  "contextual_starting_with ctxs flt =
     filter (\<lambda>t. GetType (tk_object (t_key t)) = rsf_ObjectType flt)
       (filterTuples ctxs [] (rsf_Relation flt) (user_filter (rsf_UserFilter flt)))"

abbreviation combine :: "tuple list \<Rightarrow> (err, 's) result \<Rightarrow> (err, (tuple list + 's) combined_state) result" where
  "combine iter1 res \<equiv> (case res of Inl e \<Rightarrow> Inl e | Inr iter2 \<Rightarrow> Inr (NewCombinedIterator [Some (Inl iter1), Some (Inr iter2)]))"

definition NewCombinedTupleReader ::
  "'s RelationshipTupleReader \<Rightarrow> tuple_key list \<Rightarrow> (tuple list + 's) combined_state RelationshipTupleReader" where
  "NewCombinedTupleReader ds contextualTuples =
     (let ctxs = orderedByObjectID contextualTuples
      in \<lparr>ds_Iterator = combinedIterator (sumIterator StaticIterator (ds_Iterator ds)),
          ds_Read = (\<lambda>store tk. combine (filterTuples ctxs (tk_object tk) (tk_relation tk) []) (ds_Read ds store tk)),
          ds_ReadUserTuple = (\<lambda>store tk.
            case List.find (\<lambda>t. tk_user (t_key t) = tk_user tk)
                   (filterTuples ctxs (tk_object tk) (tk_relation tk) [tk_user tk]) of
              Some t \<Rightarrow> Inr t
            | None \<Rightarrow> ds_ReadUserTuple ds store tk),
          ds_ReadUsersetTuples = (\<lambda>store flt.
            combine (filter (\<lambda>t. tupleMatchesAllowedUserTypeRestrictions t (ruf_AllowedUserTypeRestrictions flt))
                       (filterTuples ctxs (ruf_Object flt) (ruf_Relation flt) []))
              (ds_ReadUsersetTuples ds store flt)),
          ds_ReadStartingWithUser = (\<lambda>store flt.
            combine (contextual_starting_with ctxs flt) (ds_ReadStartingWithUser ds store flt))\<rparr>)"

text \<open>With \<^verbatim>\<open>WithResultsSortedAscending\<close>, \<^verbatim>\<open>ReadStartingWithUser\<close> gives an ordered combined iterator by object.\<close>

definition ReadStartingWithUser_sorted ::
  "'s RelationshipTupleReader \<Rightarrow> tuple_key list \<Rightarrow> string \<Rightarrow> ReadStartingWithUserFilter \<Rightarrow>
   (err, (tuple list + 's) ordered_state) result" where
  "ReadStartingWithUser_sorted ds contextualTuples store flt =
     (case ds_ReadStartingWithUser ds store flt of
        Inl e \<Rightarrow> Inl e
      | Inr iter2 \<Rightarrow>
          Inr (NewOrderedCombinedIterator
                 [Some (Inl (contextual_starting_with (orderedByObjectID contextualTuples) flt)), Some (Inr iter2)]))"

section \<open>The contract\<close>

lemma iterator_sum:
  assumes "iterator it1 contents1 invar1" and "iterator it2 contents2 invar2"
  shows "iterator (sumIterator it1 it2) (case_sum contents1 contents2) (case_sum invar1 invar2)"
proof unfold_locales
  fix s :: "'a + 'c" and c
  assume inv: "case_sum invar1 invar2 s"
  show "\<exists>r s'. iNext (sumIterator it1 it2) c s = Some (r, s') \<and> case_sum invar1 invar2 s' \<and>
      next_ok c (case_sum contents1 contents2 s) r (case_sum contents1 contents2 s')"
    using inv iteration.next_law [OF iterator_iteration [OF assms(1)], of _ c]
      iteration.next_law [OF iterator_iteration [OF assms(2)], of _ c]
    by (cases s) (fastforce simp: sumIterator_def)+
  show "\<exists>r s'. iHead (sumIterator it1 it2) c s = Some (r, s') \<and> case_sum invar1 invar2 s' \<and>
      head_ok c (case_sum contents1 contents2 s) r (case_sum contents1 contents2 s')"
    using inv iteration.head_law [OF iterator_iteration [OF assms(1)], of _ c]
      iteration.head_law [OF iterator_iteration [OF assms(2)], of _ c]
    by (cases s) (fastforce simp: sumIterator_def)+
  show "case_sum invar1 invar2 (iStop (sumIterator it1 it2) s)"
    "set (case_sum contents1 contents2 (iStop (sumIterator it1 it2) s)) \<subseteq> set (case_sum contents1 contents2 s)"
    using inv iterator.stop_law [OF assms(1)] iterator.stop_law [OF assms(2)]
      iterator.stop_subset [OF assms(1)] iterator.stop_subset [OF assms(2)]
    by (cases s; simp add: sumIterator_def)+
qed

definition combined_contents :: "('s \<Rightarrow> tuple list) \<Rightarrow> (tuple list + 's) combined_state \<Rightarrow> tuple list" where
  "combined_contents contents st = concat (map (case_sum (\<lambda>ts. ts) contents) (pending st))"

definition combined_invar :: "('s \<Rightarrow> bool) \<Rightarrow> (tuple list + 's) combined_state \<Rightarrow> bool" where
  "combined_invar invar st \<longleftrightarrow> (\<forall>s\<in>set (pending st). case_sum (\<lambda>ts. True) invar s)"

lemma combine_Inr: "combine ts res = Inr st \<longleftrightarrow> (\<exists>s. res = Inr s \<and> st = NewCombinedIterator [Some (Inl ts), Some (Inr s)])"
  by (cases res) auto

lemma combine_facts [simp]:
  "combined_invar invar (NewCombinedIterator [Some (Inl ts), Some (Inr s)]) \<longleftrightarrow> invar s"
  "combined_contents contents (NewCombinedIterator [Some (Inl ts), Some (Inr s)]) = ts @ contents s"
  by (simp_all add: combined_invar_def combined_contents_def NewCombinedIterator_def map_filter_simps)

lemma orderedByObjectID_set [simp]: "set (orderedByObjectID ctxs) = contextual_key ` set ctxs"
  by (simp add: orderedByObjectID_def)

lemma contextual_key_id [simp]:
  "tk_object (contextual_key t) = tk_object t" "tk_relation (contextual_key t) = tk_relation t"
  "tk_user (contextual_key t) = tk_user t"
  by (simp_all add: contextual_key_def NewTupleKeyWithCondition_def)

lemma filterTuples_keys:
  "ob \<noteq> [] \<Longrightarrow> rel \<noteq> [] \<Longrightarrow> t_key ` set (filterTuples ks ob rel []) = {k \<in> set ks. tk_object k = ob \<and> tk_relation k = rel}"
  by (force simp: filterTuples_def image_iff)

lemma wildcard_no_relation:
  assumes "wf_user u" and "IsTypedWildcard u"
  shows "Tuples.GetRelation u = []"
proof -
  have "SplitObject u = (GetType u, Wildcard)" "GetType u \<noteq> []"
    using assms(2) by (auto simp: IsTypedWildcard_def GetType_def split: prod.splits)
  then have "u = BuildObject (GetType u) Wildcard" using SplitObject_eq_iff by blast
  then show ?thesis
    using TypedPublicWildcard_facts(3) [OF assms(1)] unfolding TypedPublicWildcard_def by metis
qed

lemma allowed_restriction:
  assumes "wf_user (tk_user k)" and "\<forall>ref\<in>set refs. userset_ref ref"
  shows "tupleMatchesAllowedUserTypeRestrictions \<lparr>t_key = k, t_timestamp = ts\<rparr> refs \<longleftrightarrow>
    GetUserTypeFromUser (tk_user k) = UserSet \<and>
    (\<exists>ref\<in>set refs. rr_type ref = GetType (tk_user k) \<and> rr_GetRelation ref = Tuples.GetRelation (tk_user k))"
proof (cases "GetUserTypeFromUser (tk_user k) = UserSet")
  case True
  let ?u = "tk_user k"
  have "rr_ref ref = WildcardRef \<and> IsTypedWildcard ?u \<and> GetType ?u = rr_type ref \<or>
      (case rr_ref ref of RelationRef _ \<Rightarrow> True | _ \<Rightarrow> False) \<and> IsObjectRelation ?u \<and>
      GetType ?u = rr_type ref \<and> Tuples.GetRelation ?u = rr_GetRelation ref \<longleftrightarrow>
      rr_type ref = GetType ?u \<and> rr_GetRelation ref = Tuples.GetRelation ?u" if "ref \<in> set refs" for ref
  proof (cases "Tuples.GetRelation ?u = []")
    case rel: True
    then have "IsTypedWildcard ?u" using wf_user_wildcard [OF assms(1) True] TypedPublicWildcard_facts(4) [OF assms(1)] by metis
    with rel assms(2) that show ?thesis
      by (auto simp: userset_ref_def rr_GetRelation_def IsObjectRelation_def split: relation_or_wildcard.splits)
  next
    case False
    then have "IsObjectRelation ?u" using assms(1) by (simp add: IsObjectRelation_def wf_user_type)
    moreover have "\<not> IsTypedWildcard ?u" using wildcard_no_relation [OF assms(1)] False by blast
    ultimately show ?thesis using False assms(2) that
      by (auto simp: userset_ref_def rr_GetRelation_def split: relation_or_wildcard.splits)
  qed
  with True show ?thesis by (simp add: tupleMatchesAllowedUserTypeRestrictions_def Let_def)
qed (simp add: tupleMatchesAllowedUserTypeRestrictions_def Let_def)

lemma combined_reader_contract:
  assumes rd: "tuple_reader ds contents invar stored" and wf: "\<forall>k\<in>set ctxs. wf_tuple k"
  shows "tuple_reader (NewCombinedTupleReader ds ctxs) (combined_contents contents) (combined_invar invar)
    (\<lambda>store. stored store \<union> contextual_key ` set ctxs)"
proof (intro tuple_reader.intro)
  note law = tuple_reader.read_law [OF rd] tuple_reader.user_law [OF rd] tuple_reader.missing_law [OF rd]
    tuple_reader.userset_law [OF rd]
  let ?keys = "contextual_key ` set ctxs"
  have "iterator StaticIterator (\<lambda>ts :: tuple list. ts) (\<lambda>_. True)"
    by (rule static.iterator_axioms)
  from iterator_combined [OF iterator_sum [OF this tuple_reader.iterates [OF rd]]]
  show "iterator (ds_Iterator (NewCombinedTupleReader ds ctxs)) (combined_contents contents) (combined_invar invar)"
    unfolding combined_contents_def [abs_def] combined_invar_def [abs_def] NewCombinedTupleReader_def Let_def by simp
  fix store
  show "combined_invar invar st \<and> t_key ` set (combined_contents contents st) =
      {k \<in> stored store \<union> ?keys. tk_object k = ob \<and> tk_relation k = rel}"
    if "IsValidObject ob" "rel \<noteq> []" "ds_Read (NewCombinedTupleReader ds ctxs) store (NewTupleKey ob rel []) = Inr st" for ob rel st
  proof -
    from that(3) obtain s where s: "ds_Read ds store (NewTupleKey ob rel []) = Inr s"
      "st = NewCombinedIterator [Some (Inl (filterTuples (orderedByObjectID ctxs) ob rel [])), Some (Inr s)]"
      by (auto simp: NewCombinedTupleReader_def Let_def combine_Inr NewTupleKey_def)
    have "ob \<noteq> []" using that(1) by (auto simp: IsValidObject_iff)
    with law(1) [OF that(1,2) s(1)] that(2) show ?thesis
      by (auto simp: s(2) image_Un filterTuples_keys)
  qed
  show "t_key tup \<in> stored store \<union> ?keys \<and> same_id (t_key tup) tk"
    if "IsValidObject (tk_object tk)" "tk_relation tk \<noteq> []" "wf_user (tk_user tk)"
      "ds_ReadUserTuple (NewCombinedTupleReader ds ctxs) store tk = Inr tup" for tk tup
  proof -
    have "tk_object tk \<noteq> []" using that(1) by (auto simp: IsValidObject_iff)
    then show ?thesis
      using that law(2) [OF that(1-3)]
      by (auto simp: NewCombinedTupleReader_def Let_def filterTuples_def same_id_def dest!: find_SomeE split: option.splits)
  qed
  show "\<not> same_id k tk"
    if "IsValidObject (tk_object tk)" "tk_relation tk \<noteq> []" "wf_user (tk_user tk)"
      "ds_ReadUserTuple (NewCombinedTupleReader ds ctxs) store tk = Inl e" "errors_Is e ErrNotFound"
      "k \<in> stored store \<union> ?keys" for tk e k
    using that law(3) [OF that(1-3) _ that(5), of store k]
    by (auto simp: NewCombinedTupleReader_def Let_def filterTuples_def same_id_def find_None_iff split: option.splits)
  show "combined_invar invar st \<and> t_key ` set (combined_contents contents st) =
      {k \<in> stored store \<union> ?keys. tk_object k = ob \<and> tk_relation k = rel \<and> GetUserTypeFromUser (tk_user k) = UserSet \<and>
         (\<exists>ref\<in>set refs. rr_type ref = GetType (tk_user k) \<and> rr_GetRelation ref = Tuples.GetRelation (tk_user k))}"
    if "IsValidObject ob" "rel \<noteq> []" "refs \<noteq> []" and refs: "\<forall>ref\<in>set refs. userset_ref ref"
      and read: "ds_ReadUsersetTuples (NewCombinedTupleReader ds ctxs) store
        \<lparr>ruf_Object = ob, ruf_Relation = rel, ruf_AllowedUserTypeRestrictions = refs\<rparr> = Inr st" for ob rel refs st
  proof -
    let ?P = "\<lambda>k. GetUserTypeFromUser (tk_user k) = UserSet \<and>
      (\<exists>ref\<in>set refs. rr_type ref = GetType (tk_user k) \<and> rr_GetRelation ref = Tuples.GetRelation (tk_user k))"
    let ?ts = "filter (\<lambda>t. tupleMatchesAllowedUserTypeRestrictions t refs) (filterTuples (orderedByObjectID ctxs) ob rel [])"
    from read obtain s where s: "ds_ReadUsersetTuples ds store
        \<lparr>ruf_Object = ob, ruf_Relation = rel, ruf_AllowedUserTypeRestrictions = refs\<rparr> = Inr s"
      "st = NewCombinedIterator [Some (Inl ?ts), Some (Inr s)]"
      by (auto simp: NewCombinedTupleReader_def Let_def combine_Inr)
    have "ob \<noteq> []" using that(1) by (auto simp: IsValidObject_iff)
    moreover have "tupleMatchesAllowedUserTypeRestrictions \<lparr>t_key = k, t_timestamp = 0\<rparr> refs \<longleftrightarrow> ?P k" if "k \<in> ?keys" for k
      using allowed_restriction [OF _ refs] wf that by (auto simp: wf_tuple_def)
    ultimately have "set ?ts = (\<lambda>k. \<lparr>t_key = k, t_timestamp = 0\<rparr>) ` {k \<in> ?keys. tk_object k = ob \<and> tk_relation k = rel \<and> ?P k}"
      using that(2) unfolding filterTuples_def by (simp only: set_filter set_map orderedByObjectID_set) blast
    then have "t_key ` set ?ts = {k \<in> ?keys. tk_object k = ob \<and> tk_relation k = rel \<and> ?P k}"
      by (simp only: image_image tuple.simps image_ident)
    with law(4) [OF that(1-3) refs s(1)] show ?thesis unfolding s(2) combine_facts set_append image_Un by blast
  qed
qed

end
