(* ===== verification/CacheKeys.thy ===== *)
theory CacheKeys
  imports Storage
begin

text \<open>
  The keys of the caches (\<^verbatim>\<open>pkg/storage/cache.go\<close>,
  \<^verbatim>\<open>pkg/storage/storagewrappers/storagewrappersutil/key_utils.go\<close>). What a function writes to its writer is its
  result; writing to a string or a hasher does not fail. \<^verbatim>\<open>strconv.FormatFloat\<close> and the hash function are
  arguments.
\<close>

section \<open>Values, structs and tuples\<close>

definition ErrUnexpectedStructValue :: err where
  "ErrUnexpectedStructValue = ErrText ''unexpected structpb value encountered''"

fun write_list :: "(err, string) result list \<Rightarrow> (err, string) result" where
  "write_list [] = Inr []"
| "write_list [r] = r"
| "write_list (r # rs) =
     (case r of Inl e \<Rightarrow> Inl e | Inr s \<Rightarrow> map_sum id (\<lambda>rest. s @ '','' @ rest) (write_list rs))"

fun write_fields :: "(string \<times> (err, string) result) list \<Rightarrow> (err, string) result" where
  "write_fields [] = Inr []"
| "write_fields ((key, r) # fs) =
     (case r of
        Inl e \<Rightarrow> Inl e
      | Inr s \<Rightarrow> map_sum id (\<lambda>rest. [CHR 0x27] @ key @ '':'' @ [CHR 0x27] @ s @ '','' @ rest) (write_fields fs))"

text \<open>The fields of a struct are written in the order of their names.\<close>

fun writeValue :: "(64 word \<Rightarrow> string) \<Rightarrow> pvalue \<Rightarrow> (err, string) result" where
  "writeValue FormatFloat (BoolValue b) = Inr (if b then ''true'' else ''false'')"
| "writeValue FormatFloat NullValue = Inr ''null''"
| "writeValue FormatFloat (StringValue s) = Inr s"
| "writeValue FormatFloat (NumberValue n) = Inr (FormatFloat n)"
| "writeValue FormatFloat (ListValue vs) = write_list (map (\<lambda>v. writeValue FormatFloat v) vs)"
| "writeValue FormatFloat (StructValue fs) =
     write_fields (sort_key fst (map (\<lambda>f. (fst f, writeValue FormatFloat (snd f))) fs))"
| "writeValue FormatFloat KindUnset = Inl ErrUnexpectedStructValue"

definition writeStruct :: "(64 word \<Rightarrow> string) \<Rightarrow> pstruct option \<Rightarrow> (err, string) result" where
  "writeStruct FormatFloat s =
     (case s of
        None \<Rightarrow> Inr []
      | Some fs \<Rightarrow> write_fields (sort_key fst (map (\<lambda>f. (fst f, writeValue FormatFloat (snd f))) fs)))"

definition write_tuple :: "(64 word \<Rightarrow> string) \<Rightarrow> tuple_key \<Rightarrow> (err, string) result" where
  "write_tuple FormatFloat tk =
     (let start = tk_object tk @ ''#'' @ tk_relation tk; end = ''@'' @ tk_user tk
      in case tk_condition tk of
           None \<Rightarrow> Inr (start @ end)
         | Some cond \<Rightarrow>
             map_sum id (\<lambda>c. start @ '' with '' @ cond_name cond @ (if cond_context cond \<noteq> None then '' '' else []) @ c @ end)
               (writeStruct FormatFloat (cond_context cond)))"

text \<open>The order of \<^verbatim>\<open>TupleKeys.Less\<close>; \<^verbatim>\<open>sort.Sort\<close> is modelled by a stable sort.\<close>

definition tuple_order :: "tuple_key \<Rightarrow> string \<times> string \<times> string \<times> string" where
  "tuple_order tk = (tk_object tk, tk_relation tk, tk_user tk, GetConditionName (tk_condition tk))"

definition writeTuples :: "(64 word \<Rightarrow> string) \<Rightarrow> tuple_key list \<Rightarrow> (err, string) result" where
  "writeTuples FormatFloat tuples =
     map_sum id (\<lambda>s. ''/'' @ s) (write_list (map (write_tuple FormatFloat) (sort_key tuple_order tuples)))"

section \<open>Keys of checks\<close>

record CheckCacheKeyParams =
  ckp_StoreID :: string
  ckp_AuthorizationModelID :: string
  ckp_TupleKey :: tuple_key
  ckp_ContextualTuples :: "tuple_key list"
  ckp_Context :: "pstruct option"

definition WriteInvariantCheckCacheKey :: "(64 word \<Rightarrow> string) \<Rightarrow> CheckCacheKeyParams \<Rightarrow> (err, string) result" where
  "WriteInvariantCheckCacheKey FormatFloat params =
     (let prefix = '' sp.'' @ ckp_StoreID params @ ''/'' @ ckp_AuthorizationModelID params
      in case (if ckp_ContextualTuples params \<noteq> [] then writeTuples FormatFloat (ckp_ContextualTuples params) else Inr []) of
           Inl e \<Rightarrow> Inl e
         | Inr tuples \<Rightarrow>
             map_sum id (\<lambda>context. prefix @ tuples @ context) (writeStruct FormatFloat (ckp_Context params)))"

definition WriteCheckCacheKey :: "(64 word \<Rightarrow> string) \<Rightarrow> CheckCacheKeyParams \<Rightarrow> (err, string) result" where
  "WriteCheckCacheKey FormatFloat params =
     map_sum id (\<lambda>s. Tuple_String (ckp_TupleKey params) @ s) (WriteInvariantCheckCacheKey FormatFloat params)"

section \<open>Keys of iterators\<close>

definition GetChangelogCacheKey :: "string \<Rightarrow> string" where
  "GetChangelogCacheKey storeID = ''cc.'' @ storeID"

definition GetInvalidIteratorCacheKey :: "string \<Rightarrow> string" where
  "GetInvalidIteratorCacheKey storeID = ''iq.'' @ storeID"

definition GetInvalidIteratorByObjectRelationCacheKey :: "string \<Rightarrow> string \<Rightarrow> string \<Rightarrow> string" where
  "GetInvalidIteratorByObjectRelationCacheKey storeID object rel = ''iq.'' @ storeID @ ''-or/'' @ object @ ''#'' @ rel"

definition GetInvalidIteratorByUserObjectTypeCacheKeys :: "string \<Rightarrow> string list \<Rightarrow> string \<Rightarrow> string list" where
  "GetInvalidIteratorByUserObjectTypeCacheKeys storeID users objectType =
     map (\<lambda>user. ''iq.'' @ storeID @ ''-otr/'' @ user @ ''|'' @ objectType) users"

definition GetReadUsersetTuplesCacheKeyPrefix :: "string \<Rightarrow> string \<Rightarrow> string \<Rightarrow> string" where
  "GetReadUsersetTuplesCacheKeyPrefix store object rel = ''ic.rut/'' @ store @ ''/'' @ object @ ''#'' @ rel"

definition GetReadStartingWithUserCacheKeyPrefix :: "string \<Rightarrow> string \<Rightarrow> string \<Rightarrow> string" where
  "GetReadStartingWithUserCacheKeyPrefix store objectType rel = ''ic.rtwu/'' @ store @ ''/'' @ objectType @ ''#'' @ rel"

definition GetReadCacheKey :: "string \<Rightarrow> string \<Rightarrow> string" where
  "GetReadCacheKey store t = ''ic.r/'' @ store @ ''/'' @ t"

definition ReadUsersetTuplesKey :: "string \<Rightarrow> ReadUsersetTuplesFilter \<Rightarrow> string" where
  "ReadUsersetTuplesKey store flt =
     (let refs = ruf_AllowedUserTypeRestrictions flt;
          wb = concat (map (\<lambda>ref. case rr_ref ref of WildcardRef \<Rightarrow> ''/'' @ rr_type ref @ '':*'' | _ \<Rightarrow> []) refs);
          rb = concat (map (\<lambda>ref. case rr_ref ref of RelationRef rel \<Rightarrow> ''/'' @ rr_type ref @ ''#'' @ rel | _ \<Rightarrow> []) refs)
      in GetReadUsersetTuplesCacheKeyPrefix store (ruf_Object flt) (ruf_Relation flt) @ wb @ rb)"

definition ReadStartingWithUserKey :: "(string \<Rightarrow> nat) \<Rightarrow> string \<Rightarrow> ReadStartingWithUserFilter \<Rightarrow> string" where
  "ReadStartingWithUserKey Sum64 store flt =
     GetReadStartingWithUserCacheKeyPrefix store (rsf_ObjectType flt) (rsf_Relation flt) @
     concat (map (\<lambda>objectRel. ''/'' @ (if snd objectRel \<noteq> [] then ToObjectRelationString (fst objectRel) (snd objectRel)
                                       else fst objectRel)) (rsf_UserFilter flt)) @
     (case rsf_ObjectIDs flt of None \<Rightarrow> [] | Some oids \<Rightarrow> ''/'' @ utoa (Sum64 (concat oids)))"

definition ReadKey :: "string \<Rightarrow> tuple_key \<Rightarrow> string" where
  "ReadKey store tupleKey = GetReadCacheKey store (TupleKeyToString tupleKey)"
section \<open>What a key depends on\<close>

lemma sort_key_perm:
  assumes "mset xs = mset ys" and "distinct (map f xs)"
  shows "sort_key f xs = sort_key f ys"
  by (rule sort_key_inj_key_eq) (use assms in \<open>auto simp: distinct_map\<close>)

lemma writeStruct_perm:
  assumes "mset fs = mset fs'" and "distinct (map fst fs)"
  shows "writeStruct FormatFloat (Some fs) = writeStruct FormatFloat (Some fs')"
proof -
  let ?w = "map (\<lambda>f. (fst f, writeValue FormatFloat (snd f)))"
  have "map fst (?w fs) = map fst fs" by simp
  with assms have "sort_key fst (?w fs) = sort_key fst (?w fs')"
    by (intro sort_key_perm) (simp_all del: map_map)
  then show ?thesis by (simp add: writeStruct_def)
qed

lemma writeTuples_perm:
  "mset ts = mset ts' \<Longrightarrow> distinct (map tuple_order ts) \<Longrightarrow> writeTuples FormatFloat ts = writeTuples FormatFloat ts'"
  using sort_key_perm [of ts ts' tuple_order] by (simp add: writeTuples_def)



text \<open>Strings are written as they are, so a value can look like the rest of a struct.\<close>

lemma writeStruct_collision:
  assumes "a < b"
  shows "writeStruct FormatFloat (Some [(a, StringValue (x @ '','' @ [CHR 0x27] @ b @ '':'' @ [CHR 0x27] @ y))]) =
    writeStruct FormatFloat (Some [(a, StringValue x), (b, StringValue y)])"
  using assms less_imp_le [OF assms] by (simp add: writeStruct_def)


end
