(* ===== verification/CheckCommand.thy ===== *)
theory CheckCommand
  imports CombinedReader CacheKeys ServerErrors
begin

text \<open>
  The check command, the batch of checks and the cache of check responses
  (\<^verbatim>\<open>pkg/server/commands/check_command.go\<close>, \<^verbatim>\<open>batch_check_command.go\<close>, \<^verbatim>\<open>internal/graph/cached_resolver.go\<close>,
  \<^verbatim>\<open>resolve_check_request.go\<close>). The hash function is an argument; a \<open>None\<close> outside of a result is a panic or a
  check that does not return.
\<close>

section \<open>Requests\<close>

record ResolveCheckRequestParams =
  rp_StoreID :: string
  rp_TupleKey :: tuple_key
  rp_ContextualTuples :: "tuple_key list"
  rp_Context :: "pstruct option"
  rp_Consistency :: nat
  rp_LastCacheInvalidationTime :: int
  rp_AuthorizationModelID :: string

definition NewResolveCheckRequest ::
  "(64 word \<Rightarrow> string) \<Rightarrow> ResolveCheckRequestParams \<Rightarrow> (err, ResolveCheckRequest) result" where
  "NewResolveCheckRequest FormatFloat params =
     (if rp_AuthorizationModelID params = [] then Inl (ErrText ''missing authorization_model_id'')
      else if rp_StoreID params = [] then Inl (ErrText ''missing store_id'')
      else (case WriteInvariantCheckCacheKey FormatFloat
                   \<lparr>ckp_StoreID = rp_StoreID params, ckp_AuthorizationModelID = rp_AuthorizationModelID params,
                    ckp_TupleKey = NewTupleKey [] [] [], ckp_ContextualTuples = rp_ContextualTuples params,
                    ckp_Context = rp_Context params\<rparr> of
              Inl e \<Rightarrow> Inl e
            | Inr key \<Rightarrow>
                Inr \<lparr>rq_StoreID = rp_StoreID params, rq_AuthorizationModelID = rp_AuthorizationModelID params,
                     rq_TupleKey = rp_TupleKey params, rq_ContextualTuples = rp_ContextualTuples params,
                     rq_Context = rp_Context params, rq_Depth = 0, rq_VisitedPaths = [],
                     rq_Consistency = rp_Consistency params,
                     rq_LastCacheInvalidationTime = rp_LastCacheInvalidationTime params,
                     rq_invariantCacheKey = key\<rparr>))"

section \<open>The check command\<close>

fun validate_contextual_tuples :: "stdlib \<Rightarrow> TypeSystem \<Rightarrow> tuple_key list \<Rightarrow> command_error option option" where
  "validate_contextual_tuples S typesys [] = Some None"
| "validate_contextual_tuples S typesys (ctxTuple # cts) =
     (case ValidateTupleForWrite S typesys ctxTuple of
        None \<Rightarrow> None
      | Some (Some e) \<Rightarrow> Some (Some (CommandInvalidTupleError e))
      | Some None \<Rightarrow> validate_contextual_tuples S typesys cts)"

definition validateCheckRequest :: "stdlib \<Rightarrow> TypeSystem \<Rightarrow> tuple_key_nc \<Rightarrow> tuple_key list \<Rightarrow> command_error option option" where
  "validateCheckRequest S typesys tupleKey contextualTuples =
     (case ValidateUserObjectRelation typesys (ConvertCheckRequestTupleKeyToTupleKey tupleKey) of
        Some e \<Rightarrow> Some (Some (CommandInvalidRelationError e))
      | None \<Rightarrow> validate_contextual_tuples S typesys contextualTuples)"

record CheckCommandParams =
  cp_StoreID :: string
  cp_TupleKey :: tuple_key_nc
  cp_ContextualTuples :: "tuple_key list"
  cp_Context :: "pstruct option"
  cp_Consistency :: nat

text \<open>
  The resolver is given the type system and the reader that the code puts into the context. The datastore is the
  reader below the contextual tuples, with the bound on concurrent reads, and without iterator caches. The flag
  \<^verbatim>\<open>WasThrottled\<close>, the time and the number of queries are those of the request after its evaluation. The partial
  response that accompanies an error is left out.
\<close>

record 's CheckQuery =
  cq_typesys :: TypeSystem
  cq_datastore :: "'s RelationshipTupleReader"
  cq_checkResolver :: "TypeSystem \<Rightarrow> (tuple list + 's) combined_state RelationshipTupleReader \<Rightarrow> ResolveCheckRequest \<Rightarrow> outcome option"
  cq_stdlib :: stdlib
  cq_FormatFloat :: "64 word \<Rightarrow> string"
  cq_DetermineInvalidationTime :: "string \<Rightarrow> int"
  cq_WasThrottled :: "ResolveCheckRequest \<Rightarrow> bool"
  cq_endTime :: "ResolveCheckRequest \<Rightarrow> int"
  cq_DatastoreQueryCount :: "ResolveCheckRequest \<Rightarrow> 32 word"

definition CheckQuery_Execute :: "'s CheckQuery \<Rightarrow> CheckCommandParams \<Rightarrow> (command_error, ResolveCheckResponse) result option" where
  "CheckQuery_Execute c params =
     (case validateCheckRequest (cq_stdlib c) (cq_typesys c) (cp_TupleKey params) (cp_ContextualTuples params) of
        None \<Rightarrow> None
      | Some (Some e) \<Rightarrow> Some (Inl e)
      | Some None \<Rightarrow>
          (let cacheInvalidationTime =
             (if cp_Consistency params \<noteq> HIGHER_CONSISTENCY then cq_DetermineInvalidationTime c (cp_StoreID params) else 0)
           in case NewResolveCheckRequest (cq_FormatFloat c)
                     \<lparr>rp_StoreID = cp_StoreID params,
                      rp_TupleKey = ConvertCheckRequestTupleKeyToTupleKey (cp_TupleKey params),
                      rp_ContextualTuples = cp_ContextualTuples params, rp_Context = cp_Context params,
                      rp_Consistency = cp_Consistency params, rp_LastCacheInvalidationTime = cacheInvalidationTime,
                      rp_AuthorizationModelID = ts_modelID (cq_typesys c)\<rparr> of
                Inl e \<Rightarrow> Some (Inl (CommandError e))
              | Inr req \<Rightarrow>
                  (case cq_checkResolver c (cq_typesys c)
                          (NewCombinedTupleReader (cq_datastore c) (cp_ContextualTuples params)) req of
                     None \<Rightarrow> None
                   | Some (Inl e) \<Rightarrow>
                       Some (Inl (if errors_Is e DeadlineExceeded \<and> cq_WasThrottled c req then ThrottledError e
                                  else CommandError e))
                   | Some (Inr resp) \<Rightarrow>
                       Some (Inr (resp\<lparr>ResolutionMetadata := ResolutionMetadata resp
                                       \<lparr>Duration := cq_endTime c req,
                                        DatastoreQueryCount := cq_DatastoreQueryCount c req\<rparr>\<rparr>)))))"

section \<open>Cached responses\<close>

record CheckResponseCacheEntry =
  ce_LastModified :: int
  ce_CheckResponse :: ResolveCheckResponse

definition BuildCacheKey :: "(string \<Rightarrow> nat) \<Rightarrow> ResolveCheckRequest \<Rightarrow> string" where
  "BuildCacheKey Sum64 req = utoa (Sum64 (Tuple_String (rq_TupleKey req) @ rq_invariantCacheKey req))"

text \<open>\<^verbatim>\<open>CachedCheckResolver.ResolveCheck\<close> over the contents of the cache, at the time \<open>now\<close>.\<close>

definition cached_ResolveCheck ::
  "(string \<Rightarrow> nat) \<Rightarrow> int \<Rightarrow> (ResolveCheckRequest \<Rightarrow> outcome option) \<Rightarrow> (string \<rightharpoonup> CheckResponseCacheEntry) \<Rightarrow>
   ResolveCheckRequest \<Rightarrow> (outcome \<times> (string \<rightharpoonup> CheckResponseCacheEntry)) option" where
  "cached_ResolveCheck Sum64 now delegate cache req =
     (let cacheKey = BuildCacheKey Sum64 req;
          tryCache = rq_Consistency req \<noteq> HIGHER_CONSISTENCY;
          hit = (if tryCache
                 then (case cache cacheKey of
                         Some res \<Rightarrow> if ce_LastModified res > rq_LastCacheInvalidationTime req
                                     then Some (ce_CheckResponse res) else None
                       | None \<Rightarrow> None)
                 else None)
      in case hit of
           Some resp \<Rightarrow> Some (Inr resp, cache)
         | None \<Rightarrow>
             (case delegate req of
                None \<Rightarrow> None
              | Some (Inl e) \<Rightarrow> Some (Inl e, cache)
              | Some (Inr resp) \<Rightarrow>
                  if GetCycleDetected resp then Some (Inr resp, cache)
                  else Some (Inr resp, cache(cacheKey \<mapsto> \<lparr>ce_LastModified = now, ce_CheckResponse = resp\<rparr>))))"

section \<open>Batches\<close>

record BatchCheckItem =
  bc_tuple_key :: tuple_key_nc
  bc_contextual_tuples :: "tuple_key list"
  bc_context :: "pstruct option"
  bc_correlation_id :: string

datatype batch_error = BatchCheckValidationError string | BatchError err

fun validateCorrelationIDs :: "(tuple_key_nc \<Rightarrow> string) \<Rightarrow> BatchCheckItem list \<Rightarrow> string set \<Rightarrow> batch_error option" where
  "validateCorrelationIDs String [] seen = None"
| "validateCorrelationIDs String (check # checks) seen =
     (let i = bc_correlation_id check
      in if i = [] then Some (BatchCheckValidationError
           (''received empty correlation id for tuple: '' @ String (bc_tuple_key check)))
         else if i \<in> seen then Some (BatchCheckValidationError (''received duplicate correlation id: '' @ i))
         else validateCorrelationIDs String checks (insert i seen))"

definition generateCacheKeyFromCheck ::
  "(64 word \<Rightarrow> string) \<Rightarrow> (string \<Rightarrow> nat) \<Rightarrow> BatchCheckItem \<Rightarrow> string \<Rightarrow> string \<Rightarrow> (err, string) result" where
  "generateCacheKeyFromCheck FormatFloat Sum64 check storeID authModelID =
     map_sum id (\<lambda>s. utoa (Sum64 s))
       (WriteCheckCacheKey FormatFloat
          \<lparr>ckp_StoreID = storeID, ckp_AuthorizationModelID = authModelID,
           ckp_TupleKey = NewTupleKey (tk_object (bc_tuple_key check)) (tk_relation (bc_tuple_key check)) (tk_user (bc_tuple_key check)),
           ckp_ContextualTuples = bc_contextual_tuples check, ckp_Context = bc_context check\<rparr>)"

text \<open>\<^verbatim>\<open>cacheKeyMap\<close>: for every key the first check with it and the correlation ids of all.\<close>

type_synonym key_map = "(string \<times> BatchCheckItem \<times> string list) list"

definition add_check :: "string \<Rightarrow> BatchCheckItem \<Rightarrow> key_map \<Rightarrow> key_map" where
  "add_check key check m =
     (case map_of m key of
        Some (item, ids) \<Rightarrow> AList.update key (item, ids @ [bc_correlation_id check]) m
      | None \<Rightarrow> m @ [(key, check, [bc_correlation_id check])])"

fun group_checks :: "(BatchCheckItem \<Rightarrow> (err, string) result) \<Rightarrow> BatchCheckItem list \<Rightarrow> key_map \<Rightarrow> (err, key_map) result" where
  "group_checks keyOf [] m = Inr m"
| "group_checks keyOf (check # checks) m =
     (case keyOf check of
        Inl e \<Rightarrow> Inl e
      | Inr key \<Rightarrow> group_checks keyOf checks (add_check key check m))"

definition check_params :: "string \<Rightarrow> nat \<Rightarrow> BatchCheckItem \<Rightarrow> CheckCommandParams" where
  "check_params storeID consistency check =
     \<lparr>cp_StoreID = storeID, cp_TupleKey = bc_tuple_key check, cp_ContextualTuples = bc_contextual_tuples check,
      cp_Context = bc_context check, cp_Consistency = consistency\<rparr>"

text \<open>
  The checks of a batch run concurrently; each is stored under its own key, so that the order in which they end has
  no influence. \<open>run\<close> is the outcome of a check command, \<open>ctxDone\<close> the error of the context when the check starts.
\<close>

definition BatchCheckQuery_Execute ::
  "nat \<Rightarrow> (tuple_key_nc \<Rightarrow> string) \<Rightarrow> (64 word \<Rightarrow> string) \<Rightarrow> (string \<Rightarrow> nat) \<Rightarrow> (BatchCheckItem \<Rightarrow> err option) \<Rightarrow>
   (CheckCommandParams \<Rightarrow> (command_error, 'r) result) \<Rightarrow> string \<Rightarrow> string \<Rightarrow> nat \<Rightarrow> BatchCheckItem list \<Rightarrow>
   (batch_error, (string \<times> (command_error, 'r) result) list) result" where
  "BatchCheckQuery_Execute maxChecksAllowed String FormatFloat Sum64 ctxDone run storeID modelID consistency checks =
     (if length checks > maxChecksAllowed
      then Inl (BatchCheckValidationError (''batchCheck received '' @ utoa (length checks) @
                  '' checks, the maximum allowed is '' @ utoa maxChecksAllowed))
      else if checks = []
      then Inl (BatchCheckValidationError ''batch check requires at least one check to evaluate, no checks were received'')
      else (case validateCorrelationIDs String checks {} of
              Some e \<Rightarrow> Inl e
            | None \<Rightarrow>
                (case group_checks (\<lambda>check. generateCacheKeyFromCheck FormatFloat Sum64 check storeID modelID) checks [] of
                   Inl e \<Rightarrow> Inl (BatchError e)
                 | Inr cacheKeyMap \<Rightarrow>
                     Inr (concat (map (\<lambda>(key, check, ids).
                            let outcome = (case ctxDone check of
                                             Some e \<Rightarrow> Inl (CommandError e)
                                           | None \<Rightarrow> run (check_params storeID consistency check))
                            in map (\<lambda>i. (i, outcome)) ids) cacheKeyMap)))))"

section \<open>Every check of a batch gets the outcome of its key\<close>

text \<open>The map of the keys: the first check with the key, and the ids of all of them in order.\<close>

definition with_key :: "(BatchCheckItem \<Rightarrow> (err, string) result) \<Rightarrow> BatchCheckItem list \<Rightarrow> string \<Rightarrow> BatchCheckItem list" where
  "with_key keyOf checks key = filter (\<lambda>c. keyOf c = Inr key) checks"

definition groups :: "(BatchCheckItem \<Rightarrow> (err, string) result) \<Rightarrow> BatchCheckItem list \<Rightarrow> key_map \<Rightarrow> bool" where
  "groups keyOf checks m \<longleftrightarrow>
     distinct (map fst m) \<and>
     (\<forall>key. map_of m key =
        (case with_key keyOf checks key of
           [] \<Rightarrow> None
         | c # cs \<Rightarrow> Some (c, map bc_correlation_id (c # cs))))"

lemma groups_add_check:
  assumes "groups keyOf checks m" "keyOf check = Inr key"
  shows "groups keyOf (checks @ [check]) (add_check key check m)"
proof -
  have d: "distinct (map fst m)"
    and l: "\<And>k. map_of m k = (case with_key keyOf checks k of [] \<Rightarrow> None
                               | c # cs \<Rightarrow> Some (c, map bc_correlation_id (c # cs)))"
    using assms(1) by (auto simp: groups_def)
  have w: "with_key keyOf (checks @ [check]) k = with_key keyOf checks k @ (if k = key then [check] else [])" for k
    using assms(2) by (auto simp: with_key_def)
  show ?thesis
  proof (cases "map_of m key")
    case None
    then have "with_key keyOf checks key = []" "key \<notin> fst ` set m"
      using l [of key] by (auto split: list.splits simp: map_of_eq_None_iff)
    then show ?thesis
      using None d l by (auto simp: groups_def add_check_def w map_add_def split: option.splits list.splits)
  next
    case (Some v)
    obtain item ids where v: "v = (item, ids)" by (cases v)
    obtain c cs where c: "with_key keyOf checks key = c # cs" "item = c" "ids = map bc_correlation_id (c # cs)"
      using Some v l [of key] by (auto split: list.splits)
    have "map_of (add_check key check m) k =
            (case with_key keyOf (checks @ [check]) k of [] \<Rightarrow> None
             | c # cs \<Rightarrow> Some (c, map bc_correlation_id (c # cs)))" for k
      using Some v c l [of k] by (simp add: add_check_def w update_conv)
    then show ?thesis
      using Some v d by (simp add: groups_def add_check_def distinct_update)
  qed
qed

lemma group_checks_groups:
  "group_checks keyOf rest m = Inr m' \<Longrightarrow> groups keyOf checks m \<Longrightarrow> groups keyOf (checks @ rest) m'"
proof (induction rest arbitrary: checks m)
  case (Cons check rest)
  then obtain key where key: "keyOf check = Inr key" "group_checks keyOf rest (add_check key check m) = Inr m'"
    by (auto split: sum.splits)
  show ?case
    using Cons.IH [OF key(2) groups_add_check [OF Cons.prems(2) key(1)]] by simp
qed simp

lemma group_checks_keys:
  "group_checks keyOf rest m = Inr m' \<Longrightarrow> check \<in> set rest \<Longrightarrow> \<exists>key. keyOf check = Inr key"
  by (induction rest arbitrary: m) (auto split: sum.splits)

lemma validateCorrelationIDs_distinct:
  "validateCorrelationIDs String checks seen = None \<longleftrightarrow>
     [] \<notin> bc_correlation_id ` set checks \<and> distinct (map bc_correlation_id checks) \<and>
     bc_correlation_id ` set checks \<inter> seen = {}"
  by (induction checks arbitrary: seen) (auto simp: Let_def)

lemma map_of_eq_SomeI:
  assumes "(k, v) \<in> set xs" "\<And>v'. (k, v') \<in> set xs \<Longrightarrow> v' = v"
  shows "map_of xs k = Some v"
proof -
  obtain v' where "map_of xs k = Some v'"
    using assms(1) by (cases "map_of xs k") (force simp: map_of_eq_None_iff)+
  then show ?thesis
    using assms(2) map_of_SomeD by metis
qed

definition check_outcome ::
  "(BatchCheckItem \<Rightarrow> err option) \<Rightarrow> (CheckCommandParams \<Rightarrow> (command_error, 'r) result) \<Rightarrow> string \<Rightarrow> nat \<Rightarrow>
   BatchCheckItem \<Rightarrow> (command_error, 'r) result" where
  "check_outcome ctxDone run storeID consistency check =
     (case ctxDone check of
        Some e \<Rightarrow> Inl (CommandError e)
      | None \<Rightarrow> run (check_params storeID consistency check))"

lemma with_key_cases:
  assumes "with_key keyOf checks key = c # cs" "check \<in> set (c # cs)"
  shows "check \<in> set checks" "keyOf check = Inr key"
proof -
  have "check \<in> set (with_key keyOf checks key)" using assms by simp
  then show "check \<in> set checks" "keyOf check = Inr key" by (simp_all add: with_key_def)
qed

lemma with_key_first:
  assumes "group_checks keyOf checks [] = Inr m" "check \<in> set checks"
  shows "\<exists>key c cs. keyOf check = Inr key \<and> with_key keyOf checks key = c # cs \<and> check \<in> set (c # cs)"
proof -
  obtain key where key: "keyOf check = Inr key" using group_checks_keys [OF assms] by blast
  then have "check \<in> set (with_key keyOf checks key)" using assms(2) by (simp add: with_key_def)
  then show ?thesis using key by (cases "with_key keyOf checks key") auto
qed

lemma group_checks_members:
  assumes "group_checks keyOf checks [] = Inr m"
  shows "(key, c, ids) \<in> set m \<longleftrightarrow>
           (\<exists>cs. with_key keyOf checks key = c # cs \<and> ids = map bc_correlation_id (c # cs))"
proof -
  have g: "distinct (map fst m)"
       "\<And>key. map_of m key = (case with_key keyOf checks key of [] \<Rightarrow> None
                               | c # cs \<Rightarrow> Some (c, map bc_correlation_id (c # cs)))"
    using group_checks_groups [OF assms, of "[]"] by (auto simp: groups_def with_key_def)
  show ?thesis
    using g(2) [of key] map_of_eq_Some_iff [OF g(1), of key "(c, ids)"] by (auto split: list.splits)
qed

lemma BatchCheckQuery_Execute_members:
  assumes "BatchCheckQuery_Execute maxChecks String FormatFloat Sum64 ctxDone run storeID modelID consistency checks = Inr results"
  defines "keyOf \<equiv> \<lambda>c. generateCacheKeyFromCheck FormatFloat Sum64 c storeID modelID"
  shows "inj_on bc_correlation_id (set checks)"
    and "\<exists>m. group_checks keyOf checks [] = Inr m"
    and "(i, out) \<in> set results \<longleftrightarrow>
           (\<exists>key c cs check. with_key keyOf checks key = c # cs \<and> check \<in> set (c # cs) \<and>
              i = bc_correlation_id check \<and> out = check_outcome ctxDone run storeID consistency c)"
proof -
  obtain m where m: "group_checks keyOf checks [] = Inr m"
    and r: "results = concat (map (\<lambda>(key, check, ids).
                       map (\<lambda>i. (i, check_outcome ctxDone run storeID consistency check)) ids) m)"
    and valid: "validateCorrelationIDs String checks {} = None"
    using assms(1) unfolding BatchCheckQuery_Execute_def keyOf_def check_outcome_def
    by (auto split: if_splits option.splits sum.splits simp: Let_def)
  show "inj_on bc_correlation_id (set checks)"
    using valid by (simp add: validateCorrelationIDs_distinct distinct_map)
  show "\<exists>m. group_checks keyOf checks [] = Inr m" using m by blast
  show "(i, out) \<in> set results \<longleftrightarrow>
           (\<exists>key c cs check. with_key keyOf checks key = c # cs \<and> check \<in> set (c # cs) \<and>
              i = bc_correlation_id check \<and> out = check_outcome ctxDone run storeID consistency c)"
    unfolding r by (auto simp: group_checks_members [OF m]; force simp: group_checks_members [OF m])
qed

lemma BatchCheckQuery_Execute_results:
  assumes "BatchCheckQuery_Execute maxChecks String FormatFloat Sum64 ctxDone run storeID modelID consistency checks = Inr results"
  defines "keyOf \<equiv> \<lambda>c. generateCacheKeyFromCheck FormatFloat Sum64 c storeID modelID"
  shows "fst ` set results = bc_correlation_id ` set checks"
    and "check \<in> set checks \<Longrightarrow>
         map_of results (bc_correlation_id check) =
           Some (check_outcome ctxDone run storeID consistency (hd (filter (\<lambda>c. keyOf c = keyOf check) checks)))"
proof -
  note inj = BatchCheckQuery_Execute_members(1) [OF assms(1)]
    and res = BatchCheckQuery_Execute_members(3) [OF assms(1), folded keyOf_def]
  obtain m where m: "group_checks keyOf checks [] = Inr m"
    using BatchCheckQuery_Execute_members(2) [OF assms(1)] unfolding keyOf_def by blast
  show "fst ` set results = bc_correlation_id ` set checks"
  proof (intro equalityI subsetI)
    fix i assume "i \<in> fst ` set results"
    then show "i \<in> bc_correlation_id ` set checks" using res with_key_cases by force
  next
    fix i assume "i \<in> bc_correlation_id ` set checks"
    then obtain check where "check \<in> set checks" "i = bc_correlation_id check" by blast
    then show "i \<in> fst ` set results" using res with_key_first [OF m] by (metis fst_conv image_eqI)
  qed
  assume c: "check \<in> set checks"
  obtain key c cs where k: "keyOf check = Inr key" "with_key keyOf checks key = c # cs" "check \<in> set (c # cs)"
    using with_key_first [OF m c] by blast
  have "out = check_outcome ctxDone run storeID consistency c"
    if out: "(bc_correlation_id check, out) \<in> set results" for out
  proof -
    obtain key' c' cs' check' where k': "with_key keyOf checks key' = c' # cs'" "check' \<in> set (c' # cs')"
      "bc_correlation_id check = bc_correlation_id check'" "out = check_outcome ctxDone run storeID consistency c'"
      using out res by blast
    then have "check' = check" using with_key_cases [OF k'(1,2)] c inj by (auto dest: inj_onD)
    then have "key' = key" using with_key_cases [OF k'(1,2)] k(1) by simp
    then show ?thesis using k' k by simp
  qed
  then have "map_of results (bc_correlation_id check) = Some (check_outcome ctxDone run storeID consistency c)"
    using k res by (intro map_of_eq_SomeI) blast+
  moreover have "filter (\<lambda>c. keyOf c = keyOf check) checks = c # cs"
    using k by (simp add: with_key_def)
  ultimately show "map_of results (bc_correlation_id check) =
           Some (check_outcome ctxDone run storeID consistency (hd (filter (\<lambda>c. keyOf c = keyOf check) checks)))"
    by simp
qed

text \<open>
  C35: in a batch that is accepted, exactly the correlation ids of its checks have an outcome, and where checks with
  equal keys ask the same question and the context is not done, the outcome of every id is that of running its own
  check, however many of the checks are duplicates.
\<close>

theorem BatchCheck_outcomes:
  assumes "BatchCheckQuery_Execute maxChecks String FormatFloat Sum64 ctxDone run storeID modelID consistency checks = Inr results"
    and "\<And>c c'. c \<in> set checks \<Longrightarrow> c' \<in> set checks \<Longrightarrow>
           generateCacheKeyFromCheck FormatFloat Sum64 c storeID modelID =
           generateCacheKeyFromCheck FormatFloat Sum64 c' storeID modelID \<Longrightarrow>
           check_params storeID consistency c = check_params storeID consistency c'"
    and "\<And>c. c \<in> set checks \<Longrightarrow> ctxDone c = None"
  shows "fst ` set results = bc_correlation_id ` set checks \<and>
         (\<forall>check\<in>set checks.
            map_of results (bc_correlation_id check) = Some (run (check_params storeID consistency check)))"
proof (intro conjI ballI)
  show "fst ` set results = bc_correlation_id ` set checks"
    by (rule BatchCheckQuery_Execute_results(1) [OF assms(1)])
next
  fix check assume check: "check \<in> set checks"
  define same where "same = filter (\<lambda>c. generateCacheKeyFromCheck FormatFloat Sum64 c storeID modelID =
                                      generateCacheKeyFromCheck FormatFloat Sum64 check storeID modelID) checks"
  have "check \<in> set same" using check by (simp add: same_def)
  then have "hd same \<in> set same" by (cases same) auto
  then have "check_outcome ctxDone run storeID consistency (hd same) = run (check_params storeID consistency check)"
    using assms(2) [of "hd same" check] assms(3) check by (auto simp: same_def check_outcome_def)
  then show "map_of results (bc_correlation_id check) = Some (run (check_params storeID consistency check))"
    using BatchCheckQuery_Execute_results(2) [OF assms(1) check] by (simp add: same_def)
qed

definition example_item :: "string \<Rightarrow> string \<Rightarrow> pstruct option \<Rightarrow> BatchCheckItem" where
  "example_item user i context =
     \<lparr>bc_tuple_key = \<lparr>tk_object = ''doc:1'', tk_relation = ''viewer'', tk_user = user\<rparr>,
      bc_contextual_tuples = [], bc_context = context, bc_correlation_id = i\<rparr>"

lemma example_item_simps [simp]:
  "bc_correlation_id (example_item user i context) = i"
  "tk_user (bc_tuple_key (example_item user i context)) = user"
  "bc_context (example_item user i context) = context"
  by (simp_all add: example_item_def)

lemma example_item_key:
  "generateCacheKeyFromCheck FormatFloat length (example_item user i None) ''s'' ''m'' = Inr (utoa (20 + length user))"
  by (simp add: generateCacheKeyFromCheck_def example_item_def WriteCheckCacheKey_def WriteInvariantCheckCacheKey_def
      Tuple_String_def NewTupleKey_def writeStruct_def numeral_eq_Suc)

theorem BatchCheck_outcomes_witness:
  "let run = (\<lambda>p. Inr (tk_user (cp_TupleKey p)));
       checks = [example_item ''user:a'' ''1'' None, example_item ''user:bb'' ''2'' None, example_item ''user:a'' ''3'' None];
       results = [(''1'', Inr ''user:a''), (''3'', Inr ''user:a''), (''2'', Inr ''user:bb'')]
   in BatchCheckQuery_Execute 50 (\<lambda>_. []) (\<lambda>_. []) length (\<lambda>_. None) run ''s'' ''m'' 0 checks = Inr results \<and>
      (\<forall>check\<in>set checks. map_of results (bc_correlation_id check) = Some (run (check_params ''s'' 0 check)))"
proof -
  let ?run = "\<lambda>p. Inr (tk_user (cp_TupleKey p))"
  let ?checks = "[example_item ''user:a'' ''1'' None, example_item ''user:bb'' ''2'' None, example_item ''user:a'' ''3'' None]"
  have e: "BatchCheckQuery_Execute 50 (\<lambda>_. []) (\<lambda>_. []) length (\<lambda>_. None) ?run ''s'' ''m'' 0 ?checks =
             Inr [(''1'', Inr ''user:a''), (''3'', Inr ''user:a''), (''2'', Inr ''user:bb'')]"
    by (simp add: BatchCheckQuery_Execute_def example_item_key add_check_def check_params_def utoa.simps digit_char_def)
  have k: "utoa 26 \<noteq> utoa 27" by (simp add: utoa.simps digit_char_def)
  have p: "check_params ''s'' 0 c = check_params ''s'' 0 c'"
    if "c \<in> set ?checks" "c' \<in> set ?checks" "generateCacheKeyFromCheck (\<lambda>_. []) length c ''s'' ''m'' =
          generateCacheKeyFromCheck (\<lambda>_. []) length c' ''s'' ''m''" for c c'
    using that k by (auto simp: example_item_key) (simp_all add: check_params_def example_item_def)
  show ?thesis
    using e BatchCheck_outcomes [OF e p] by (simp only: Let_def) blast
qed

text \<open>
  C36: two checks that differ only in their contexts can share a key, since the strings of a context are written as they
  are: with any hash function, the outcome of the second check is that of the first, and it is not run.
\<close>

theorem BatchCheck_confuses_contexts:
  fixes run :: "CheckCommandParams \<Rightarrow> (command_error, ResolveCheckResponse) result"
  defines "first \<equiv> example_item ''user:a'' ''1'' (Some [(''x'', StringValue (''1,'' @ [CHR 0x27] @ ''y:'' @ [CHR 0x27] @ ''2''))])"
    and "second \<equiv> example_item ''user:a'' ''2'' (Some [(''x'', StringValue ''1''), (''y'', StringValue ''2'')])"
  shows "BatchCheckQuery_Execute 50 String FormatFloat Sum64 (\<lambda>_. None) run ''s'' ''m'' 0 [first, second] =
           Inr [(''1'', run (check_params ''s'' 0 first)), (''2'', run (check_params ''s'' 0 first))]"
proof -
  have "writeStruct FormatFloat (bc_context first) = writeStruct FormatFloat (bc_context second)"
    using writeStruct_collision [of "''x''" "''y''" FormatFloat "''1''" "''2''"]
    by (simp add: first_def second_def example_item_def)
  moreover have "\<exists>s. writeStruct FormatFloat (bc_context second) = Inr s"
    by (simp add: second_def example_item_def writeStruct_def)
  ultimately obtain key where "generateCacheKeyFromCheck FormatFloat Sum64 first ''s'' ''m'' = Inr key"
    "generateCacheKeyFromCheck FormatFloat Sum64 second ''s'' ''m'' = Inr key"
    by (auto simp: generateCacheKeyFromCheck_def WriteCheckCacheKey_def WriteInvariantCheckCacheKey_def
        first_def second_def example_item_def)
  then show ?thesis
    by (simp add: BatchCheckQuery_Execute_def add_check_def first_def second_def)
qed

section \<open>How old a cached response can be\<close>

text \<open>
  A sequence of requests to the cached resolver, each with the moment at which its evaluation starts and the moment at
  which it ends. The delegate is given the moment at which it reads the tuples.
\<close>

fun serve ::
  "(string \<Rightarrow> nat) \<Rightarrow> (int \<Rightarrow> ResolveCheckRequest \<Rightarrow> outcome option) \<Rightarrow> (int \<times> int \<times> ResolveCheckRequest) list \<Rightarrow>
   (string \<rightharpoonup> CheckResponseCacheEntry) \<Rightarrow> (int \<times> int \<times> ResolveCheckRequest \<times> outcome option) list" where
  "serve Sum64 delegate [] cache = []"
| "serve Sum64 delegate ((start, now, req) # calls) cache =
     (case cached_ResolveCheck Sum64 now (delegate start) cache req of
        None \<Rightarrow> (start, now, req, None) # serve Sum64 delegate calls cache
      | Some (out, cache') \<Rightarrow> (start, now, req, Some out) # serve Sum64 delegate calls cache')"

text \<open>An entry holds what was true at a moment not much older than its time stamp.\<close>

definition recent_cache ::
  "(string \<Rightarrow> nat) \<Rightarrow> (int \<Rightarrow> ResolveCheckRequest \<Rightarrow> bool) \<Rightarrow> ResolveCheckRequest set \<Rightarrow> int \<Rightarrow>
   (string \<rightharpoonup> CheckResponseCacheEntry) \<Rightarrow> bool" where
  "recent_cache Sum64 truth R D cache \<longleftrightarrow>
     (\<forall>req\<in>R. \<forall>entry. cache (BuildCacheKey Sum64 req) = Some entry \<longrightarrow>
        (\<exists>t. ce_LastModified entry \<le> t + D \<and> Allowed (ce_CheckResponse entry) = truth t req))"

lemma cached_ResolveCheck_cases:
  assumes "cached_ResolveCheck Sum64 now delegate cache req = Some (out, cache')"
  obtains (hit) entry where "rq_Consistency req \<noteq> HIGHER_CONSISTENCY" "cache (BuildCacheKey Sum64 req) = Some entry"
      "ce_LastModified entry > rq_LastCacheInvalidationTime req" "out = Inr (ce_CheckResponse entry)" "cache' = cache"
    | (unchanged) "delegate req = Some out" "cache' = cache"
    | (stored) resp where "delegate req = Some (Inr resp)" "out = Inr resp" "\<not> GetCycleDetected resp"
      "cache' = cache(BuildCacheKey Sum64 req \<mapsto> \<lparr>ce_LastModified = now, ce_CheckResponse = resp\<rparr>)"
proof (cases "\<exists>entry. rq_Consistency req \<noteq> HIGHER_CONSISTENCY \<and> cache (BuildCacheKey Sum64 req) = Some entry \<and>
                ce_LastModified entry > rq_LastCacheInvalidationTime req")
  case True
  then obtain entry where e: "rq_Consistency req \<noteq> HIGHER_CONSISTENCY" "cache (BuildCacheKey Sum64 req) = Some entry"
    "ce_LastModified entry > rq_LastCacheInvalidationTime req" by blast
  then have "out = Inr (ce_CheckResponse entry)" "cache' = cache" using assms by (simp_all add: cached_ResolveCheck_def)
  with e show ?thesis by (rule hit)
next
  case False
  then have miss: "(if rq_Consistency req \<noteq> HIGHER_CONSISTENCY
                    then (case cache (BuildCacheKey Sum64 req) of
                            Some res \<Rightarrow> if ce_LastModified res > rq_LastCacheInvalidationTime req
                                        then Some (ce_CheckResponse res) else None
                          | None \<Rightarrow> None)
                    else None) = None"
    by (auto split: option.splits)
  show ?thesis
  proof (cases "\<exists>resp. delegate req = Some (Inr resp) \<and> \<not> GetCycleDetected resp")
    case True
    then obtain resp where r: "delegate req = Some (Inr resp)" "\<not> GetCycleDetected resp" by blast
    then show ?thesis
      using assms by (intro stored [OF r(1) _ r(2)]) (simp_all add: cached_ResolveCheck_def Let_def miss)
  next
    case False
    then have "delegate req = Some out \<and> cache' = cache"
      using assms by (auto simp: cached_ResolveCheck_def Let_def miss split: option.splits sum.splits if_splits)
    then show ?thesis by (intro unchanged) simp_all
  qed
qed

lemma recent_cache_step:
  assumes step: "cached_ResolveCheck Sum64 now (delegate start) cache req = Some (out, cache')"
    and cache: "recent_cache Sum64 truth R D cache" and req: "req \<in> R" "now \<le> start + D"
    and right: "\<And>t req resp. req \<in> R \<Longrightarrow> delegate t req = Some (Inr resp) \<Longrightarrow> \<not> GetCycleDetected resp \<Longrightarrow>
                  Allowed resp = truth t req"
    and keys: "\<And>t r r'. r \<in> R \<Longrightarrow> r' \<in> R \<Longrightarrow> BuildCacheKey Sum64 r = BuildCacheKey Sum64 r' \<Longrightarrow> truth t r = truth t r'"
  shows "recent_cache Sum64 truth R D cache'"
  using step
proof (cases rule: cached_ResolveCheck_cases)
  case (stored resp)
  show ?thesis
    unfolding recent_cache_def
  proof (intro ballI allI impI)
    fix r entry assume r: "r \<in> R" "cache' (BuildCacheKey Sum64 r) = Some entry"
    show "\<exists>t. ce_LastModified entry \<le> t + D \<and> Allowed (ce_CheckResponse entry) = truth t r"
    proof (cases "BuildCacheKey Sum64 r = BuildCacheKey Sum64 req")
      case True
      then have "entry = \<lparr>ce_LastModified = now, ce_CheckResponse = resp\<rparr>" using r stored(4) by simp
      then show ?thesis
        using right [OF req(1) stored(1,3)] keys [OF r(1) req(1) True, of start] req(2) by auto
    next
      case False
      then show ?thesis using r stored(4) cache by (simp add: recent_cache_def)
    qed
  qed
qed (use cache in simp_all)

lemma cached_ResolveCheck_recent:
  assumes "cached_ResolveCheck Sum64 now (delegate start) cache req = Some (Inr resp, cache')"
    and "recent_cache Sum64 truth R D cache" "req \<in> R" "\<not> GetCycleDetected resp"
    and right: "\<And>t req resp. req \<in> R \<Longrightarrow> delegate t req = Some (Inr resp) \<Longrightarrow> \<not> GetCycleDetected resp \<Longrightarrow>
                  Allowed resp = truth t req"
  shows "\<exists>t. Allowed resp = truth t req \<and>
           (t = start \<or> rq_Consistency req \<noteq> HIGHER_CONSISTENCY \<and> rq_LastCacheInvalidationTime req < t + D)"
  using assms(1)
proof (cases rule: cached_ResolveCheck_cases)
  case (hit entry)
  then obtain t where "ce_LastModified entry \<le> t + D" "Allowed (ce_CheckResponse entry) = truth t req"
    using assms(2,3) by (auto simp: recent_cache_def)
  then show ?thesis using hit by (intro exI [of _ t]) auto
next
  case unchanged
  then show ?thesis using right [OF assms(3) _ assms(4)] by blast
next
  case (stored resp')
  then show ?thesis using right [OF assms(3) stored(1,3)] by auto
qed

lemma serve_recent:
  assumes "(start, now, req, Some (Inr resp)) \<in> set (serve Sum64 delegate calls cache)"
    and "recent_cache Sum64 truth R D cache"
    and "\<And>s e r. (s, e, r) \<in> set calls \<Longrightarrow> r \<in> R \<and> e \<le> s + D"
    and right: "\<And>t req resp. req \<in> R \<Longrightarrow> delegate t req = Some (Inr resp) \<Longrightarrow> \<not> GetCycleDetected resp \<Longrightarrow>
                  Allowed resp = truth t req"
    and keys: "\<And>t r r'. r \<in> R \<Longrightarrow> r' \<in> R \<Longrightarrow> BuildCacheKey Sum64 r = BuildCacheKey Sum64 r' \<Longrightarrow> truth t r = truth t r'"
    and "\<not> GetCycleDetected resp"
  shows "\<exists>t. Allowed resp = truth t req \<and>
           (t = start \<or> rq_Consistency req \<noteq> HIGHER_CONSISTENCY \<and> rq_LastCacheInvalidationTime req < t + D)"
  using assms(1-3)
proof (induction calls arbitrary: cache)
  case (Cons call calls)
  obtain s e r where call: "call = (s, e, r)" by (cases call) auto
  have r: "r \<in> R" "e \<le> s + D" using Cons.prems(3) [of s e r] call by auto
  have rest: "\<And>s e r. (s, e, r) \<in> set calls \<Longrightarrow> r \<in> R \<and> e \<le> s + D"
    by (rule Cons.prems(3)) simp
  show ?case
  proof (cases "cached_ResolveCheck Sum64 e (delegate s) cache r")
    case None
    then show ?thesis using Cons.IH [OF _ Cons.prems(2) rest] Cons.prems(1) call by simp
  next
    case (Some res)
    obtain out cache' where res: "res = (out, cache')" by (cases res)
    note step = Some [unfolded res]
    consider "(start, now, req, Inr resp) = (s, e, r, out)"
      | "(start, now, req, Some (Inr resp)) \<in> set (serve Sum64 delegate calls cache')"
      using Cons.prems(1) call step by auto
    then show ?thesis
    proof cases
      case 1
      then have "cached_ResolveCheck Sum64 e (delegate start) cache req = Some (Inr resp, cache')" "req \<in> R"
        using step r by simp_all
      from cached_ResolveCheck_recent [where delegate = delegate, OF this(1) Cons.prems(2) this(2) assms(6)] right
      show ?thesis by blast
    next
      case 2
      have "recent_cache Sum64 truth R D cache'"
        using right keys by (rule recent_cache_step [where delegate = delegate, OF step Cons.prems(2) r]) 
      then show ?thesis using Cons.IH [OF 2 _ rest] by simp
    qed
  qed
qed simp


definition example_request :: "int \<Rightarrow> ResolveCheckRequest" where
  "example_request invalidation =
     \<lparr>rq_StoreID = ''s'', rq_AuthorizationModelID = ''m'', rq_TupleKey = NewTupleKey ''doc:1'' ''viewer'' ''user:a'',
      rq_ContextualTuples = [], rq_Context = None, rq_Depth = 0, rq_VisitedPaths = [], rq_Consistency = 0,
      rq_LastCacheInvalidationTime = invalidation, rq_invariantCacheKey = '' sp.s/m''\<rparr>"

lemma serve_example:
  assumes "\<not> GetCycleDetected resp"
  shows "serve Sum64 (\<lambda>t req. Some (Inr (resp\<lparr>Allowed := t < 10\<rparr>))) [(5, 12, example_request 0), (20, 21, example_request 11)] Map.empty =
    [(5, 12, example_request 0, Some (Inr (resp\<lparr>Allowed := True\<rparr>))),
     (20, 21, example_request 11, Some (Inr (resp\<lparr>Allowed := True\<rparr>)))]"
  using assms by (simp add: cached_ResolveCheck_def BuildCacheKey_def example_request_def HIGHER_CONSISTENCY_def GetCycleDetected_def)


end
