(* ===== verification/Server.thy ===== *)
theory Server
  imports Authz CheckCommand
begin

text \<open>
  The handlers of the API (\<^verbatim>\<open>pkg/server\<close>) and the resolution of type systems (\<^verbatim>\<open>pkg/typesystem/resolver.go\<close>): validation
  of the message, access control, resolution of the model, and the command. The validation of messages is generated
  code of the API and an argument, as is \<^verbatim>\<open>ListObjects\<close>. Metrics, traces and response headers are left out. An outer
  \<open>None\<close> is a panic or a check that does not return.
\<close>

section \<open>The server and its state\<close>

text \<open>
  The configuration. An absent \<^verbatim>\<open>authorizer\<close> is the \<^verbatim>\<open>NoopAuthorizer\<close>. The last five components are what a check takes
  from its environment, and the hash and number formatting functions.
\<close>

record ('s, 'r, 'c) Server =
  sv_datastore :: "'s OpenFGADatastore"
  sv_reader :: "'s \<Rightarrow> 'r RelationshipTupleReader"
  sv_checkResolver :: "TypeSystem \<Rightarrow> (tuple list + 'r) combined_state RelationshipTupleReader \<Rightarrow> ResolveCheckRequest \<Rightarrow> outcome option"
  sv_library :: "'c library"
  sv_ulid_Parse :: "string \<Rightarrow> bool"
  sv_encoder :: Encoder
  sv_authorizer :: "AuthorizerConfig option"
  sv_GetModule :: "type_definition \<Rightarrow> string \<Rightarrow> (err, string) result"
  sv_ListObjects :: "'s \<Rightarrow> ListObjectsRequest \<Rightarrow> (server_error, string list) result"
  sv_conditionContextByteLimit :: int
  sv_maxAuthorizationModelSizeInBytes :: int
  sv_maxChecksPerBatchCheck :: nat
  sv_changelogHorizonOffset :: int
  sv_ulid_at :: "int \<Rightarrow> (err, string) result"
  sv_ValidateCheck :: "CheckRequest \<Rightarrow> err option"
  sv_ValidateWrite :: "WriteRequest \<Rightarrow> err option"
  sv_ValidateModel :: "WriteAuthorizationModelRequest \<Rightarrow> err option"
  sv_DetermineInvalidationTime :: "string \<Rightarrow> int"
  sv_WasThrottled :: "ResolveCheckRequest \<Rightarrow> bool"
  sv_endTime :: "ResolveCheckRequest \<Rightarrow> int"
  sv_DatastoreQueryCount :: "ResolveCheckRequest \<Rightarrow> 32 word"
  sv_FormatFloat :: "64 word \<Rightarrow> string"
  sv_Sum64 :: "string \<Rightarrow> nat"
  sv_TupleKey_String :: "tuple_key_nc \<Rightarrow> string"

text \<open>The state of the datastore and the type systems that have been resolved.\<close>

record 's server_state =
  ss_store :: 's
  ss_typesystems :: "string \<rightharpoonup> TypeSystem"

section \<open>Type systems\<close>

text \<open>The type system with the given key from the cache, or that of the model, which is validated and kept.\<close>

definition cached_typesystem ::
  "('s, 'r, 'c) Server \<Rightarrow> 's server_state \<Rightarrow> string \<Rightarrow> (err, authorization_model) result \<Rightarrow>
   ((err, TypeSystem) result \<times> 's server_state) option" where
  "cached_typesystem srv st key load =
     (case ss_typesystems st key of
        Some item \<Rightarrow> Some (Inr item, st)
      | None \<Rightarrow>
          (case load of
             Inl e \<Rightarrow> Some (Inl e, st)
           | Inr model \<Rightarrow>
               (case lib_NewAndValidate (sv_library srv) model of
                  None \<Rightarrow> None
                | Some (Inl e) \<Rightarrow> Some (Inl (ErrWrap [] ErrInvalidModel), st)
                | Some (Inr typesys) \<Rightarrow>
                    Some (Inr typesys, st\<lparr>ss_typesystems := (ss_typesystems st)(key \<mapsto> typesys)\<rparr>))))"

definition model_error :: "string \<Rightarrow> err \<Rightarrow> err" where
  "model_error msg e = (if errors_Is e ErrNotFound then ErrModelNotFound else ErrWrap msg e)"

definition MemoizedTypesystemResolverFunc ::
  "('s, 'r, 'c) Server \<Rightarrow> 's server_state \<Rightarrow> string \<Rightarrow> string \<Rightarrow> ((err, TypeSystem) result \<times> 's server_state) option" where
  "MemoizedTypesystemResolverFunc srv st storeID modelID =
     (if modelID \<noteq> [] \<and> \<not> sv_ulid_Parse srv modelID then Some (Inl ErrModelNotFound, st)
      else if modelID = []
      then (case ds_FindLatestAuthorizationModel (sv_datastore srv) (ss_store st) storeID of
              Inl e \<Rightarrow> Some (Inl (model_error ''failed to FindLatestAuthorizationModel: '' e), st)
            | Inr model \<Rightarrow> cached_typesystem srv st (storeID @ ''/'' @ am_id model) (Inr model))
      else cached_typesystem srv st (storeID @ ''/'' @ modelID)
             (map_sum (model_error ''failed to ReadAuthorizationModel: '') id
                (ds_ReadAuthorizationModel (sv_datastore srv) (ss_store st) storeID modelID)))"

definition resolveTypesystem ::
  "('s, 'r, 'c) Server \<Rightarrow> 's server_state \<Rightarrow> string \<Rightarrow> string \<Rightarrow> ((server_error, TypeSystem) result \<times> 's server_state) option" where
  "resolveTypesystem srv st storeID modelID =
     (case MemoizedTypesystemResolverFunc srv st storeID modelID of
        None \<Rightarrow> None
      | Some (Inl e, st) \<Rightarrow>
          Some (Inl (if errors_Is e ErrModelNotFound
                     then if modelID = [] then LatestAuthorizationModelNotFound storeID
                          else AuthorizationModelNotFound modelID
                     else if errors_Is e ErrInvalidModel then ValidationError e
                     else HandleError [] e), st)
      | Some (Inr typesys, st) \<Rightarrow> Some (Inr typesys, st))"

section \<open>Checks\<close>

definition check_query :: "('s, 'r, 'c) Server \<Rightarrow> 's \<Rightarrow> TypeSystem \<Rightarrow> 'r CheckQuery" where
  "check_query srv s typesys =
     \<lparr>cq_typesys = typesys, cq_datastore = sv_reader srv s, cq_checkResolver = sv_checkResolver srv,
      cq_stdlib = lib_stdlib (sv_library srv), cq_FormatFloat = sv_FormatFloat srv,
      cq_DetermineInvalidationTime = sv_DetermineInvalidationTime srv, cq_WasThrottled = sv_WasThrottled srv,
      cq_endTime = sv_endTime srv, cq_DatastoreQueryCount = sv_DatastoreQueryCount srv\<rparr>"

definition invalid :: "RequestContext \<Rightarrow> err option \<Rightarrow> server_error option" where
  "invalid cx v = (if rc_RequestIsValidated cx then None else map_option (Status InvalidArgument) v)"

text \<open>\<^verbatim>\<open>Server.Check\<close> after the access control.\<close>

definition check_authorized ::
  "('s, 'r, 'c) Server \<Rightarrow> RequestContext \<Rightarrow> 's server_state \<Rightarrow> CheckRequest \<Rightarrow> ((server_error, bool) result \<times> 's server_state) option" where
  "check_authorized srv cx st req =
     (case invalid cx (sv_ValidateCheck srv req) of
        Some e \<Rightarrow> Some (Inl e, st)
      | None \<Rightarrow>
          (case resolveTypesystem srv st (crq_store_id req) (crq_authorization_model_id req) of
             None \<Rightarrow> None
           | Some (Inl e, st) \<Rightarrow> Some (Inl e, st)
           | Some (Inr typesys, st) \<Rightarrow>
               (case CheckQuery_Execute (check_query srv (ss_store st) typesys)
                       \<lparr>cp_StoreID = crq_store_id req, cp_TupleKey = crq_tuple_key req,
                        cp_ContextualTuples = crq_contextual_tuples req, cp_Context = crq_context req,
                        cp_Consistency = crq_consistency req\<rparr> of
                  None \<Rightarrow> None
                | Some (Inl e) \<Rightarrow> Some (Inl (CheckCommandErrorToServerError e), st)
                | Some (Inr resp) \<Rightarrow> Some (Inr (Allowed resp), st))))"

section \<open>Access control\<close>

definition ErrUnauthorizedResponse :: server_error where
  "ErrUnauthorizedResponse = Status forbidden (ErrText ''the principal is not authorized to perform the action'')"

text \<open>
  The server as the authorizer sees it. Its calls skip the access control; the type systems that they resolve are not
  kept.
\<close>

definition own_server :: "('s, 'r, 'c) Server \<Rightarrow> 's server_state \<Rightarrow> ServerInterface" where
  "own_server srv st =
     \<lparr>si_Check = (\<lambda>cx req. map_option fst (check_authorized srv cx st req)),
      si_ListObjects = (\<lambda>cx req. sv_ListObjects srv (ss_store st) req)\<rparr>"

definition checkAuthz ::
  "('s, 'r, 'c) Server \<Rightarrow> RequestContext \<Rightarrow> 's server_state \<Rightarrow> string \<Rightarrow> APIMethod \<Rightarrow> string list \<Rightarrow> server_error option option" where
  "checkAuthz srv cx st storeID apiMethod modules =
     (if rc_SkipAuthzCheck cx then Some None
      else (case sv_authorizer srv of
              None \<Rightarrow> Some None
            | Some a \<Rightarrow>
                map_option (map_option (\<lambda>_. ErrUnauthorizedResponse))
                  (Authorize a (own_server srv st) cx storeID apiMethod modules)))"

definition checkCreateStoreAuthz :: "('s, 'r, 'c) Server \<Rightarrow> RequestContext \<Rightarrow> 's server_state \<Rightarrow> server_error option option" where
  "checkCreateStoreAuthz srv cx st =
     (if rc_SkipAuthzCheck cx then Some None
      else (case sv_authorizer srv of
              None \<Rightarrow> Some None
            | Some a \<Rightarrow> map_option (map_option (\<lambda>_. ErrUnauthorizedResponse)) (AuthorizeCreateStore a (own_server srv st) cx)))"

definition getAccessibleStores ::
  "('s, 'r, 'c) Server \<Rightarrow> RequestContext \<Rightarrow> 's server_state \<Rightarrow> (server_error, string list) result option" where
  "getAccessibleStores srv cx st =
     (if rc_SkipAuthzCheck cx then Some (Inr [])
      else (case sv_authorizer srv of
              None \<Rightarrow> Some (Inr [])
            | Some a \<Rightarrow>
                (case AuthorizeListStores a (own_server srv st) cx of
                   None \<Rightarrow> None
                 | Some (Some e) \<Rightarrow> Some (Inl ErrUnauthorizedResponse)
                 | Some None \<Rightarrow>
                     (case ListAuthorizedStores a (own_server srv st) cx of
                        Inl e \<Rightarrow> Some (Inl ErrUnauthorizedResponse)
                      | Inr stores \<Rightarrow> Some (Inr stores)))))"

definition checkWriteAuthz ::
  "('s, 'r, 'c) Server \<Rightarrow> RequestContext \<Rightarrow> 's server_state \<Rightarrow> WriteRequest \<Rightarrow> TypeSystem \<Rightarrow> server_error option option" where
  "checkWriteAuthz srv cx st req typesys =
     (if rc_SkipAuthzCheck cx then Some None
      else (case (case sv_authorizer srv of
                    None \<Rightarrow> Inr []
                  | Some a \<Rightarrow> GetModulesForWriteRequest (sv_GetModule srv) req typesys) of
              Inl e \<Rightarrow> Some (Some ErrUnauthorizedResponse)
            | Inr modules \<Rightarrow> checkAuthz srv cx st (wr_store_id req) ApiWrite modules))"

section \<open>The handlers of checks and writes\<close>

definition Server_Check ::
  "('s, 'r, 'c) Server \<Rightarrow> RequestContext \<Rightarrow> 's server_state \<Rightarrow> CheckRequest \<Rightarrow> ((server_error, bool) result \<times> 's server_state) option" where
  "Server_Check srv cx st req =
     (case checkAuthz srv cx st (crq_store_id req) ApiCheck [] of
        None \<Rightarrow> None
      | Some (Some e) \<Rightarrow> Some (Inl e, st)
      | Some None \<Rightarrow> check_authorized srv cx st req)"

definition Server_Write ::
  "('s, 'r, 'c) Server \<Rightarrow> RequestContext \<Rightarrow> 's server_state \<Rightarrow> WriteRequest \<Rightarrow> ((server_error, unit) result \<times> 's server_state) option" where
  "Server_Write srv cx st req =
     (case invalid cx (sv_ValidateWrite srv req) of
        Some e \<Rightarrow> Some (Inl e, st)
      | None \<Rightarrow>
          (case resolveTypesystem srv st (wr_store_id req) (wr_authorization_model_id req) of
             None \<Rightarrow> None
           | Some (Inl e, st) \<Rightarrow> Some (Inl e, st)
           | Some (Inr typesys, st) \<Rightarrow>
               (case checkWriteAuthz srv cx st req typesys of
                  None \<Rightarrow> None
                | Some (Some e) \<Rightarrow> Some (Inl e, st)
                | Some None \<Rightarrow>
                    (case WriteCommand_Execute (sv_library srv)
                            \<lparr>wc_datastore = sv_datastore srv, wc_conditionContextByteLimit = sv_conditionContextByteLimit srv\<rparr>
                            (ss_store st) (req\<lparr>wr_authorization_model_id := ts_modelID typesys\<rparr>) of
                       None \<Rightarrow> None
                     | Some (Inl e) \<Rightarrow> Some (Inl e, st)
                     | Some (Inr s) \<Rightarrow> Some (Inr (), st\<lparr>ss_store := s\<rparr>)))))"

text \<open>The result of a check in a batch, and its error with a code of the API.\<close>

datatype check_error = InputError status_code command_error | InternalCheckError status_code command_error

definition transformCheckCommandErrorToBatchCheckError :: "command_error \<Rightarrow> check_error" where
  "transformCheckCommandErrorToBatchCheckError cmdErr =
     (let e = command_cause cmdErr
      in case cmdErr of
           CommandInvalidRelationError _ \<Rightarrow> InputError validation_error cmdErr
         | CommandInvalidTupleError _ \<Rightarrow> InputError invalid_tuple cmdErr
         | _ \<Rightarrow>
             if errors_Is e ErrResolutionDepthExceeded then InputError authorization_model_resolution_too_complex cmdErr
             else if errors_Is e ErrEvaluationFailed then InputError validation_error cmdErr
             else (case cmdErr of
                     ThrottledError _ \<Rightarrow> InputError validation_error cmdErr
                   | _ \<Rightarrow> if errors_Is e DeadlineExceeded then InternalCheckError deadline_exceeded cmdErr
                          else InternalCheckError internal_error cmdErr))"

definition transformCheckResultToProto :: "(command_error, ResolveCheckResponse) result \<Rightarrow> (check_error, bool) result" where
  "transformCheckResultToProto r = map_sum transformCheckCommandErrorToBatchCheckError Allowed r"

record BatchCheckRequest =
  bcr_store_id :: string
  bcr_authorization_model_id :: string
  bcr_checks :: "BatchCheckItem list"
  bcr_consistency :: nat

text \<open>
  Every check of the batch is a check command. A panic in one of them is a panic of the handler, so that the batch has a result
  only if all return; \<open>ctxDone\<close> says which checks find the context done.
\<close>

definition Server_BatchCheck ::
  "('s, 'r, 'c) Server \<Rightarrow> RequestContext \<Rightarrow> err option \<Rightarrow> (BatchCheckItem \<Rightarrow> err option) \<Rightarrow> 's server_state \<Rightarrow> BatchCheckRequest \<Rightarrow>
   ((server_error, (string \<times> (check_error, bool) result) list) result \<times> 's server_state) option" where
  "Server_BatchCheck srv cx v ctxDone st req =
     (case invalid cx v of
        Some e \<Rightarrow> Some (Inl e, st)
      | None \<Rightarrow>
          (case checkAuthz srv cx st (bcr_store_id req) ApiBatchCheck [] of
             None \<Rightarrow> None
           | Some (Some e) \<Rightarrow> Some (Inl e, st)
           | Some None \<Rightarrow>
               (case resolveTypesystem srv st (bcr_store_id req) (bcr_authorization_model_id req) of
                  None \<Rightarrow> None
                | Some (Inl e, st) \<Rightarrow> Some (Inl e, st)
                | Some (Inr typesys, st) \<Rightarrow>
                    (let run = CheckQuery_Execute (check_query srv (ss_store st) typesys)
                     in case BatchCheckQuery_Execute (sv_maxChecksPerBatchCheck srv) (sv_TupleKey_String srv)
                               (sv_FormatFloat srv) (sv_Sum64 srv) ctxDone
                               (\<lambda>p. case run p of Some (Inl e) \<Rightarrow> Inl e | Some (Inr resp) \<Rightarrow> Inr (Some resp) | None \<Rightarrow> Inr None)
                               (bcr_store_id req) (ts_modelID typesys) (bcr_consistency req) (bcr_checks req) of
                          Inl (BatchCheckValidationError m) \<Rightarrow> Some (Inl (ValidationError (ErrText m)), st)
                        | Inl (BatchError e) \<Rightarrow> Some (Inl (Plain e), st)
                        | Inr results \<Rightarrow>
                            if Inr None \<in> snd ` set results then None
                            else Some (Inr (map (\<lambda>(i, r). (i, transformCheckResultToProto (map_sum id the r))) results), st)))))"

section \<open>The other handlers\<close>

text \<open>A handler that validates, checks the access to a store and runs a command.\<close>

definition guarded ::
  "('s, 'r, 'c) Server \<Rightarrow> RequestContext \<Rightarrow> err option \<Rightarrow> 's server_state \<Rightarrow> string \<Rightarrow> APIMethod \<Rightarrow>
   ((server_error, 'a) result \<times> 's server_state) option \<Rightarrow> ((server_error, 'a) result \<times> 's server_state) option" where
  "guarded srv cx v st storeID apiMethod run =
     (case invalid cx v of
        Some e \<Rightarrow> Some (Inl e, st)
      | None \<Rightarrow>
          (case checkAuthz srv cx st storeID apiMethod [] of
             None \<Rightarrow> None
           | Some (Some e) \<Rightarrow> Some (Inl e, st)
           | Some None \<Rightarrow> run))"

definition Server_Read where
  "Server_Read srv cx v st req =
     guarded srv cx v st (rdr_store_id req) ApiRead
       (map_option (\<lambda>r. (r, st)) (ReadQuery_Execute (sv_encoder srv) (sv_datastore srv) (ss_store st) req))"

definition Server_ReadChanges where
  "Server_ReadChanges srv cx v st req =
     guarded srv cx v st (rcr_store_id req) ApiReadChanges
       (Some (ReadChangesQuery_Execute (sv_ulid_at srv) (sv_encoder srv) (sv_changelogHorizonOffset srv)
                (sv_datastore srv) (ss_store st) req, st))"

definition Server_CreateStore ::
  "('s, 'r, 'c) Server \<Rightarrow> RequestContext \<Rightarrow> err option \<Rightarrow> string \<Rightarrow> 's server_state \<Rightarrow> string \<Rightarrow>
   ((server_error, store) result \<times> 's server_state) option" where
  "Server_CreateStore srv cx v newId st name =
     (case invalid cx v of
        Some e \<Rightarrow> Some (Inl e, st)
      | None \<Rightarrow>
          (case checkCreateStoreAuthz srv cx st of
             None \<Rightarrow> None
           | Some (Some e) \<Rightarrow> Some (Inl e, st)
           | Some None \<Rightarrow>
               (case CreateStoreCommand_Execute newId (sv_datastore srv) (ss_store st) name of
                  Inl e \<Rightarrow> Some (Inl e, st)
                | Inr (store, s) \<Rightarrow> Some (Inr store, st\<lparr>ss_store := s\<rparr>))))"

definition Server_DeleteStore where
  "Server_DeleteStore srv cx v st storeID =
     guarded srv cx v st storeID ApiDeleteStore
       (case DeleteStoreCommand_Execute (sv_datastore srv) (ss_store st) storeID of
          Inl e \<Rightarrow> Some (Inl e, st)
        | Inr s \<Rightarrow> Some (Inr (), st\<lparr>ss_store := s\<rparr>))"

definition Server_GetStore where
  "Server_GetStore srv cx v st storeID =
     guarded srv cx v st storeID ApiGetStore (Some (GetStoreQuery_Execute (sv_datastore srv) (ss_store st) storeID, st))"

definition Server_ListStores ::
  "('s, 'r, 'c) Server \<Rightarrow> RequestContext \<Rightarrow> err option \<Rightarrow> 's server_state \<Rightarrow> ListStoresRequest \<Rightarrow>
   ((server_error, store page) result \<times> 's server_state) option" where
  "Server_ListStores srv cx v st req =
     (case invalid cx v of
        Some e \<Rightarrow> Some (Inl e, st)
      | None \<Rightarrow>
          (case getAccessibleStores srv cx st of
             None \<Rightarrow> None
           | Some (Inl e) \<Rightarrow> Some (Inl e, st)
           | Some (Inr storeIDs) \<Rightarrow>
               map_option (\<lambda>r. (r, st))
                 (ListStoresQuery_Execute (sv_encoder srv) (sv_datastore srv) (ss_store st) req storeIDs)))"

definition Server_ReadAuthorizationModel where
  "Server_ReadAuthorizationModel srv cx v st storeID modelID =
     guarded srv cx v st storeID ApiReadAuthorizationModel
       (Some (ReadAuthorizationModelQuery_Execute (sv_datastore srv) (ss_store st) storeID modelID, st))"

definition Server_WriteAuthorizationModel where
  "Server_WriteAuthorizationModel srv cx newId st req =
     guarded srv cx (sv_ValidateModel srv req) st (wam_store_id req) ApiWriteAuthorizationModel
       (case WriteAuthorizationModelCommand_Execute (sv_library srv) (sv_maxAuthorizationModelSizeInBytes srv) newId
               (sv_datastore srv) (ss_store st) req of
          None \<Rightarrow> None
        | Some (Inl e) \<Rightarrow> Some (Inl e, st)
        | Some (Inr (modelID, s)) \<Rightarrow> Some (Inr modelID, st\<lparr>ss_store := s\<rparr>))"

definition Server_ReadAuthorizationModels where
  "Server_ReadAuthorizationModels srv cx v st storeID pageSize token =
     guarded srv cx v st storeID ApiReadAuthorizationModels
       (map_option (\<lambda>r. (r, st))
          (ReadAuthorizationModelsQuery_Execute (sv_encoder srv) (sv_datastore srv) (ss_store st) storeID pageSize token))"

definition Server_WriteAssertions where
  "Server_WriteAssertions srv cx v st storeID modelID assertions =
     guarded srv cx v st storeID ApiWriteAssertions
       (case resolveTypesystem srv st storeID modelID of
          None \<Rightarrow> None
        | Some (Inl e, st) \<Rightarrow> Some (Inl e, st)
        | Some (Inr typesys, st) \<Rightarrow>
            (case WriteAssertionsCommand_Execute (sv_library srv) DefaultMaxAssertionSizeInBytes (sv_datastore srv)
                    (ss_store st) storeID (ts_modelID typesys) assertions of
               None \<Rightarrow> None
             | Some (Inl e) \<Rightarrow> Some (Inl e, st)
             | Some (Inr s) \<Rightarrow> Some (Inr (), st\<lparr>ss_store := s\<rparr>)))"

definition Server_ReadAssertions where
  "Server_ReadAssertions srv cx v st storeID modelID =
     guarded srv cx v st storeID ApiReadAssertions
       (case resolveTypesystem srv st storeID modelID of
          None \<Rightarrow> None
        | Some (Inl e, st) \<Rightarrow> Some (Inl e, st)
        | Some (Inr typesys, st) \<Rightarrow>
            Some (ReadAssertionsQuery_Execute (sv_datastore srv) (ss_store st) storeID (ts_modelID typesys), st))"

end
