(* ===== verification/Service.thy ===== *)
theory Service
  imports Server
begin

text \<open>
  The server over the in-memory datastore as a whole: the states that the handlers can bring about, what holds in all
  of them, and what a check of the API decides.
\<close>

section \<open>Accepted models\<close>

text \<open>The names that the validation of API messages lets through.\<close>

definition valid_names :: "type_definition list \<Rightarrow> bool" where
  "valid_names tds \<longleftrightarrow>
     (\<forall>td\<in>set tds.
        (\<forall>(rel, rewrite)\<in>set (td_relations td). IsValidRelation rel) \<and>
        (\<forall>(rel, rm)\<in>set (case td_metadata td of None \<Rightarrow> [] | Some md \<Rightarrow> md).
           \<forall>ref\<in>set (directly_related_user_types rm).
             (case rr_ref ref of RelationRef rel' \<Rightarrow> IsValidRelation rel' | _ \<Rightarrow> True)))"

lemma wf_rewrite_leaves:
  assumes "\<And>l. l \<in> leaves w \<Longrightarrow> wf_rewrite l"
  shows "wf_rewrite w"
  using assms by (induction w rule: wf_rewrite.induct) auto

lemma accepted_wf_model:
  assumes ok: "NewAndValidate mk rv wt C model = Some (Inr t)" and names: "valid_names (am_type_definitions model)"
  shows "wf_model t"
proof -
  note new = NewAndValidate_cases(1) [OF ok]
  have ref: "\<forall>rel'. rr_ref ref = RelationRef rel' \<longrightarrow> IsValidRelation rel'"
    if "td \<in> set (am_type_definitions model)" "ref \<in> set (restrictions_of td rel)" for td rel ref
    using names that by (elim restrictions_in_metadata) (fastforce simp: valid_names_def)
  have nonempty: "\<not> IsValidRelation []" by (simp add: IsValidRelation_iff)
  have "consistent t" using ref nonempty by (intro NewTypeSystem_consistent [OF new]) blast
  moreover have valid: "IsValidRelation rel" if "TypeSystem.GetRelation t ot rel = Inr r" for ot rel r
    using NewTypeSystem_relation [OF new that] names unfolding valid_names_def by fast
  moreover have "wf_rewrite (rel_rewrite r)" if r: "TypeSystem.GetRelation t ot rel = Inr r" for ot rel r
  proof (rule wf_rewrite_leaves)
    fix l assume "l \<in> leaves (rel_rewrite r)"
    from accepted_leaves [OF ok r this] show "wf_rewrite l" using valid nonempty by (cases l) auto
  qed
  moreover have "GetTypeDefinition t (rr_type ref) \<noteq> None \<and> (\<forall>rel'. rr_ref ref = RelationRef rel' \<longrightarrow> IsValidRelation rel')"
    if r: "TypeSystem.GetRelation t ot rel = Inr r" and "ref \<in> set (rel_types r)" for ot rel r ref
    using accepted_restrictions [OF ok r that(2)] ref NewTypeSystem_relation [OF new r] that(2)
    unfolding restriction_defined_def by metis
  ultimately show ?thesis
    using NewAndValidate_cases(2) [OF ok] unfolding wf_model_def by blast
qed

section \<open>The states of the server\<close>

text \<open>
  A server over the in-memory datastore, with a library, ULIDs and a clock. The texts of ULIDs have no slash.
\<close>

definition memory_server ::
  "'c library \<Rightarrow> (string \<Rightarrow> ulid option) \<Rightarrow> (ulid \<Rightarrow> string) \<Rightarrow> int \<Rightarrow> (nat \<Rightarrow> ulid) \<Rightarrow>
   (MemoryBackend, TupleRecord list, 'c) Server \<Rightarrow> bool" where
  "memory_server L up us now mk srv \<longleftrightarrow>
     sv_datastore srv = memory_datastore up us now mk Live \<and> sv_reader srv = memory_reader \<and> sv_library srv = L \<and>
     (\<forall>m. sv_ulid_Parse srv m \<longrightarrow> CHR ''/'' \<notin> set m)"

text \<open>The clock and the ULIDs have advanced since the last changes.\<close>

definition advanced :: "MemoryBackend \<Rightarrow> int \<Rightarrow> (nat \<Rightarrow> ulid) \<Rightarrow> bool" where
  "advanced s now mk \<longleftrightarrow> strict_mono mk \<and>
     (\<forall>store. \<forall>c\<in>set (mb_changes s store). Ulid c < mk 0 \<and> tc_timestamp (Change c) \<le> now)"

definition stored_model :: "MemoryBackend \<Rightarrow> string \<Rightarrow> authorization_model \<Rightarrow> bool" where
  "stored_model s store m \<longleftrightarrow>
     (\<exists>tm entry. mb_authorizationModels s store = Some tm \<and> map_of tm (am_id m) = Some entry \<and> ame_model entry = m)"

text \<open>
  The states that calls of the API bring about, in any order. Entries of the cache of type systems can disappear at any
  time. The handlers that only read leave the state as it is, but for the cache.
\<close>

inductive served ::
  "'c library \<Rightarrow> (string \<Rightarrow> ulid option) \<Rightarrow> (ulid \<Rightarrow> string) \<Rightarrow> MemoryBackend server_state \<Rightarrow> bool" for L up us where
  served_start: "served L up us \<lparr>ss_store = New, ss_typesystems = Map.empty\<rparr>"
| served_evict: "served L up us st \<Longrightarrow> served L up us (st\<lparr>ss_typesystems := ss_typesystems st |` K\<rparr>)"
| served_check: "served L up us st \<Longrightarrow> memory_server L up us now mk srv \<Longrightarrow>
    Server_Check srv cx st req = Some (r, st') \<Longrightarrow> served L up us st'"
| served_write: "served L up us st \<Longrightarrow> memory_server L up us now mk srv \<Longrightarrow> advanced (ss_store st) now mk \<Longrightarrow>
    Server_Write srv cx st wreq = Some (w, st') \<Longrightarrow> served L up us st'"
| served_write_model: "served L up us st \<Longrightarrow> memory_server L up us now mk srv \<Longrightarrow> valid_names (wam_type_definitions mreq) \<Longrightarrow>
    newId \<noteq> [] \<Longrightarrow> CHR ''/'' \<notin> set newId \<Longrightarrow> (\<And>store m. stored_model (ss_store st) store m \<Longrightarrow> am_id m \<noteq> newId) \<Longrightarrow>
    Server_WriteAuthorizationModel srv cx newId st mreq = Some (i, st') \<Longrightarrow> served L up us st'"
| served_create_store: "served L up us st \<Longrightarrow> memory_server L up us now mk srv \<Longrightarrow>
    Server_CreateStore srv cx v newId st name = Some (c, st') \<Longrightarrow> served L up us st'"
| served_delete_store: "served L up us st \<Longrightarrow> memory_server L up us now mk srv \<Longrightarrow>
    Server_DeleteStore srv cx v st storeID = Some (d, st') \<Longrightarrow> served L up us st'"
| served_write_assertions: "served L up us st \<Longrightarrow> memory_server L up us now mk srv \<Longrightarrow>
    Server_WriteAssertions srv cx v st storeID modelID asserts = Some (a, st') \<Longrightarrow> served L up us st'"

section \<open>What holds in every state\<close>

definition sound_models :: "'c library \<Rightarrow> MemoryBackend \<Rightarrow> bool" where
  "sound_models L s \<longleftrightarrow>
     (\<forall>store tm i entry. mb_authorizationModels s store = Some tm \<longrightarrow> (i, entry) \<in> set tm \<longrightarrow>
        map_of tm i = Some entry \<and> am_id (ame_model entry) = i \<and> i \<noteq> [] \<and> CHR ''/'' \<notin> set i \<and>
        valid_names (am_type_definitions (ame_model entry)) \<and>
        (\<exists>t. lib_NewAndValidate L (ame_model entry) = Some (Inr t)))"

definition sound_cache :: "'c library \<Rightarrow> MemoryBackend server_state \<Rightarrow> bool" where
  "sound_cache L st \<longleftrightarrow>
     (\<forall>key t. ss_typesystems st key = Some t \<longrightarrow>
        (\<exists>store m. key = store @ ''/'' @ am_id m \<and> stored_model (ss_store st) store m \<and>
           lib_NewAndValidate L m = Some (Inr t)))"

definition sound_tuples :: "MemoryBackend \<Rightarrow> bool" where
  "sound_tuples s \<longleftrightarrow> (\<forall>store. \<forall>k\<in>memory_tuples s store. wf_tuple k)"

lemma stored_model_sound:
  assumes "sound_models L s" "stored_model s store m"
  shows "am_id m \<noteq> []" "CHR ''/'' \<notin> set (am_id m)" "valid_names (am_type_definitions m)" "\<exists>t. lib_NewAndValidate L m = Some (Inr t)"
  using assms unfolding stored_model_def sound_models_def by (meson map_of_SomeD)+

lemma findAuthorizationModelByID_stored:
  assumes "sound_models L s" "mb_authorizationModels s store = Some tm" "findAuthorizationModelByID i tm = Some m"
  shows "stored_model s store m" "i \<noteq> [] \<Longrightarrow> am_id m = i"
proof -
  obtain j entry where e: "(j, entry) \<in> set tm" "ame_model entry = m" "i \<noteq> [] \<Longrightarrow> j = i"
  proof (cases "i = []")
    case True
    with assms(3) obtain x where "List.find (\<lambda>(_, entry). ame_latest entry) tm = Some x" "ame_model (snd x) = m"
      by (auto simp: findAuthorizationModelByID_def split_beta)
    then show thesis using that [of "fst x" "snd x"] True find_SomeE by fastforce
  next
    case False
    with assms(3) obtain entry where "map_of tm i = Some entry" "ame_model entry = m"
      by (auto simp: findAuthorizationModelByID_def)
    then show thesis using that map_of_SomeD by fast
  qed
  then have "map_of tm j = Some entry" "am_id m = j"
    using assms(1,2) unfolding sound_models_def by blast+
  then show "stored_model s store m" "i \<noteq> [] \<Longrightarrow> am_id m = i"
    using assms(2) e by (auto simp: stored_model_def)
qed

lemma first_occurrence:
  assumes "xs @ x # ys = zs @ x # ws" "x \<notin> set xs" "x \<notin> set zs"
  shows "xs = zs \<and> ys = ws"
  using assms by (induction xs arbitrary: zs) (case_tac zs; auto)+

lemma slash_split:
  assumes "a @ ''/'' @ b = c @ ''/'' @ d" "CHR ''/'' \<notin> set b" "CHR ''/'' \<notin> set d"
  shows "a = c \<and> b = d"
proof -
  have "rev (a @ ''/'' @ b) = rev (c @ ''/'' @ d)" using assms(1) by simp
  then have "rev b @ CHR ''/'' # rev a = rev d @ CHR ''/'' # rev c" by simp
  from first_occurrence [OF this] assms(2,3) show ?thesis by simp
qed

lemma cached_typesystem_cases:
  assumes "cached_typesystem srv st key load = Some (r, st')"
  obtains (hit) t where "ss_typesystems st key = Some t" "r = Inr t" "st' = st"
    | (error) e where "r = Inl e" "st' = st"
    | (loaded) model t where "load = Inr model" "lib_NewAndValidate (sv_library srv) model = Some (Inr t)" "r = Inr t"
        "st' = st\<lparr>ss_typesystems := (ss_typesystems st)(key \<mapsto> t)\<rparr>"
  using assms that unfolding cached_typesystem_def by (auto split: option.splits sum.splits)

lemma cached_typesystem_stored:
  assumes srv: "sv_library srv = L" and m: "sound_models L (ss_store st)" and c: "sound_cache L st"
    and r: "cached_typesystem srv st (storeID @ ''/'' @ i) load = Some (r, st')"
    and i: "CHR ''/'' \<notin> set i"
    and load: "\<And>model. load = Inr model \<Longrightarrow> stored_model (ss_store st) storeID model \<and> am_id model = i"
  shows "ss_store st' = ss_store st \<and> sound_cache L st' \<and>
    (\<forall>t. r = Inr t \<longrightarrow> (\<exists>model. stored_model (ss_store st) storeID model \<and> am_id model = i \<and>
       lib_NewAndValidate L model = Some (Inr t)))"
  using r
proof (cases rule: cached_typesystem_cases)
  case (hit t)
  then obtain store model where "storeID @ ''/'' @ i = store @ ''/'' @ am_id model" "stored_model (ss_store st) store model"
    "lib_NewAndValidate L model = Some (Inr t)"
    using c unfolding sound_cache_def by blast
  moreover from this have "storeID = store \<and> i = am_id model"
    using slash_split i stored_model_sound(2) [OF m] by blast
  ultimately show ?thesis using hit c by auto
next
  case (loaded model t)
  then show ?thesis
    using load [OF loaded(1)] c srv unfolding sound_cache_def by auto
qed (use c in auto)

lemma resolver_stored:
  assumes srv: "memory_server L up us now mk srv" and m: "sound_models L (ss_store st)" and c: "sound_cache L st"
    and r: "MemoizedTypesystemResolverFunc srv st storeID modelID = Some (r, st')"
  shows "ss_store st' = ss_store st \<and> sound_cache L st' \<and>
    (\<forall>t. r = Inr t \<longrightarrow> (\<exists>model. stored_model (ss_store st) storeID model \<and>
       (modelID \<noteq> [] \<longrightarrow> am_id model = modelID) \<and> lib_NewAndValidate L model = Some (Inr t)))"
proof -
  let ?s = "ss_store st"
  have ds: "ds_FindLatestAuthorizationModel (sv_datastore srv) = FindLatestAuthorizationModel"
    "ds_ReadAuthorizationModel (sv_datastore srv) = ReadAuthorizationModel" "sv_library srv = L"
    "\<And>m. sv_ulid_Parse srv m \<Longrightarrow> CHR ''/'' \<notin> set m"
    using srv by (simp_all add: memory_server_def memory_datastore_def)
  consider (error) e where "r = Inl e" "st' = st"
    | (latest) model where "modelID = []" "FindLatestAuthorizationModel ?s storeID = Inr model"
        "cached_typesystem srv st (storeID @ ''/'' @ am_id model) (Inr model) = Some (r, st')"
    | (given) "modelID \<noteq> []" "sv_ulid_Parse srv modelID" "cached_typesystem srv st (storeID @ ''/'' @ modelID)
             (map_sum (model_error ''failed to ReadAuthorizationModel: '') id (ReadAuthorizationModel ?s storeID modelID)) = Some (r, st')"
    using r unfolding MemoizedTypesystemResolverFunc_def ds by (auto split: if_splits sum.splits)
  then show ?thesis
  proof cases
    case error
    then show ?thesis using c by simp
  next
    case (latest model)
    then have "stored_model ?s storeID model"
      using findAuthorizationModelByID_stored(1) [OF m] by (auto simp: FindLatestAuthorizationModel_def split: option.splits)
    from cached_typesystem_stored [OF ds(3) m c latest(3) stored_model_sound(2) [OF m this]] this latest(1)
    show ?thesis by blast
  next
    case given
    have "stored_model ?s storeID model \<and> am_id model = modelID"
      if "map_sum (model_error ''failed to ReadAuthorizationModel: '') id (ReadAuthorizationModel ?s storeID modelID) = Inr model" for model
      using that findAuthorizationModelByID_stored [OF m] given(1)
      by (cases "ReadAuthorizationModel ?s storeID modelID") (auto simp: ReadAuthorizationModel_def split: option.splits if_splits)
    from cached_typesystem_stored [OF ds(3) m c given(3) ds(4) [OF given(2)] this] show ?thesis by blast
  qed
qed

section \<open>The handlers keep the states sound\<close>

definition sound_state :: "'c library \<Rightarrow> (ulid \<Rightarrow> string) \<Rightarrow> MemoryBackend server_state \<Rightarrow> bool" where
  "sound_state L us st \<longleftrightarrow>
     reachable us (ss_store st) \<and> sound_models L (ss_store st) \<and> sound_cache L st \<and> sound_tuples (ss_store st)"

fun wf_id :: "tuple_id \<Rightarrow> bool" where
  "wf_id (ob, rel, u) = (IsValidObject ob \<and> IsValidRelation rel \<and> wf_user u)"

lemma wf_tuple_id: "wf_tuple k \<longleftrightarrow> wf_id (tk_id k)"
  by (simp add: wf_tuple_def tk_id_def)

lemma sound_tuples_ids:
  assumes "reachable us s"
  shows "sound_tuples s \<longleftrightarrow> (\<forall>store. \<forall>x\<in>dom (abs_records (mb_tuples s store)). wf_id x)"
proof -
  have "\<forall>r\<in>set (mb_tuples s store). wf_record r" for store
    using reachable_store_inv [OF assms, of store] by (simp add: store_inv_def wf_store_def)
  then show ?thesis
    by (simp add: sound_tuples_def memory_tuples_def wf_tuple_id AsTuple_id abs_records_def dom_map_of_conv_image_fst image_image)
qed

lemma ValidateTupleForWrite_wf:
  assumes "ValidateTupleForWrite S t tk = Some None" "IsSchemaVersionSupported (ts_schemaVersion t)"
  shows "wf_tuple tk"
  using assms ValidateUserObjectRelation_wf [of t tk]
  by (auto simp: ValidateTupleForWrite_def split: option.splits)

lemma validate_written_wf:
  "validate_written L limit t tks = Some None \<Longrightarrow> IsSchemaVersionSupported (ts_schemaVersion t) \<Longrightarrow>
   tk \<in> set tks \<Longrightarrow> wf_tuple tk"
  by (induction tks) (auto split: option.splits if_splits dest: ValidateTupleForWrite_wf)

lemma wf_tuple_full_key: "wf_tuple tk \<Longrightarrow> full_key tk"
  using IsValidObject_split [of "tk_object tk"] wf_user_nonempty [of "tk_user tk"]
  by (auto simp: wf_tuple_def full_key_def IsValidRelation_iff)

lemma NewTypeSystem_schema: "NewTypeSystem mk rv wt m = Inr t \<Longrightarrow> ts_schemaVersion t = am_schema_version m"
  by (auto simp: NewTypeSystem_def Let_def split: sum.splits if_splits)

lemma WriteCommand_Execute_cases:
  assumes "WriteCommand_Execute L cmd s req = Some (Inr s')"
  shows "ds_Write (wc_datastore cmd) s (wr_store_id req) (wr_deletes req) (wr_writes req) = Inr s'"
    and "\<forall>tk\<in>set (wr_writes req). wf_tuple tk"
proof -
  have v: "validateWriteRequest L cmd s req = Some None"
    and "ds_Write (wc_datastore cmd) s (wr_store_id req) (wr_deletes req) (wr_writes req) = Inr s'"
    using assms by (auto simp: WriteCommand_Execute_def split: option.splits sum.splits)
  then show "ds_Write (wc_datastore cmd) s (wr_store_id req) (wr_deletes req) (wr_writes req) = Inr s'" by simp
  show "\<forall>tk\<in>set (wr_writes req). wf_tuple tk"
  proof (cases "wr_writes req = []")
    case False
    then obtain m t where "IsSchemaVersionSupported (am_schema_version m)" "lib_New L m = Inr t"
      "validate_written L (wc_conditionContextByteLimit cmd) t (wr_writes req) = Some None"
      using v unfolding validateWriteRequest_def Let_def by (auto split: if_splits sum.splits option.splits)
    then show ?thesis using validate_written_wf NewTypeSystem_schema by metis
  qed simp
qed

lemma Write_sound:
  assumes "reachable us s" "sound_tuples s" "advanced s now mk" "\<forall>tk\<in>set ws. wf_tuple tk"
    and ok: "Write us now mk s store ds ws = Inr s'"
  shows "reachable us s' \<and> sound_tuples s' \<and> mb_authorizationModels s' = mb_authorizationModels s"
proof -
  have full: "\<forall>w\<in>set ws. full_key w" using assms(4) wf_tuple_full_key by blast
  have wf: "wf_store (mb_tuples s store)"
    using reachable_store_inv [OF assms(1), of store] by (simp add: store_inv_def)
  have r: "reachable us s'"
    using reachable_Write [OF assms(1) full _ _ _ ok] assms(3) by (simp add: advanced_def)
  obtain recs chs where s': "s' = s\<lparr>mb_tuples := (mb_tuples s)(store := recs),
            mb_changes := (mb_changes s)(store := mb_changes s store @ chs)\<rparr>"
    and recs: "abs_records recs = map_of (map (\<lambda>t. (tk_id t, write_cond t)) ws) ++
       (abs_records (mb_tuples s store) |` (- rec_id ` set (filter (deleted_by ds) (mb_tuples s store))))"
    by (rule Write_effect [OF wf full ok])
  have "dom (abs_records recs) \<subseteq> tk_id ` set ws \<union> dom (abs_records (mb_tuples s store))"
    by (auto simp: recs dom_map_of_conv_image_fst image_image)
  then have "wf_id x" if "x \<in> dom (abs_records recs)" for x
    using that assms(2,4) unfolding sound_tuples_ids [OF assms(1)] wf_tuple_id by blast
  then have "sound_tuples s'" using assms(2) unfolding sound_tuples_ids [OF assms(1)] sound_tuples_ids [OF r] by (simp add: s')
  with r show ?thesis by (simp add: s')
qed

lemma resolveTypesystem_sound:
  assumes "memory_server L up us now mk srv" "sound_state L us st"
    and "resolveTypesystem srv st storeID modelID = Some (r, st')"
  shows "ss_store st' = ss_store st \<and> sound_state L us st' \<and>
    (\<forall>t. r = Inr t \<longrightarrow> (\<exists>model. stored_model (ss_store st) storeID model \<and>
       (modelID \<noteq> [] \<longrightarrow> am_id model = modelID) \<and> lib_NewAndValidate L model = Some (Inr t)))"
proof -
  obtain r0 where "MemoizedTypesystemResolverFunc srv st storeID modelID = Some (r0, st')" "\<forall>t. r = Inr t \<longrightarrow> r0 = Inr t"
    using assms(3) by (auto simp: resolveTypesystem_def split: option.splits sum.splits)
  with resolver_stored [OF assms(1) _ _ this(1)] assms(2) show ?thesis
    unfolding sound_state_def by auto
qed

lemma check_authorized_sound:
  assumes "memory_server L up us now mk srv" "sound_state L us st" "check_authorized srv cx st req = Some (r, st')"
  shows "ss_store st' = ss_store st \<and> sound_state L us st'"
  using assms(3) resolveTypesystem_sound [OF assms(1,2), of "crq_store_id req" "crq_authorization_model_id req"] assms(2)
  by (auto simp: check_authorized_def split: option.splits sum.splits prod.splits)

lemma Server_Write_cases:
  assumes "Server_Write srv cx st req = Some (r, st')"
  obtains (unchanged) "st' = st"
    | (resolved) r0 where "resolveTypesystem srv st (wr_store_id req) (wr_authorization_model_id req) = Some (r0, st')"
    | (written) typesys st1 s where
        "resolveTypesystem srv st (wr_store_id req) (wr_authorization_model_id req) = Some (Inr typesys, st1)"
        "checkWriteAuthz srv cx st1 req typesys = Some None"
        "WriteCommand_Execute (sv_library srv)
           \<lparr>wc_datastore = sv_datastore srv, wc_conditionContextByteLimit = sv_conditionContextByteLimit srv\<rparr>
           (ss_store st1) (req\<lparr>wr_authorization_model_id := ts_modelID typesys\<rparr>) = Some (Inr s)"
        "st' = st1\<lparr>ss_store := s\<rparr>"
proof (cases "invalid cx (sv_ValidateWrite srv req)")
  case (Some e)
  then show ?thesis using assms unchanged by (simp add: Server_Write_def)
next
  case None
  then obtain r0 st1 where r0: "resolveTypesystem srv st (wr_store_id req) (wr_authorization_model_id req) = Some (r0, st1)"
    using assms by (auto simp: Server_Write_def split: option.splits)
  note w = assms [unfolded Server_Write_def None option.case r0 prod.case]
  show ?thesis
  proof (cases r0)
    case (Inl e)
    then have "st' = st1" using w by simp
    with r0 show ?thesis by (intro resolved) simp
  next
    case (Inr typesys)
    note w = w [unfolded Inr sum.case]
    let ?run = "WriteCommand_Execute (sv_library srv)
         \<lparr>wc_datastore = sv_datastore srv, wc_conditionContextByteLimit = sv_conditionContextByteLimit srv\<rparr>
         (ss_store st1) (req\<lparr>wr_authorization_model_id := ts_modelID typesys\<rparr>)"
    consider e where "checkWriteAuthz srv cx st1 req typesys = Some (Some e)"
      | e where "checkWriteAuthz srv cx st1 req typesys = Some None" "?run = Some (Inl e)"
      | s where "checkWriteAuthz srv cx st1 req typesys = Some None" "?run = Some (Inr s)"
      using w by (cases "checkWriteAuthz srv cx st1 req typesys"; cases "the (checkWriteAuthz srv cx st1 req typesys)";
          cases ?run; cases "the ?run") simp_all
    then show ?thesis
    proof cases
      case 1
      then have "st' = st1" using w by simp
      with r0 show ?thesis by (intro resolved) simp
    next
      case 2
      then have "st' = st1" using w by simp
      with r0 show ?thesis by (intro resolved) simp
    next
      case (3 s)
      then have "st' = st1\<lparr>ss_store := s\<rparr>" using w by simp
      then show ?thesis using written [OF r0 [unfolded Inr] 3] by blast
    qed
  qed
qed

lemma sound_cache_cong:
  assumes "sound_cache L st" "\<And>store m. stored_model (ss_store st) store m \<Longrightarrow> stored_model (ss_store st') store m"
    "ss_typesystems st' = ss_typesystems st"
  shows "sound_cache L st'"
  using assms(1,2) unfolding sound_cache_def assms(3) by metis

lemma Server_Write_sound:
  assumes srv: "memory_server L up us now mk srv" and st: "sound_state L us st" and adv: "advanced (ss_store st) now mk"
    and w: "Server_Write srv cx st req = Some (r, st')"
  shows "sound_state L us st' \<and> mb_authorizationModels (ss_store st') = mb_authorizationModels (ss_store st)"
  using w
proof (cases rule: Server_Write_cases)
  case (written typesys st1 s)
  have st1: "ss_store st1 = ss_store st" "sound_state L us st1"
    using resolveTypesystem_sound [OF srv st written(1)] by blast+
  note c = WriteCommand_Execute_cases [OF written(3)]
  have "Write us now mk (ss_store st1) (wr_store_id req) (wr_deletes req) (wr_writes req) = Inr s"
    using c(1) srv by (simp add: memory_server_def memory_datastore_def)
  from Write_sound [OF _ _ _ _ this] st1 adv c(2)
  have "reachable us s" "sound_tuples s" "mb_authorizationModels s = mb_authorizationModels (ss_store st1)"
    unfolding sound_state_def by auto
  with st1 written(4) show ?thesis
    unfolding sound_state_def by (auto simp: sound_models_def stored_model_def elim!: sound_cache_cong)
qed (use resolveTypesystem_sound [OF srv st] st in force)+

lemma guarded_run:
  assumes "guarded srv cx v st storeID apiMethod run = Some (r, st')"
  shows "st' = st \<or> run = Some (r, st') \<and> checkAuthz srv cx st storeID apiMethod [] = Some None"
  using assms unfolding guarded_def by (auto split: option.splits)

lemma WriteAuthorizationModel_stored:
  assumes new: "\<And>store m. stored_model s store m \<Longrightarrow> am_id m \<noteq> am_id model"
  shows "stored_model s store m \<Longrightarrow> stored_model (Memory.WriteAuthorizationModel s store' model) store m"
proof -
  have id: "map_of (map (\<lambda>(i, entry). (i, entry\<lparr>ame_latest := False\<rparr>)) tm) i =
      map_option (\<lambda>entry. entry\<lparr>ame_latest := False\<rparr>) (map_of tm i)" for tm :: "(string \<times> AuthorizationModelEntry) list" and i
    by (induction tm) auto
  assume m: "stored_model s store m"
  then have "am_id m \<noteq> am_id model" by (rule new)
  with m show ?thesis
    by (auto simp: stored_model_def Memory.WriteAuthorizationModel_def Let_def update_conv' id)
qed

lemma update_absent: "k \<notin> fst ` set xs \<Longrightarrow> AList.update k v xs = xs @ [(k, v)]"
  by (induction xs) auto

lemma map_of_map_prod: "map_of (map (map_prod id f) xs) k = map_option f (map_of xs k)"
  by (induction xs) auto

lemma WriteAuthorizationModel_sound:
  assumes "sound_models L s" "lib_NewAndValidate L model = Some (Inr t)" "valid_names (am_type_definitions model)"
    "am_id model \<noteq> []" "CHR ''/'' \<notin> set (am_id model)"
    and new: "\<And>store m. stored_model s store m \<Longrightarrow> am_id m \<noteq> am_id model"
  shows "sound_models L (Memory.WriteAuthorizationModel s store model)"
  unfolding sound_models_def
proof (intro allI impI)
  fix store' tm' i entry
  assume tm': "mb_authorizationModels (Memory.WriteAuthorizationModel s store model) store' = Some tm'" "(i, entry) \<in> set tm'"
  define tm where "tm = (case mb_authorizationModels s store' of None \<Rightarrow> [] | Some tm \<Rightarrow> tm)"
  let ?unset = "\<lambda>entry :: AuthorizationModelEntry. entry\<lparr>ame_latest := False\<rparr>"
  have old: "map_of tm i = Some entry \<and> am_id (ame_model entry) = i \<and> i \<noteq> [] \<and> CHR ''/'' \<notin> set i \<and>
      valid_names (am_type_definitions (ame_model entry)) \<and> (\<exists>t. lib_NewAndValidate L (ame_model entry) = Some (Inr t))"
    if "(i, entry) \<in> set tm" for i entry
    using that assms(1) unfolding tm_def sound_models_def by (cases "mb_authorizationModels s store'") auto
  have fresh: "am_id model \<notin> fst ` set tm"
  proof
    assume "am_id model \<in> fst ` set tm"
    then obtain e where e: "(am_id model, e) \<in> set tm" by force
    then have "mb_authorizationModels s store' = Some tm" unfolding tm_def by (cases "mb_authorizationModels s store'") auto
    with old [OF e] have "stored_model s store' (ame_model e)" "am_id (ame_model e) = am_id model"
      by (auto simp: stored_model_def)
    with new show False by blast
  qed
  show "map_of tm' i = Some entry \<and> am_id (ame_model entry) = i \<and> i \<noteq> [] \<and> CHR ''/'' \<notin> set i \<and>
      valid_names (am_type_definitions (ame_model entry)) \<and> (\<exists>t. lib_NewAndValidate L (ame_model entry) = Some (Inr t))"
  proof (cases "store' = store")
    case False
    then have "tm' = tm" using tm'(1) by (simp add: tm_def Memory.WriteAuthorizationModel_def Let_def)
    with old tm'(2) show ?thesis by simp
  next
    case True
    have "AList.update (am_id model) e (map (map_prod id ?unset) tm) = map (map_prod id ?unset) tm @ [(am_id model, e)]" for e
      by (rule update_absent) (use fresh in force)
    then have tm'_eq: "tm' = map (map_prod id ?unset) tm @ [(am_id model, \<lparr>ame_model = model, ame_latest = True\<rparr>)]"
      using tm'(1) True by (simp add: tm_def Memory.WriteAuthorizationModel_def Let_def map_prod_def id_def)
    show ?thesis
    proof (cases "i = am_id model")
      case i: True
      then have "entry = \<lparr>ame_model = model, ame_latest = True\<rparr>" using tm'(2) fresh unfolding tm'_eq by force
      moreover have "map_of tm (am_id model) = None" using fresh by (simp add: map_of_eq_None_iff)
      ultimately show ?thesis using i assms(2-5) by (simp add: tm'_eq map_add_def map_of_map_prod)
    next
      case False
      then obtain e where e: "(i, e) \<in> set tm" "entry = ?unset e" using tm'(2) unfolding tm'_eq by auto
      from old [OF e(1)] False show ?thesis
        by (auto simp: tm'_eq e(2) map_of_map_prod map_add_def)
    qed
  qed
qed

lemma WriteAuthorizationModelCommand_Execute_cases:
  assumes "WriteAuthorizationModelCommand_Execute L limit newId ds s req = Some (Inr (i, s'))"
  shows "\<exists>model t. am_id model = newId \<and> am_type_definitions model = wam_type_definitions req \<and>
    lib_NewAndValidate L model = Some (Inr t) \<and> ds_WriteAuthorizationModel ds s (wam_store_id req) model = Inr s'"
proof -
  define model where "model = \<lparr>am_id = newId,
    am_schema_version = (if wam_schema_version req = [] then ''1.1'' else wam_schema_version req),
    am_type_definitions = wam_type_definitions req, am_conditions = wam_conditions req\<rparr>"
  have "\<exists>t. lib_NewAndValidate L model = Some (Inr t)" "ds_WriteAuthorizationModel ds s (wam_store_id req) model = Inr s'"
    using assms unfolding WriteAuthorizationModelCommand_Execute_def Let_def model_def [symmetric]
    by (auto split: if_splits option.splits sum.splits)
  then show ?thesis by (intro exI [of _ model]) (auto simp: model_def)
qed

lemma Server_WriteAuthorizationModel_sound:
  assumes srv: "memory_server L up us now mk srv" and st: "sound_state L us st" and names: "valid_names (wam_type_definitions req)"
    and newId: "newId \<noteq> []" "CHR ''/'' \<notin> set newId" "\<And>store m. stored_model (ss_store st) store m \<Longrightarrow> am_id m \<noteq> newId"
    and w: "Server_WriteAuthorizationModel srv cx newId st req = Some (r, st')"
  shows "sound_state L us st'"
proof -
  consider "st' = st" | i s where "WriteAuthorizationModelCommand_Execute L (sv_maxAuthorizationModelSizeInBytes srv) newId
               (sv_datastore srv) (ss_store st) req = Some (Inr (i, s))" "st' = st\<lparr>ss_store := s\<rparr>"
    using guarded_run [OF w [unfolded Server_WriteAuthorizationModel_def]] srv
    by (auto simp: memory_server_def split: option.splits sum.splits)
  then show ?thesis
  proof cases
    case (2 i s)
    then obtain model t where m: "am_id model = newId" "am_type_definitions model = wam_type_definitions req"
      "lib_NewAndValidate L model = Some (Inr t)" "s = Memory.WriteAuthorizationModel (ss_store st) (wam_store_id req) model"
      using WriteAuthorizationModelCommand_Execute_cases [OF 2(1)] srv by (auto simp: memory_server_def memory_datastore_def)
    have new: "\<And>store m. stored_model (ss_store st) store m \<Longrightarrow> am_id m \<noteq> am_id model" using newId(3) m(1) by simp
    have "sound_models L s"
      unfolding m(4) using st newId(1,2) names m(1-3) new
      by (intro WriteAuthorizationModel_sound) (auto simp: sound_state_def)
    moreover have "sound_cache L st'"
      using st WriteAuthorizationModel_stored [OF new] 2(2) m(4)
      by (auto simp: sound_state_def elim: sound_cache_cong)
    moreover have "reachable us s" using st m(4) by (auto simp: sound_state_def intro: reachable_WriteAuthorizationModel)
    moreover have "mb_tuples s = mb_tuples (ss_store st)" by (simp add: m(4) Memory.WriteAuthorizationModel_def Let_def)
    ultimately show ?thesis
      using st 2(2) by (simp add: sound_state_def sound_tuples_def memory_tuples_def)
  qed (use st in simp)
qed

lemma sound_state_store:
  assumes "sound_state L us st" "reachable us s" "mb_tuples s = mb_tuples (ss_store st)"
    "mb_authorizationModels s = mb_authorizationModels (ss_store st)"
  shows "sound_state L us (st\<lparr>ss_store := s\<rparr>)"
  using assms
  by (auto simp: sound_state_def sound_models_def sound_tuples_def memory_tuples_def stored_model_def elim!: sound_cache_cong)

lemma Server_CreateStore_sound:
  assumes srv: "memory_server L up us now mk srv" and st: "sound_state L us st"
    and c: "Server_CreateStore srv cx v newId st name = Some (r, st')"
  shows "sound_state L us st'"
proof -
  have "st' = st \<or> (\<exists>store s. CreateStoreCommand_Execute newId (sv_datastore srv) (ss_store st) name = Inr (store, s) \<and>
      st' = st\<lparr>ss_store := s\<rparr>)"
    using c unfolding Server_CreateStore_def by (auto split: option.splits sum.splits)
  then consider "st' = st" | store s where "CreateStoreCommand_Execute newId (sv_datastore srv) (ss_store st) name = Inr (store, s)"
      "st' = st\<lparr>ss_store := s\<rparr>" by blast
  then show ?thesis
  proof cases
    case (2 store s)
    then have s: "Memory.CreateStore now (ss_store st) \<lparr>st_id = newId, st_name = name, st_created_at = 0, st_updated_at = 0\<rparr> = Inr (store, s)"
      using srv by (auto simp: CreateStoreCommand_Execute_def memory_server_def memory_datastore_def split: sum.splits)
    then have "mb_tuples s = mb_tuples (ss_store st)" "mb_authorizationModels s = mb_authorizationModels (ss_store st)"
      by (auto simp: Memory.CreateStore_def Let_def split: if_splits)
    moreover have "reachable us s" using reachable_CreateStore [OF _ s] st by (simp add: sound_state_def)
    ultimately show ?thesis unfolding 2(2) by (intro sound_state_store [OF st])
  qed (use st in simp)
qed

lemma Server_DeleteStore_sound:
  assumes srv: "memory_server L up us now mk srv" and st: "sound_state L us st"
    and d: "Server_DeleteStore srv cx v st storeID = Some (r, st')"
  shows "sound_state L us st'"
proof -
  have "st' = st \<or> (\<exists>s. DeleteStoreCommand_Execute (sv_datastore srv) (ss_store st) storeID = Inr s \<and> st' = st\<lparr>ss_store := s\<rparr>)"
    using guarded_run [OF d [unfolded Server_DeleteStore_def]] by (auto split: sum.splits)
  then consider "st' = st" | s where "DeleteStoreCommand_Execute (sv_datastore srv) (ss_store st) storeID = Inr s" "st' = st\<lparr>ss_store := s\<rparr>"
    by blast
  then show ?thesis
  proof cases
    case (2 s)
    then have "s = ss_store st \<or> (\<exists>i. s = Memory.DeleteStore (ss_store st) i)"
      using srv by (auto simp: DeleteStoreCommand_Execute_def memory_server_def memory_datastore_def split: sum.splits if_splits)
    then have "reachable us s" "mb_tuples s = mb_tuples (ss_store st)" "mb_authorizationModels s = mb_authorizationModels (ss_store st)"
      using st reachable_DeleteStore by (auto simp: sound_state_def Memory.DeleteStore_def)
    then show ?thesis unfolding 2(2) by (intro sound_state_store [OF st])
  qed (use st in simp)
qed

lemma WriteAssertionsCommand_Execute_writes:
  assumes "WriteAssertionsCommand_Execute L limit ds s store modelID asserts = Some (Inr s')"
  shows "ds_WriteAssertions ds s store modelID asserts = Inr s'"
  using assms unfolding WriteAssertionsCommand_Execute_def by (auto split: if_splits option.splits sum.splits)

lemma Server_WriteAssertions_sound:
  assumes srv: "memory_server L up us now mk srv" and st: "sound_state L us st"
    and w: "Server_WriteAssertions srv cx v st storeID modelID asserts = Some (r, st')"
  shows "sound_state L us st'"
proof (cases "st' = st")
  case False
  then obtain r0 st1 where r0: "resolveTypesystem srv st storeID modelID = Some (r0, st1)"
    using guarded_run [OF w [unfolded Server_WriteAssertions_def]] by (auto split: option.splits)
  then have st1: "sound_state L us st1" using resolveTypesystem_sound [OF srv st] by blast
  have "st' = st1 \<or> (\<exists>i s. WriteAssertionsCommand_Execute L DefaultMaxAssertionSizeInBytes (sv_datastore srv)
        (ss_store st1) storeID i asserts = Some (Inr s) \<and> st' = st1\<lparr>ss_store := s\<rparr>)"
    using guarded_run [OF w [unfolded Server_WriteAssertions_def]] r0 False srv
    by (auto simp: memory_server_def split: option.splits sum.splits)
  then consider "st' = st1" | i s where "WriteAssertionsCommand_Execute L DefaultMaxAssertionSizeInBytes (sv_datastore srv)
        (ss_store st1) storeID i asserts = Some (Inr s)" "st' = st1\<lparr>ss_store := s\<rparr>"
    by blast
  then show ?thesis
  proof cases
    case (2 i s)
    then have "s = Memory.WriteAssertions (ss_store st1) storeID i asserts"
      using srv WriteAssertionsCommand_Execute_writes [OF 2(1)] by (simp add: memory_server_def memory_datastore_def)
    moreover from this have "reachable us s" using st1 reachable_WriteAssertions by (auto simp: sound_state_def)
    ultimately show ?thesis unfolding 2(2) by (intro sound_state_store [OF st1]) (simp_all add: Memory.WriteAssertions_def)
  qed (use st1 in simp)
qed (use st in simp)

lemma served_sound: "served L up us st \<Longrightarrow> sound_state L us st"
proof (induction rule: served.induct)
  case served_start
  have "sound_models L New" "sound_tuples New"
    by (simp_all add: sound_models_def sound_tuples_def memory_tuples_def New_def)
  then show ?case by (simp add: sound_state_def reachable_New sound_cache_def)
next
  case (served_evict st K)
  then show ?case by (auto simp: sound_state_def sound_cache_def restrict_map_def)
next
  case (served_check st now mk srv cx req r st')
  then show ?case
    by (auto simp: Server_Check_def split: option.splits dest: check_authorized_sound)
next
  case (served_write st now mk srv cx wreq w st')
  then show ?case using Server_Write_sound by blast
qed (blast intro: Server_WriteAuthorizationModel_sound Server_CreateStore_sound
    Server_DeleteStore_sound Server_WriteAssertions_sound)+

section \<open>What a check of the API decides\<close>

text \<open>The local checker as the resolver: the type system and the reader are those in the context.\<close>

definition local_resolver ::
  "('r, 'c) LocalChecker \<Rightarrow> scheduler \<Rightarrow> TypeSystem \<Rightarrow> 'r RelationshipTupleReader \<Rightarrow> ResolveCheckRequest \<Rightarrow> outcome option" where
  "local_resolver ck sched typesys ds req = Check (ck\<lparr>ck_typesys := typesys, ck_ds := ds\<rparr>) sched req"

text \<open>A tuple of a set grants a relation: it fits the model, and its condition is met in a context.\<close>

definition grants ::
  "'c library \<Rightarrow> TypeSystem \<Rightarrow> pstruct option \<Rightarrow> tuple_key set \<Rightarrow> string \<Rightarrow> string \<Rightarrow> string \<Rightarrow> bool" where
  "grants L t context K ob rel u \<longleftrightarrow>
     (\<exists>k\<in>K. tk_object k = ob \<and> tk_relation k = rel \<and> tk_user k = u \<and>
        FilterInvalidTuples (lib_stdlib L) t k = Some True \<and>
        BuildTupleKeyConditionFilter (lib_stdlib L) (lib_CEL L) Live context t k = Some (Inr True))"

lemma usable_grants:
  assumes "ck_stdlib ck = lib_stdlib L" "ck_cel ck = lib_CEL L" "ck_ctx ck = Live" "ck_typesys ck = t"
  shows "usable ck stored req = grants L t (rq_Context req) (stored (rq_StoreID req))"
  using assms
  by (auto simp: fun_eq_iff usable_def grants_def tuple_filter_def condition_filter_def split: option.splits)

lemma GetRelation_errors:
  assumes "TypeSystem.GetRelation t ot rel = Inl e"
  shows "errors_Is e ErrObjectTypeUndefined \<or> errors_Is e ErrRelationUndefined"
  using assms by (auto simp: TypeSystem.GetRelation_def GetRelations_def split: option.splits)

lemma ValidateUserObjectRelation_user_defined:
  assumes ok: "ValidateUserObjectRelation t tk = None" and "wf_user (tk_user tk)"
  shows "user_defined t (tk_user tk)"
  unfolding user_defined_def
proof
  let ?u = "tk_user tk"
  assume u: "IsObjectRelation ?u"
  obtain ob rel where sp: "SplitObjectRelation ?u = (ob, rel)" by (cases "SplitObjectRelation ?u")
  have "ValidateUser t ?u = None" using ok by (auto simp: ValidateUserObjectRelation_def split: option.splits)
  then have "\<not> isl (TypeSystem.GetRelation t (GetType ob) rel)"
    using u GetRelation_errors [of t "GetType ob" rel]
    by (auto simp: ValidateUser_def sp Let_def isl_def split: if_splits sum.splits)
  moreover have "GetType ob = GetType ?u" "rel = Tuples.GetRelation ?u"
    using wf_user_split(2) [OF assms(2) sp] by (simp_all add: Tuples.GetRelation_def sp)
  ultimately show "\<exists>r. TypeSystem.GetRelation t (GetType ?u) (Tuples.GetRelation ?u) = Inr r"
    by (simp add: not_isl)
qed

lemma validate_contextual_tuples_wf:
  "validate_contextual_tuples S t tks = Some None \<Longrightarrow> IsSchemaVersionSupported (ts_schemaVersion t) \<Longrightarrow>
   tk \<in> set tks \<Longrightarrow> wf_tuple tk"
  by (induction tks) (auto split: option.splits dest: ValidateTupleForWrite_wf)

lemma NewResolveCheckRequest_fields:
  assumes "NewResolveCheckRequest FormatFloat params = Inr rq"
  shows "rq_StoreID rq = rp_StoreID params" "rq_TupleKey rq = rp_TupleKey params" "rq_Context rq = rp_Context params"
    "rq_VisitedPaths rq = []"
  using assms by (auto simp: NewResolveCheckRequest_def split: if_splits sum.splits)

definition distinct_ids :: "tuple_key set \<Rightarrow> bool" where
  "distinct_ids K \<longleftrightarrow> (\<forall>k\<in>K. \<forall>k'\<in>K. same_id k k' \<longrightarrow> k = k')"

lemma CheckQuery_Execute_cases:
  assumes "CheckQuery_Execute c params = Some (Inr resp)"
  obtains rq resp' where
    "validateCheckRequest (cq_stdlib c) (cq_typesys c) (cp_TupleKey params) (cp_ContextualTuples params) = Some None"
    "rq_StoreID rq = cp_StoreID params" "rq_TupleKey rq = ConvertCheckRequestTupleKeyToTupleKey (cp_TupleKey params)"
    "rq_Context rq = cp_Context params" "rq_VisitedPaths rq = []"
    "cq_checkResolver c (cq_typesys c) (NewCombinedTupleReader (cq_datastore c) (cp_ContextualTuples params)) rq = Some (Inr resp')"
    "Allowed resp = Allowed resp'"
proof -
  have v: "validateCheckRequest (cq_stdlib c) (cq_typesys c) (cp_TupleKey params) (cp_ContextualTuples params) = Some None"
    using assms by (auto simp: CheckQuery_Execute_def split: option.splits)
  note w = assms [unfolded CheckQuery_Execute_def v option.case Let_def]
  then obtain rq where rq: "NewResolveCheckRequest (cq_FormatFloat c)
                     \<lparr>rp_StoreID = cp_StoreID params,
                      rp_TupleKey = ConvertCheckRequestTupleKeyToTupleKey (cp_TupleKey params),
                      rp_ContextualTuples = cp_ContextualTuples params, rp_Context = cp_Context params,
                      rp_Consistency = cp_Consistency params, rp_LastCacheInvalidationTime =
                        (if cp_Consistency params \<noteq> HIGHER_CONSISTENCY then cq_DetermineInvalidationTime c (cp_StoreID params) else 0),
                      rp_AuthorizationModelID = ts_modelID (cq_typesys c)\<rparr> = Inr rq"
    by (auto split: sum.splits)
  note f = NewResolveCheckRequest_fields [OF rq]
  let ?run = "cq_checkResolver c (cq_typesys c) (NewCombinedTupleReader (cq_datastore c) (cp_ContextualTuples params)) rq"
  obtain resp' where "?run = Some (Inr resp')" "Allowed resp = Allowed resp'"
    using w unfolding rq by (cases ?run; cases "the ?run") (auto split: if_splits)
  then show thesis using that v f by simp
qed

lemma contextual_checker:
  assumes "sound_state L us st" "distinct_ids (memory_tuples (ss_store st) store \<union> contextual_key ` set ctxs)"
    "\<forall>k\<in>set ctxs. wf_tuple k" "ck_ds ck = NewCombinedTupleReader (memory_reader (ss_store st)) ctxs" "ck_ctx ck = Live"
    "rq_StoreID rq = store" "wf_model (ck_typesys ck)" "graph_complete (ck_typesys ck)"
  shows "complete_checker (NewCombinedTupleReader (memory_reader (ss_store st)) ctxs) (combined_contents (map AsTuple))
    (combined_invar (\<lambda>_. True)) (\<lambda>store. memory_tuples (ss_store st) store \<union> contextual_key ` set ctxs) ck rq"
proof -
  let ?s = "ss_store st"
  have "unique_reader (memory_reader ?s) (map AsTuple) (\<lambda>_. True) (memory_tuples ?s)"
    using assms(1) reachable_store_inv [of us ?s]
    by (intro memory_reader_contract) (simp add: sound_state_def store_inv_def)
  then have reader: "tuple_reader (NewCombinedTupleReader (memory_reader ?s) ctxs) (combined_contents (map AsTuple))
    (combined_invar (\<lambda>_. True)) (\<lambda>store. memory_tuples ?s store \<union> contextual_key ` set ctxs)"
    using assms(3) by (intro combined_reader_contract unique_reader.axioms(1))
  have "wf_tuple k" if "k \<in> memory_tuples ?s store \<union> contextual_key ` set ctxs" for k
    using that assms(1,3) by (auto simp: sound_state_def sound_tuples_def wf_tuple_def)
  then have "checker (NewCombinedTupleReader (memory_reader ?s) ctxs) (combined_contents (map AsTuple))
    (combined_invar (\<lambda>_. True)) (\<lambda>store. memory_tuples ?s store \<union> contextual_key ` set ctxs) ck rq"
    using assms(4-7) by (intro checker.intro [OF reader] checker_axioms.intro) auto
  then show ?thesis
    using assms(2,6,8)
    by (intro complete_checker.intro complete_checker_axioms.intro) (auto simp: distinct_ids_def)
qed

lemma CheckQuery_decides:
  assumes sound: "sound_state L us st" and wf: "wf_model t" "exclusion_free t" "graph_complete t" "ts_authzWeightedGraph t = None"
    and resolver: "fair sched" "ck_ctx ck = Live" "ck_stdlib ck = lib_stdlib L" "ck_cel ck = lib_CEL L"
    and cq: "cq_typesys c = t" "cq_datastore c = memory_reader (ss_store st)" "cq_stdlib c = lib_stdlib L"
      "cq_checkResolver c = local_resolver ck sched"
    and ids: "distinct_ids (memory_tuples (ss_store st) (cp_StoreID params) \<union> contextual_key ` set (cp_ContextualTuples params))"
    and run: "CheckQuery_Execute c params = Some (Inr resp)"
  shows "Allowed resp \<longleftrightarrow> member t (grants L t (cp_Context params)
       (memory_tuples (ss_store st) (cp_StoreID params) \<union> contextual_key ` set (cp_ContextualTuples params)))
       (tk_object (cp_TupleKey params)) (tk_relation (cp_TupleKey params)) (tk_user (cp_TupleKey params))"
proof -
  let ?ctxs = "cp_ContextualTuples params"
  let ?ds = "NewCombinedTupleReader (memory_reader (ss_store st)) ?ctxs"
  let ?ck = "ck\<lparr>ck_typesys := t, ck_ds := ?ds\<rparr>"
  let ?stored = "\<lambda>store. memory_tuples (ss_store st) store \<union> contextual_key ` set ?ctxs"
  let ?tk = "ConvertCheckRequestTupleKeyToTupleKey (cp_TupleKey params)"
  have schema: "IsSchemaVersionSupported (ts_schemaVersion t)" using wf(1) by (simp add: wf_model_def)
  obtain rq resp' where v: "validateCheckRequest (lib_stdlib L) t (cp_TupleKey params) ?ctxs = Some None"
    and rq: "rq_StoreID rq = cp_StoreID params" "rq_TupleKey rq = ?tk" "rq_Context rq = cp_Context params" "rq_VisitedPaths rq = []"
    and check: "Check ?ck sched rq = Some (Inr resp')" and resp': "Allowed resp = Allowed resp'"
    using CheckQuery_Execute_cases [OF run] by (auto simp: cq local_resolver_def)
  have vt: "ValidateUserObjectRelation t ?tk = None" and vc: "validate_contextual_tuples (lib_stdlib L) t ?ctxs = Some None"
    using v by (auto simp: validateCheckRequest_def split: option.splits)
  have tk: "wf_tuple ?tk" by (rule ValidateUserObjectRelation_wf [OF vt schema])
  have ctxs: "\<forall>k\<in>set ?ctxs. wf_tuple k" using validate_contextual_tuples_wf [OF vc schema] by blast
  have cc: "complete_checker ?ds (combined_contents (map AsTuple)) (combined_invar (\<lambda>_. True)) ?stored ?ck rq"
    using sound ids ctxs resolver(2) rq(1) wf by (intro contextual_checker) auto
  have "decision (Inr resp') = Granted \<longrightarrow> member t (usable ?ck ?stored rq) (tk_object ?tk) (tk_relation ?tk) (tk_user ?tk)"
    "decision (Inr resp') = Denied \<longrightarrow> \<not> member t (usable ?ck ?stored rq) (tk_object ?tk) (tk_relation ?tk) (tk_user ?tk)"
    using complete_checker.decides [OF cc resolver(1)] wf tk rq check ValidateUserObjectRelation_user_defined [OF vt]
    by (auto simp: good_def wf_tuple_def)
  moreover have "usable ?ck ?stored rq = grants L t (cp_Context params) (?stored (cp_StoreID params))"
    using usable_grants [of ?ck L t] resolver(2-4) rq by simp
  moreover have "tk_object ?tk = tk_object (cp_TupleKey params)" "tk_relation ?tk = tk_relation (cp_TupleKey params)"
    "tk_user ?tk = tk_user (cp_TupleKey params)"
    by (simp_all add: ConvertCheckRequestTupleKeyToTupleKey_def)
  ultimately show ?thesis using resp' by (simp split: if_splits)
qed


section \<open>A run of the server\<close>

definition example_library :: "(string \<times> native) list library" where
  "example_library =
     \<lparr>lib_NewAuthorizationModelGraph = (\<lambda>_. Inr example_graph), lib_Reversed = Inr, lib_BuildWeighted = (\<lambda>_. None),
      lib_stdlib = example_stdlib, lib_CEL = example_cel, lib_context_Size = (\<lambda>_. 0), lib_assertion_Size = (\<lambda>_. 0),
      lib_model_Size = (\<lambda>_. 0)\<rparr>"

definition example_checker :: "((tuple list + TupleRecord list) combined_state, (string \<times> native) list) LocalChecker" where
  "example_checker =
     \<lparr>ck_maxResolutionDepth = 25, ck_ctx = Live, ck_typesys = sharing_types, ck_ds = NewCombinedTupleReader (memory_reader New) [],
      ck_stdlib = example_stdlib, ck_cel = example_cel,
      ck_checkUsersetFastPathV2 = (\<lambda>_ _. None), ck_recursiveUsersetFastPathV2 = (\<lambda>_ _. None),
      ck_checkTTUFastPathV2 = (\<lambda>_ _ _. None), ck_recursiveTTUFastPathV2 = (\<lambda>_ _ _. None)\<rparr>"

definition example_server :: "AuthorizerConfig option \<Rightarrow> string list \<Rightarrow> (MemoryBackend, TupleRecord list, (string \<times> native) list) Server" where
  "example_server authorizer accessible =
     \<lparr>sv_datastore = memory_datastore (\<lambda>_. None) utoa 5 (\<lambda>k. k) Live, sv_reader = memory_reader,
      sv_checkResolver = local_resolver example_checker in_order, sv_library = example_library,
      sv_ulid_Parse = (\<lambda>i. CHR ''/'' \<notin> set i), sv_encoder = Base64Encoder, sv_authorizer = authorizer,
      sv_GetModule = (\<lambda>_ _. Inr []), sv_ListObjects = (\<lambda>_ _. Inr accessible), sv_conditionContextByteLimit = 32768,
      sv_maxAuthorizationModelSizeInBytes = 262144, sv_maxChecksPerBatchCheck = 50, sv_changelogHorizonOffset = 0,
      sv_ulid_at = (\<lambda>_. Inr []), sv_ValidateCheck = (\<lambda>_. None), sv_ValidateWrite = (\<lambda>_. None), sv_ValidateModel = (\<lambda>_. None),
      sv_DetermineInvalidationTime = (\<lambda>_. 0), sv_WasThrottled = (\<lambda>_. False), sv_endTime = (\<lambda>_. 0),
      sv_DatastoreQueryCount = (\<lambda>_. 0), sv_FormatFloat = (\<lambda>_. []), sv_Sum64 = length, sv_TupleKey_String = (\<lambda>_. [])\<rparr>"

definition example_context :: RequestContext where
  "example_context = \<lparr>rc_AuthClaims = None, rc_SkipAuthzCheck = False, rc_RequestIsValidated = True\<rparr>"

definition modelled_state :: "MemoryBackend server_state" where
  "modelled_state = snd (the (Server_WriteAuthorizationModel (example_server None []) example_context ''m''
     \<lparr>ss_store = New, ss_typesystems = Map.empty\<rparr>
     \<lparr>wam_store_id = ''s'', wam_schema_version = [], wam_type_definitions = am_type_definitions sharing_model,
      wam_conditions = []\<rparr>))"

definition written_state :: "MemoryBackend server_state" where
  "written_state = snd (the (Server_Write (example_server None []) example_context modelled_state
     \<lparr>wr_store_id = ''s'', wr_authorization_model_id = [], wr_deletes = [],
      wr_writes = [NewTupleKey ''doc:1'' ''viewer'' ''group:g#member'']\<rparr>))"

definition example_check :: CheckRequest where
  "example_check =
     \<lparr>crq_store_id = ''s'', crq_authorization_model_id = [],
      crq_tuple_key = \<lparr>tk_object = ''doc:1'', tk_relation = ''viewer'', tk_user = ''user:anne''\<rparr>,
      crq_contextual_tuples = [NewTupleKey ''group:g'' ''member'' ''user:anne''], crq_context = None, crq_consistency = 0\<rparr>"

definition example_model :: authorization_model where
  "example_model = sharing_model\<lparr>am_id := ''m''\<rparr>"

lemma example_server_memory: "memory_server example_library (\<lambda>_. None) utoa 5 (\<lambda>k. k) (example_server a ids)"
  by (simp add: memory_server_def example_server_def)

lemma sharing_model_names: "valid_names (am_type_definitions sharing_model)"
  by code_simp

lemma modelled_state_run:
  "\<exists>i. Server_WriteAuthorizationModel (example_server None []) example_context ''m''
     \<lparr>ss_store = New, ss_typesystems = Map.empty\<rparr>
     \<lparr>wam_store_id = ''s'', wam_schema_version = [], wam_type_definitions = am_type_definitions sharing_model,
      wam_conditions = []\<rparr> = Some (Inr i, modelled_state)" (is "\<exists>i. ?run = _")
proof -
  have "case ?run of Some (Inr i, st) \<Rightarrow> True | _ \<Rightarrow> False" by code_simp
  then show ?thesis unfolding modelled_state_def by (auto split: option.splits sum.splits)
qed

lemma modelled_state_served: "served example_library (\<lambda>_. None) utoa modelled_state"
proof -
  obtain i where "Server_WriteAuthorizationModel (example_server None []) example_context ''m''
     \<lparr>ss_store = New, ss_typesystems = Map.empty\<rparr>
     \<lparr>wam_store_id = ''s'', wam_schema_version = [], wam_type_definitions = am_type_definitions sharing_model,
      wam_conditions = []\<rparr> = Some (Inr i, modelled_state)"
    using modelled_state_run by blast
  from served_write_model [OF served_start example_server_memory _ _ _ _ this] show ?thesis
    by (simp add: sharing_model_names stored_model_def) (simp add: New_def)
qed

lemma modelled_state_store:
  "\<exists>model. am_type_definitions model = am_type_definitions sharing_model \<and>
     ss_store modelled_state = Memory.WriteAuthorizationModel New ''s'' model"
proof -
  obtain i where "guarded (example_server None []) example_context None \<lparr>ss_store = New, ss_typesystems = Map.empty\<rparr> ''s''
      ApiWriteAuthorizationModel
      (case WriteAuthorizationModelCommand_Execute example_library 262144 ''m''
         (memory_datastore (\<lambda>_. None) utoa 5 (\<lambda>k. k) Live) New
         \<lparr>wam_store_id = ''s'', wam_schema_version = [], wam_type_definitions = am_type_definitions sharing_model,
          wam_conditions = []\<rparr> of
        None \<Rightarrow> None | Some (Inl e) \<Rightarrow> Some (Inl e, \<lparr>ss_store = New, ss_typesystems = Map.empty\<rparr>)
      | Some (Inr (modelID, s)) \<Rightarrow> Some (Inr modelID, \<lparr>ss_store = New, ss_typesystems = Map.empty\<rparr>\<lparr>ss_store := s\<rparr>)) =
      Some (Inr i, modelled_state)"
    using modelled_state_run by (auto simp: Server_WriteAuthorizationModel_def example_server_def)
  then obtain s where s: "WriteAuthorizationModelCommand_Execute example_library 262144 ''m''
         (memory_datastore (\<lambda>_. None) utoa 5 (\<lambda>k. k) Live) New
         \<lparr>wam_store_id = ''s'', wam_schema_version = [], wam_type_definitions = am_type_definitions sharing_model,
          wam_conditions = []\<rparr> = Some (Inr (i, s))" "modelled_state = \<lparr>ss_store = s, ss_typesystems = Map.empty\<rparr>"
    by (auto simp: guarded_def split: option.splits sum.splits)
  have "ss_store modelled_state = s" by (simp add: s(2))
  with WriteAuthorizationModelCommand_Execute_cases [OF s(1)] show ?thesis
    by (auto simp: memory_datastore_def)
qed

lemma written_state_run:
  "Server_Write (example_server None []) example_context modelled_state
     \<lparr>wr_store_id = ''s'', wr_authorization_model_id = [], wr_deletes = [],
      wr_writes = [NewTupleKey ''doc:1'' ''viewer'' ''group:g#member'']\<rparr> = Some (Inr (), written_state)" (is "?run = _")
proof -
  have "case ?run of Some (Inr i, st) \<Rightarrow> True | _ \<Rightarrow> False" by code_simp
  then show ?thesis unfolding written_state_def by (auto split: option.splits sum.splits)
qed

lemma modelled_state_advanced: "advanced (ss_store modelled_state) 5 (\<lambda>k. k)"
  using modelled_state_store by (auto simp: advanced_def Memory.WriteAuthorizationModel_def New_def strict_mono_def Let_def)

lemma written_state_served: "served example_library (\<lambda>_. None) utoa written_state"
  by (rule served_write [OF modelled_state_served example_server_memory modelled_state_advanced written_state_run])

lemma written_state_models:
  assumes "stored_model (ss_store written_state) ''s'' m"
  shows "am_type_definitions m = am_type_definitions sharing_model"
proof -
  have "mb_authorizationModels (ss_store written_state) = mb_authorizationModels (ss_store modelled_state)"
    using Server_Write_sound [OF example_server_memory served_sound [OF modelled_state_served] modelled_state_advanced written_state_run]
    by blast
  with assms modelled_state_store show ?thesis
    by (auto simp: stored_model_def Memory.WriteAuthorizationModel_def New_def Let_def split: if_splits)
qed

lemma example_models:
  assumes "stored_model (ss_store written_state) ''s'' model" "lib_NewAndValidate example_library model = Some (Inr t)"
  shows "exclusion_free t \<and> graph_complete t \<and> ts_authzWeightedGraph t = None"
proof -
  have new: "lib_New example_library model = Inr t" by (rule NewAndValidate_cases(1) [OF assms(2)])
  have "no_exclusions sharing_model" by code_simp
  then have "no_exclusions model" using written_state_models [OF assms(1)] by (simp add: no_exclusions_def)
  then have "exclusion_free t" by (rule NewTypeSystem_exclusion_free [OF new])
  moreover have "graph_complete t"
    by (rule example_graph_complete) (use new in \<open>auto simp: NewTypeSystem_def example_library_def Let_def example_graph_def\<close>)
  moreover have "ts_authzWeightedGraph t = None"
    using new by (auto simp: NewTypeSystem_def example_library_def Let_def example_graph_def)
  ultimately show ?thesis by blast
qed


end
