(* ===== verification/Access.thy ===== *)
theory Access
  imports Service
begin

text \<open>
  What the access control of the API guarantees: writes need a permission, and where the list of stores does not
  respect it.
\<close>

section \<open>What the authorizer asks\<close>

text \<open>The request by which the authorizer asks whether a client has a relation with an object.\<close>

definition access_check :: "AuthorizerConfig \<Rightarrow> string \<Rightarrow> string \<Rightarrow> string \<Rightarrow> tuple_key list \<Rightarrow> CheckRequest" where
  "access_check a clientID rel object ctxs =
     \<lparr>crq_store_id = ac_StoreID a, crq_authorization_model_id = ac_ModelID a,
      crq_tuple_key = \<lparr>tk_object = object, tk_relation = rel, tk_user = ClientIDType_String clientID\<rparr>,
      crq_contextual_tuples = ctxs, crq_context = None, crq_consistency = 0\<rparr>"

definition access_allowed :: "('s, 'r, 'c) Server \<Rightarrow> RequestContext \<Rightarrow> 's server_state \<Rightarrow> CheckRequest \<Rightarrow> bool" where
  "access_allowed srv cx st req \<longleftrightarrow> (\<exists>st'. check_authorized srv (cx\<lparr>rc_SkipAuthzCheck := True\<rparr>) st req = Some (Inr True, st'))"

lemma individualAuthorize_allowed:
  "individualAuthorize a (own_server srv st) cx clientID rel object ctxs = Some None \<longleftrightarrow>
     access_allowed srv cx st (access_check a clientID rel object ctxs)"
proof -
  let ?run = "check_authorized srv (cx\<lparr>rc_SkipAuthzCheck := True\<rparr>) st (access_check a clientID rel object ctxs)"
  show ?thesis
    by (cases ?run; cases "fst (the ?run)")
       (auto simp: individualAuthorize_def own_server_def access_allowed_def access_check_def split: option.splits sum.splits if_splits)
qed

lemma first_error_single: "first_error [r] = Some None \<longleftrightarrow> r = Some None"
  by (cases r) (auto split: option.splits)

lemma Authorize_allowed:
  assumes "Authorize a (own_server srv st) cx storeID m modules = Some None"
  obtains (store) claims where "rc_AuthClaims cx = Some claims" "ClientID claims \<noteq> []"
      "access_allowed srv cx st (access_check a (ClientID claims) (getRelation m) (StoreIDType_String storeID) [getSystemAccessTuple storeID])"
    | (module) claims module where "rc_AuthClaims cx = Some claims" "ClientID claims \<noteq> []" "modules = [module]"
      "access_allowed srv cx st (access_check a (ClientID claims) (getRelation m) (ModuleIDType_String storeID module)
          [NewTupleKey (ModuleIDType_String storeID module) ''store'' (StoreIDType_String storeID), getSystemAccessTuple storeID])"
proof -
  obtain claims where claims: "checkAuthClaims cx = Inr claims"
    using assms by (auto simp: Authorize_def split: sum.splits)
  then have c: "rc_AuthClaims cx = Some claims" "ClientID claims \<noteq> []"
    by (auto simp: checkAuthClaims_def split: option.splits if_splits)
  let ?top = "individualAuthorize a (own_server srv st) cx (ClientID claims) (getRelation m) (StoreIDType_String storeID) [getSystemAccessTuple storeID]"
  show thesis
  proof (cases "?top = Some None")
    case True
    then show thesis using store c by (simp add: individualAuthorize_allowed)
  next
    case False
    then have m: "modules \<noteq> []" "length modules \<le> 1"
      "moduleAuthorize a (own_server srv st) cx (ClientID claims) (getRelation m) storeID modules = Some None"
      using assms claims by (auto simp: Authorize_def MaxModulesInRequest_def Let_def split: option.splits if_splits)
    then obtain module where "modules = [module]" by (cases modules) auto
    with m(3) module c show thesis
      by (auto simp: moduleAuthorize_def first_error_single individualAuthorize_allowed)
  qed
qed

text \<open>A module that is returned covers all tuples.\<close>

lemma extractModulesFromTuples_covers:
  assumes "extractModulesFromTuples GetModule t tks ms = Inr r" "r \<noteq> []"
  shows "set ms \<subseteq> set r \<and>
    (\<forall>tk\<in>set tks. \<exists>td. GetTypeDefinition t (fst (SplitObject (tk_object tk))) = Some td \<and>
       (\<exists>m\<in>set r. GetModule td (tk_relation tk) = Inr m))"
  using assms by (induction GetModule t tks ms rule: extractModulesFromTuples.induct)
    (auto simp: Let_def split: option.splits sum.splits if_splits)

lemma resolveTypesystem_store: "resolveTypesystem srv st storeID modelID = Some (r, st') \<Longrightarrow> ss_store st' = ss_store st"
  by (auto simp: resolveTypesystem_def MemoizedTypesystemResolverFunc_def cached_typesystem_def
      split: option.splits sum.splits if_splits)

text \<open>An access control store whose tuples let a client list stores and write to the store itself.\<close>

definition access_model :: authorization_model where
  "access_model =
     \<lparr>am_id = ''m'', am_schema_version = ''1.1'', am_type_definitions =
        [\<lparr>td_type = ''application'', td_relations = [], td_metadata = None\<rparr>,
         \<lparr>td_type = ''system'', td_relations = [(''can_call_list_stores'', This)],
          td_metadata = Some [(''can_call_list_stores'', \<lparr>directly_related_user_types = [DirectRelationReference ''application'' []]\<rparr>)]\<rparr>,
         \<lparr>td_type = ''store'', td_relations = [(''system'', This), (''can_call_write'', This)],
          td_metadata = Some [(''system'', \<lparr>directly_related_user_types = [DirectRelationReference ''system'' []]\<rparr>),
            (''can_call_write'', \<lparr>directly_related_user_types = [DirectRelationReference ''application'' []]\<rparr>)]\<rparr>],
      am_conditions = []\<rparr>"

definition access_state :: "MemoryBackend server_state" where
  "access_state =
     \<lparr>ss_store = Memory.WriteAuthorizationModel
        (projr (Write utoa 5 (\<lambda>k. k)
           (snd (projr (Memory.CreateStore 5 New \<lparr>st_id = ''s'', st_name = ''secret'', st_created_at = 0, st_updated_at = 0\<rparr>)))
           ''a'' [] [NewTupleKey ''system:fga'' ''can_call_list_stores'' ''application:c'',
                     NewTupleKey ''store:a'' ''can_call_write'' ''application:c'']))
        ''a'' access_model,
      ss_typesystems = Map.empty\<rparr>"

definition client_context :: RequestContext where
  "client_context =
     \<lparr>rc_AuthClaims = Some \<lparr>Subject = [], Scopes = {}, ClientID = ''c''\<rparr>, rc_SkipAuthzCheck = False, rc_RequestIsValidated = True\<rparr>"

definition access_config :: AuthorizerConfig where
  "access_config = \<lparr>ac_StoreID = ''a'', ac_ModelID = ''m''\<rparr>"




text \<open>
  C7: a client that may list stores but has access to none sees them all: the empty list of accessible stores is taken
  as no restriction, so that the answer is the one of a server without access control.
\<close>

theorem ListStores_without_access:
  assumes "sv_authorizer srv = Some a" "\<not> rc_SkipAuthzCheck cx"
    and "AuthorizeListStores a (own_server srv st) cx = Some None" and "\<And>r. sv_ListObjects srv (ss_store st) r = Inr []"
  shows "Server_ListStores srv cx v st req = Server_ListStores (srv\<lparr>sv_authorizer := None\<rparr>) cx v st req"
proof -
  have "\<exists>claims. checkAuthClaims cx = Inr claims"
    using assms(3) by (auto simp: AuthorizeListStores_def split: sum.splits)
  then have "ListAuthorizedStores a (own_server srv st) cx = Inr []"
    using assms(4) by (auto simp: ListAuthorizedStores_def own_server_def)
  then show ?thesis
    using assms(1-3) by (simp add: Server_ListStores_def getAccessibleStores_def split: option.splits)
qed

theorem ListStores_without_access_witness:
  "Server_ListStores (example_server (Some access_config) []) client_context None access_state
     \<lparr>lsr_name = [], lsr_page_size = 10, lsr_continuation_token = []\<rparr> =
   Some (Inr \<lparr>pg_items = [\<lparr>st_id = ''s'', st_name = ''secret'', st_created_at = 5, st_updated_at = 5\<rparr>],
              pg_continuation_token = []\<rparr>, access_state)"
proof -
  let ?srv = "example_server (Some access_config) []"
  have "AuthorizeListStores access_config (own_server ?srv access_state) client_context = Some None"
    by code_simp
  from ListStores_without_access [OF _ _ this]
  have "Server_ListStores ?srv client_context None access_state \<lparr>lsr_name = [], lsr_page_size = 10, lsr_continuation_token = []\<rparr> =
      Server_ListStores (?srv\<lparr>sv_authorizer := None\<rparr>) client_context None access_state
        \<lparr>lsr_name = [], lsr_page_size = 10, lsr_continuation_token = []\<rparr>"
    by (simp add: example_server_def client_context_def)
  moreover have "ListStoresQuery_Execute Base64Encoder (memory_datastore (\<lambda>_. None) utoa 5 (\<lambda>k. k) Live) (ss_store access_state)
      \<lparr>lsr_name = [], lsr_page_size = 10, lsr_continuation_token = []\<rparr> [] =
    Some (Inr \<lparr>pg_items = [\<lparr>st_id = ''s'', st_name = ''secret'', st_created_at = 5, st_updated_at = 5\<rparr>], pg_continuation_token = []\<rparr>)"
    by code_simp
  ultimately show ?thesis
    by (simp add: Server_ListStores_def getAccessibleStores_def invalid_def client_context_def example_server_def)
qed

end
