(* ===== verification/Pages.thy ===== *)
theory Pages
  imports Commands
begin

text \<open>
  Clients that follow the continuation tokens of the commands over the in-memory datastore, and two requests that
  the commands let through and that have unexpected effects.
\<close>

section \<open>Following the change log\<close>

text \<open>A client that asks for changes page by page until a page is empty.\<close>

partial_function (option) follow_changes ::
  "(string \<Rightarrow> (server_error, tuple_change page) result) \<Rightarrow> string \<Rightarrow> tuple_change list option" where
  "follow_changes query token =
     (case query token of
        Inl e \<Rightarrow> None
      | Inr pg \<Rightarrow>
          if pg_items pg = [] then Some []
          else Option.bind (follow_changes query (pg_continuation_token pg)) (\<lambda>rest. Some (pg_items pg @ rest)))"

declare follow_changes.simps [code]

definition changes_request :: "string \<Rightarrow> string \<Rightarrow> int \<Rightarrow> string \<Rightarrow> ReadChangesRequest" where
  "changes_request store objectType pageSize token =
     \<lparr>rcr_store_id = store, rcr_type = objectType, rcr_page_size = pageSize, rcr_continuation_token = token, rcr_start_time = None\<rparr>"

text \<open>An encoder that encodes everything.\<close>

locale total_encoder = token_encoder +
  assumes Encode_total: "\<exists>s. Encode enc data = Inr s"
begin

lemma ReadChangesQuery_page:
  assumes parse: "\<And>u. ulid_Parse (ulid_String u) = Some u" "\<And>u. ulid_String u \<noteq> []" "\<And>u. CHR ''|'' \<notin> set (ulid_String u)"
    and bar: "CHR ''|'' \<notin> set objectType"
    and sorted: "sorted_wrt (<) (map Ulid (mb_changes s store))"
    and vis: "vis = visible_changes now s store \<lparr>rcf_ObjectType = objectType, rcf_HorizonOffset = off\<rparr> False"
    and size: "0 < pageSize" and k: "k \<le> length vis"
    and token: "if k = 0 then token = [] else Encode enc (ulid_String (Ulid (vis ! (k - 1))) @ ''|'' @ objectType) = Inr token"
  shows "\<exists>token'. ReadChangesQuery_Execute ulid_at enc off (memory_datastore ulid_Parse ulid_String now mk c) s
      (changes_request store objectType pageSize token) =
    Inr \<lparr>pg_items = map Change (take (nat pageSize) (drop k vis)), pg_continuation_token = token'\<rparr> \<and>
    (k < length vis \<longrightarrow>
       Encode enc (ulid_String (Ulid (vis ! (min (k + nat pageSize) (length vis) - 1))) @ ''|'' @ objectType) = Inr token')"
proof -
  let ?from = "if k = 0 then [] else ulid_String (Ulid (vis ! (k - 1)))"
  let ?flt = "\<lparr>rcf_ObjectType = objectType, rcf_HorizonOffset = off\<rparr>"
  note page = ReadChanges_at [OF parse(1,2) sorted vis size k refl]
  have ser: "Serialize (ulid_String u) objectType = Inr (ulid_String u @ ''|'' @ objectType)" for u
    using parse(2) by (simp add: Serialize_def)
  have des: "Deserialize (ulid_String u @ ''|'' @ objectType) = Inr (ulid_String u, objectType)" for u
    using Deserialize_Serialize [OF ser parse(3)] bar takeWhile_id_iff by metis
  have "Decode enc token = Inr (if k = 0 then [] else ulid_String (Ulid (vis ! (k - 1))) @ ''|'' @ objectType)"
    using token Decode_empty Decode_Encode by (auto split: if_splits)
  then have run: "ReadChangesQuery_Execute ulid_at enc off (memory_datastore ulid_Parse ulid_String now mk c) s
      (changes_request store objectType pageSize token) =
    (case ReadChanges ulid_Parse ulid_String now s store ?flt
        \<lparr>rco_Pagination = \<lparr>PageSize = pageSize, From = ?from\<rparr>, rco_SortDesc = False\<rparr> of
       Inl e \<Rightarrow> if errors_Is e ErrNotFound then Inr \<lparr>pg_items = [], pg_continuation_token = token\<rparr> else Inl (HandleError [] e)
     | Inr (changes, contUlid) \<Rightarrow> encode_token enc contUlid objectType changes)"
    using size des
    by (simp add: ReadChangesQuery_Execute_def changes_request_def memory_datastore_def NewPaginationOptions_def
        split: sum.split)
  show ?thesis
  proof (cases "k = length vis")
    case True
    then show ?thesis unfolding run page by simp
  next
    case False
    obtain token' where "Encode enc (ulid_String (Ulid (vis ! (min (k + nat pageSize) (length vis) - 1))) @ ''|'' @ objectType) = Inr token'"
      using Encode_total by blast
    with False show ?thesis
      unfolding run page by (simp add: Let_def encode_token_def ser parse(2))
  qed
qed

lemma follow_changes_from:
  assumes parse: "\<And>u. ulid_Parse (ulid_String u) = Some u" "\<And>u. ulid_String u \<noteq> []" "\<And>u. CHR ''|'' \<notin> set (ulid_String u)"
    and bar: "CHR ''|'' \<notin> set objectType"
    and sorted: "sorted_wrt (<) (map Ulid (mb_changes s store))"
    and vis: "vis = visible_changes now s store \<lparr>rcf_ObjectType = objectType, rcf_HorizonOffset = off\<rparr> False"
    and size: "0 < pageSize" and "k \<le> length vis"
    and "if k = 0 then token = [] else Encode enc (ulid_String (Ulid (vis ! (k - 1))) @ ''|'' @ objectType) = Inr token"
  shows "follow_changes (\<lambda>token. ReadChangesQuery_Execute ulid_at enc off (memory_datastore ulid_Parse ulid_String now mk c) s
      (changes_request store objectType pageSize token)) token = Some (map Change (drop k vis))"
  using assms(8,9)
proof (induction "length vis - k" arbitrary: k token rule: less_induct)
  case less
  let ?q = "\<lambda>token. ReadChangesQuery_Execute ulid_at enc off (memory_datastore ulid_Parse ulid_String now mk c) s
      (changes_request store objectType pageSize token)"
  obtain token' where page: "?q token = Inr \<lparr>pg_items = map Change (take (nat pageSize) (drop k vis)), pg_continuation_token = token'\<rparr>"
    and token': "k < length vis \<longrightarrow>
       Encode enc (ulid_String (Ulid (vis ! (min (k + nat pageSize) (length vis) - 1))) @ ''|'' @ objectType) = Inr token'"
    using ReadChangesQuery_page [OF parse bar sorted vis size less.prems] by blast
  show ?case
  proof (cases "k = length vis")
    case True
    with page show ?thesis by (simp add: follow_changes.simps [of ?q token])
  next
    case False
    let ?k = "min (k + nat pageSize) (length vis)"
    have "follow_changes ?q token' = Some (map Change (drop ?k vis))"
      using False size less.prems token' by (intro less.hyps) auto
    moreover have "take (nat pageSize) (drop k vis) @ drop ?k vis = drop k vis"
      by (simp add: min_def) (metis add.commute append_take_drop_id drop_drop)
    moreover have "take (nat pageSize) (drop k vis) \<noteq> []" using False size less.prems by simp
    ultimately show ?thesis
      using page by (simp add: follow_changes.simps [of ?q token] flip: map_append)
  qed
qed

end

interpretation base64_total: total_encoder Base64Encoder
  by unfold_locales (simp add: Base64Encoder_def)

interpretation noop_total: total_encoder NoopEncoder
  by unfold_locales (simp add: NoopEncoder_def)

text \<open>
  C8: a client of the API that follows the continuation tokens of \<^verbatim>\<open>ReadChanges\<close> reads every change of the requested
  type that is older than the horizon exactly once, in order, and its loop ends; where neither the type nor the texts of
  ULIDs contain the separator of the token.
\<close>

theorem ReadChangesQuery_complete:
  assumes "\<forall>u. ulid_Parse (ulid_String u) = Some u" and "\<forall>u. ulid_String u \<noteq> [] \<and> CHR ''|'' \<notin> set (ulid_String u)"
    and "CHR ''|'' \<notin> set objectType" and "reachable us s" and "0 < pageSize"
  shows "follow_changes (\<lambda>token. ReadChangesQuery_Execute ulid_at Base64Encoder off
      (memory_datastore ulid_Parse ulid_String now mk c) s (changes_request store objectType pageSize token)) [] =
    Some (map Change (visible_changes now s store \<lparr>rcf_ObjectType = objectType, rcf_HorizonOffset = off\<rparr> False))"
proof -
  have "sorted_wrt (<) (map Ulid (mb_changes s store))"
    using reachable_store_inv [OF assms(4), of store] by (simp add: store_inv_def)
  from base64_total.follow_changes_from [OF _ _ _ assms(3) this refl assms(5), where k = 0 and token = "[]"] assms(1,2)
  show ?thesis by simp
qed

lemma digit_not_bar: "n < 10 \<Longrightarrow> CHR ''|'' \<noteq> digit_char n"
proof
  assume "n < 10" "CHR ''|'' = digit_char n"
  moreover have "of_char (CHR ''|'') = (124 :: nat)" by simp
  ultimately have "(124 :: nat) = of_char (char_of (48 + n))" by (simp add: digit_char_def)
  then show False using \<open>n < 10\<close> by (simp add: of_char_of)
qed

theorem ReadChangesQuery_complete_witness:
  "let q = (\<lambda>token. ReadChangesQuery_Execute (\<lambda>_. Inr []) Base64Encoder 0 (memory_datastore (atou 0) utoa 9 (\<lambda>k. k) Live)
              example_state (changes_request ''s'' ''doc'' 1 token));
       visible = visible_changes 9 example_state ''s'' \<lparr>rcf_ObjectType = ''doc'', rcf_HorizonOffset = 0\<rparr> False
   in follow_changes q [] = Some (map Change visible) \<and> length visible = 2"
proof -
  have "length (visible_changes 9 example_state ''s'' \<lparr>rcf_ObjectType = ''doc'', rcf_HorizonOffset = 0\<rparr> False) = 2"
    by code_simp
  moreover have "CHR ''|'' \<notin> set (utoa u)" for u
    by (induction u rule: utoa.induct) (subst utoa.simps, simp add: digit_not_bar)
  ultimately show ?thesis
    using ReadChangesQuery_complete [of "atou 0" utoa "''doc''" utoa example_state 1] example_state_reachable by (simp add: Let_def)
qed

section \<open>Unexpected effects\<close>

text \<open>
  The commands validate only the user of a tuple to be deleted, and the in-memory datastore takes an empty object id as
  any id: the deletion of \<^verbatim>\<open>doc:\<close> deletes the tuples of all documents.
\<close>

definition two_documents :: MemoryBackend where
  "two_documents = projr (Write utoa 5 (\<lambda>k. k) New ''s'' []
     [NewTupleKey ''doc:1'' ''viewer'' ''user:anne'', NewTupleKey ''doc:2'' ''viewer'' ''user:anne''])"

lemma delete_without_id_deletes_all:
  "length (mb_tuples two_documents ''s'') = 2 \<and>
   map_option (map_sum id (\<lambda>s. mb_tuples s ''s''))
     (WriteCommand_Execute L
        \<lparr>wc_datastore = memory_datastore (\<lambda>_. None) utoa 6 (\<lambda>k. k + 10) Live, wc_conditionContextByteLimit = 32768\<rparr> two_documents
        \<lparr>wr_store_id = ''s'', wr_authorization_model_id = [],
         wr_deletes = [\<lparr>tk_object = ''doc:'', tk_relation = ''viewer'', tk_user = ''user:anne''\<rparr>], wr_writes = []\<rparr>) =
   Some (Inr [])"
proof -
  let ?cmd = "\<lparr>wc_datastore = memory_datastore (\<lambda>_. None) utoa 6 (\<lambda>k. k + 10) Live, wc_conditionContextByteLimit = 32768\<rparr>"
  let ?del = "\<lparr>tk_object = ''doc:'', tk_relation = ''viewer'', tk_user = ''user:anne''\<rparr> :: tuple_key_nc"
  have "validate_deleted [?del] = None" "validateNoDuplicatesAndCorrectSize 100 [?del] [] = None" by code_simp+
  moreover have "mb_maxTuplesPerWrite two_documents = 100" by code_simp
  moreover have "map_sum id (\<lambda>s. mb_tuples s ''s'') (Write utoa 6 (\<lambda>k. k + 10) two_documents ''s'' [?del] []) = Inr []" by code_simp
  moreover have "length (mb_tuples two_documents ''s'') = 2" by code_simp
  ultimately show ?thesis
    by (auto simp: WriteCommand_Execute_def validateWriteRequest_def memory_datastore_def Let_def map_sum_def split: sum.splits)
qed

text \<open>
  The names of types may contain the separator of tokens: the second page of the changes of such a type fails.
\<close>

definition barred_state :: MemoryBackend where
  "barred_state = projr (Write utoa 5 (\<lambda>k. k) New ''s'' []
     [NewTupleKey ''a|b:1'' ''viewer'' ''user:anne'', NewTupleKey ''a|b:2'' ''viewer'' ''user:anne''])"

lemma changes_of_barred_type_fail:
  "let q = (\<lambda>token. ReadChangesQuery_Execute (\<lambda>_. Inr []) Base64Encoder 0 (memory_datastore (atou 0) utoa 9 (\<lambda>k. k) Live)
              barred_state (changes_request ''s'' ''a|b'' 1 token))
   in (case q [] of
         Inr pg \<Rightarrow> length (pg_items pg) = 1 \<and> q (pg_continuation_token pg) = Inl ErrMismatchObjectType
       | Inl e \<Rightarrow> False)"
  by code_simp

end
