(* ===== verification/Sql.thy ===== *)
theory Sql
  imports Readers
begin

text \<open>
  The statements that the SQL datastores build with the query builder \<^verbatim>\<open>squirrel\<close>, as data, and what SQL says of
  them. The database itself is an argument of the datastores: a record of the calls that the sources make, each of
  which may fail. What the documentation of SQL promises of the answers is the predicate \<open>conforming\<close>, a hypothesis of
  the theorems; texts are compared as by a binary collation.
\<close>

section \<open>Values and rows\<close>

datatype sql_value = Null | Number int | Text string | Blob string

text \<open>The order of \<^verbatim>\<open>ORDER BY\<close>; only values of the same kind are ever compared.\<close>

instantiation sql_value :: linorder
begin

fun less_eq_sql_value :: "sql_value \<Rightarrow> sql_value \<Rightarrow> bool" where
  "Null \<le> _ \<longleftrightarrow> True"
| "_ \<le> Null \<longleftrightarrow> False"
| "Number a \<le> Number b \<longleftrightarrow> a \<le> b"
| "Number _ \<le> _ \<longleftrightarrow> True"
| "_ \<le> Number _ \<longleftrightarrow> False"
| "Text a \<le> Text b \<longleftrightarrow> a \<le> b"
| "Text _ \<le> _ \<longleftrightarrow> True"
| "_ \<le> Text _ \<longleftrightarrow> False"
| "Blob a \<le> Blob b \<longleftrightarrow> a \<le> b"

definition less_sql_value :: "sql_value \<Rightarrow> sql_value \<Rightarrow> bool" where
  "less_sql_value x y \<longleftrightarrow> x \<le> y \<and> \<not> y \<le> x"

instance
proof
  fix x y z :: sql_value
  show "x < y \<longleftrightarrow> x \<le> y \<and> \<not> y \<le> x" by (rule less_sql_value_def)
  show "x \<le> x" by (cases x) auto
  show "x \<le> y \<Longrightarrow> y \<le> z \<Longrightarrow> x \<le> z" by (cases x; cases y; cases z) auto
  show "x \<le> y \<Longrightarrow> y \<le> x \<Longrightarrow> x = y" by (cases x; cases y) auto
  show "x \<le> y \<or> y \<le> x" by (cases x; cases y) auto
qed

end

type_synonym row = "(string \<times> sql_value) list"
type_synonym tables = "string \<Rightarrow> row list"

definition cell :: "row \<Rightarrow> string \<Rightarrow> sql_value" where
  "cell r c = (case map_of r c of Some v \<Rightarrow> v | None \<Rightarrow> Null)"

definition project :: "string list \<Rightarrow> row \<Rightarrow> row" where
  "project cols r = map (\<lambda>c. (c, cell r c)) cols"

section \<open>Conditions\<close>

text \<open>
  An entry of \<^verbatim>\<open>sq.Eq\<close>: a value (the nil value is \<^verbatim>\<open>IS NULL\<close>) or a slice of values. \<open>NotAfter\<close> and \<open>Before\<close> compare a
  time with the current one less an offset in nanoseconds.
\<close>

datatype sql_arg = Is sql_value | In "sql_value list"

datatype sqlizer =
    Eq "(string \<times> sql_arg) list"
  | Like string string
  | Lt string sql_value
  | LtOrEq string sql_value
  | Gt string sql_value
  | GtOrEq string sql_value
  | And "sqlizer list"
  | Or "sqlizer list"
  | NotAfter string int
  | Before string int

text \<open>The pattern language of \<^verbatim>\<open>LIKE\<close>.\<close>

fun like :: "string \<Rightarrow> string \<Rightarrow> bool" where
  "like [] s \<longleftrightarrow> s = []"
| "like (p # ps) s \<longleftrightarrow>
     (if p = CHR ''%'' then like ps s \<or> (case s of [] \<Rightarrow> False | _ # s' \<Rightarrow> like (p # ps) s')
      else if p = CHR ''_'' then (case s of [] \<Rightarrow> False | _ # s' \<Rightarrow> like ps s')
      else if p = CHR 0x5C then (case (ps, s) of (q # qs, c # s') \<Rightarrow> q = c \<and> like qs s' | _ \<Rightarrow> False)
      else (case s of [] \<Rightarrow> False | c # s' \<Rightarrow> p = c \<and> like ps s'))"

text \<open>A comparison with a missing value is unknown, which a \<^verbatim>\<open>WHERE\<close> takes as false.\<close>

fun arg_holds :: "sql_value \<Rightarrow> sql_arg \<Rightarrow> bool" where
  "arg_holds v (Is w) \<longleftrightarrow> v = w"
| "arg_holds v (In ws) \<longleftrightarrow> v \<noteq> Null \<and> v \<in> set ws"

definition compares :: "(sql_value \<Rightarrow> sql_value \<Rightarrow> bool) \<Rightarrow> sql_value \<Rightarrow> sql_value \<Rightarrow> bool" where
  "compares rel v w \<longleftrightarrow> v \<noteq> Null \<and> w \<noteq> Null \<and> rel v w"

fun holds :: "int \<Rightarrow> row \<Rightarrow> sqlizer \<Rightarrow> bool" where
  "holds now r (Eq as) \<longleftrightarrow> list_all (\<lambda>(c, a). arg_holds (cell r c) a) as"
| "holds now r (Like c p) \<longleftrightarrow> (case cell r c of Text s \<Rightarrow> like p s | _ \<Rightarrow> False)"
| "holds now r (Lt c v) \<longleftrightarrow> compares (<) (cell r c) v"
| "holds now r (LtOrEq c v) \<longleftrightarrow> compares (\<le>) (cell r c) v"
| "holds now r (Gt c v) \<longleftrightarrow> compares (>) (cell r c) v"
| "holds now r (GtOrEq c v) \<longleftrightarrow> compares (\<ge>) (cell r c) v"
| "holds now r (And ps) \<longleftrightarrow> list_all (holds now r) ps"
| "holds now r (Or ps) \<longleftrightarrow> list_ex (holds now r) ps"
| "holds now r (NotAfter c off) \<longleftrightarrow> compares (\<le>) (cell r c) (Number (now - off))"
| "holds now r (Before c off) \<longleftrightarrow> compares (<) (cell r c) (Number (now - off))"

section \<open>Statements\<close>

record select =
  q_columns :: "string list"
  q_distinct :: bool
  q_from :: string
  q_where :: "sqlizer list"
  q_order :: "(string \<times> bool) option"
  q_limit :: "nat option"

definition Select :: "string list \<Rightarrow> string \<Rightarrow> select" where
  "Select cols t = \<lparr>q_columns = cols, q_distinct = False, q_from = t, q_where = [], q_order = None, q_limit = None\<rparr>"

definition Where :: "sqlizer \<Rightarrow> select \<Rightarrow> select" where
  "Where p q = q\<lparr>q_where := q_where q @ [p]\<rparr>"

definition OrderBy :: "string \<Rightarrow> select \<Rightarrow> select" where
  "OrderBy c q = q\<lparr>q_order := Some (c, False)\<rparr>"

definition OrderByDesc :: "string \<Rightarrow> select \<Rightarrow> select" where
  "OrderByDesc c q = q\<lparr>q_order := Some (c, True)\<rparr>"

definition Limit :: "int \<Rightarrow> select \<Rightarrow> select" where
  "Limit n q = q\<lparr>q_limit := Some (nat n)\<rparr>"

text \<open>A value to be stored, or the current time; and the clauses \<^verbatim>\<open>ON CONFLICT ... UPDATE\<close> and \<^verbatim>\<open>RETURNING\<close>.\<close>

datatype sql_expr = Val sql_value | NOW

datatype statement =
    Insert string "string list" "sql_expr list list" "(string list \<times> string \<times> sql_value) option" "string list"
  | Delete string "sqlizer list"
  | Update string "(string \<times> sql_expr) list" "sqlizer list"

section \<open>The database\<close>

text \<open>
  The errors of drivers that the sources tell apart, with the text of the others. A call of the database gets the
  number of the attempt, because the outcome of a repeated call may differ. A query gives rows and the error with which reading them ends; a statement
  gives the number of affected rows and the returned rows. The state inside a transaction is a state of the database,
  which becomes the visible one when the transaction commits.
\<close>

datatype sql_err = ErrNoRows | MySQLError nat | SQLiteError nat | DriverError string err

record 'db engine =
  en_Query :: "nat \<Rightarrow> 'db \<Rightarrow> select \<Rightarrow> (sql_err, row list \<times> sql_err option) result"
  en_Begin :: "nat \<Rightarrow> 'db \<Rightarrow> (sql_err, 'db) result"
  en_Exec :: "nat \<Rightarrow> 'db \<Rightarrow> statement \<Rightarrow> (sql_err, (sql_err, nat) result \<times> row list \<times> 'db) result"
  en_Commit :: "nat \<Rightarrow> 'db \<Rightarrow> (sql_err, 'db) result"

text \<open>\<^verbatim>\<open>QueryRowContext\<close> followed by \<^verbatim>\<open>Scan\<close>, up to the conversion of the values.\<close>

definition query_row :: "'db engine \<Rightarrow> 'db \<Rightarrow> select \<Rightarrow> (sql_err, row) result" where
  "query_row E db q =
     (case en_Query E 0 db q of
        Inl e \<Rightarrow> Inl e
      | Inr ([], Some e) \<Rightarrow> Inl e
      | Inr ([], None) \<Rightarrow> Inl ErrNoRows
      | Inr (r # _, _) \<Rightarrow> Inr r)"

section \<open>What SQL promises\<close>

definition selected :: "int \<Rightarrow> tables \<Rightarrow> select \<Rightarrow> row list" where
  "selected now tabs q =
     (let rs = map (project (q_columns q)) (filter (\<lambda>r. list_all (holds now r) (q_where q)) (tabs (q_from q)))
      in if q_distinct q then remdups rs else rs)"

definition row_order :: "(string \<times> bool) option \<Rightarrow> row list \<Rightarrow> bool" where
  "row_order ord rs =
     (case ord of
        None \<Rightarrow> True
      | Some (c, desc) \<Rightarrow> sorted_wrt (\<lambda>r r'. if desc then cell r' c \<le> cell r c else cell r c \<le> cell r' c) rs)"

definition limited :: "nat option \<Rightarrow> 'a list \<Rightarrow> 'a list" where
  "limited lim xs = (case lim of None \<Rightarrow> xs | Some n \<Rightarrow> take n xs)"

definition sql_answers :: "int \<Rightarrow> tables \<Rightarrow> select \<Rightarrow> row list \<Rightarrow> bool" where
  "sql_answers now tabs q rs \<longleftrightarrow>
     (\<exists>full. mset full = mset (selected now tabs q) \<and> row_order (q_order q) full \<and> rs = limited (q_limit q) full)"

definition same_key :: "string list \<Rightarrow> row \<Rightarrow> row \<Rightarrow> bool" where
  "same_key ks r r' \<longleftrightarrow> list_all (\<lambda>c. cell r c = cell r' c) ks"

definition set_cells :: "row \<Rightarrow> row \<Rightarrow> row" where
  "set_cells new r = map (\<lambda>(c, v). (c, case map_of new c of Some w \<Rightarrow> w | None \<Rightarrow> v)) r"

fun insert_rows ::
  "string list list \<Rightarrow> (string list \<times> string \<times> sql_value) option \<Rightarrow> row list \<Rightarrow> row list \<Rightarrow> row list option" where
  "insert_rows keys ups tab [] = Some tab"
| "insert_rows keys ups tab (r # rs) =
     (if \<exists>r'\<in>set tab. \<exists>ks\<in>set keys. same_key ks r' r
      then (case ups of
              None \<Rightarrow> None
            | Some (ks, c, v) \<Rightarrow>
                if \<exists>r'\<in>set tab. same_key ks r' r
                then insert_rows keys ups (map (\<lambda>r'. if same_key ks r' r then set_cells [(c, v)] r' else r') tab) rs
                else None)
      else insert_rows keys ups (tab @ [r]) rs)"

fun expr_value :: "int \<Rightarrow> sql_expr \<Rightarrow> sql_value" where
  "expr_value now (Val v) = v"
| "expr_value now NOW = Number now"

fun exec_stmt :: "(string \<Rightarrow> string list list) \<Rightarrow> int \<Rightarrow> tables \<Rightarrow> statement \<Rightarrow> (nat \<times> row list \<times> tables) option" where
  "exec_stmt keys now tabs (Insert t cols vals ups ret) =
     (let new = map (\<lambda>vs. zip cols (map (expr_value now) vs)) vals
      in case insert_rows (keys t) ups (tabs t) new of
           None \<Rightarrow> None
         | Some tab \<Rightarrow> Some (length vals, map (project ret) new, tabs(t := tab)))"
| "exec_stmt keys now tabs (Delete t ps) =
     Some (length (filter (\<lambda>r. list_all (holds now r) ps) (tabs t)), [],
           tabs(t := filter (\<lambda>r. \<not> list_all (holds now r) ps) (tabs t)))"
| "exec_stmt keys now tabs (Update t sets ps) =
     Some (length (filter (\<lambda>r. list_all (holds now r) ps) (tabs t)), [],
           tabs(t := map (\<lambda>r. if list_all (holds now r) ps
                              then set_cells (map (map_prod id (expr_value now)) sets) r else r) (tabs t)))"

text \<open>
  A database with the given keys (a list of column lists for each table) and the given errors for violations of keys:
  what it answers is right. Any call may fail with another error. It is available if the first attempt of a call does not.
\<close>

definition fault :: "(sql_err \<Rightarrow> bool) \<Rightarrow> sql_err \<Rightarrow> bool" where
  "fault violation e \<longleftrightarrow> \<not> violation e \<and> e \<noteq> ErrNoRows"

definition conforming ::
  "(string \<Rightarrow> string list list) \<Rightarrow> (sql_err \<Rightarrow> bool) \<Rightarrow> int \<Rightarrow> 'db engine \<Rightarrow> ('db \<Rightarrow> tables) \<Rightarrow> bool" where
  "conforming keys violation now E tbl \<longleftrightarrow>
     (\<forall>k db q. case en_Query E k db q of
        Inl e \<Rightarrow> fault violation e
      | Inr (rs, Some e) \<Rightarrow> fault violation e
      | Inr (rs, None) \<Rightarrow> sql_answers now (tbl db) q rs) \<and>
     (\<forall>k db. case en_Begin E k db of Inl e \<Rightarrow> fault violation e | Inr tx \<Rightarrow> tbl tx = tbl db) \<and>
     (\<forall>k db stmt. case en_Exec E k db stmt of
        Inl e \<Rightarrow> (if violation e then exec_stmt keys now (tbl db) stmt = None else e \<noteq> ErrNoRows)
      | Inr (n, rs, db') \<Rightarrow>
          (\<exists>m. exec_stmt keys now (tbl db) stmt = Some (m, rs, tbl db') \<and> (case n of Inl e \<Rightarrow> fault violation e | Inr n \<Rightarrow> n = m))) \<and>
     (\<forall>k db. case en_Commit E k db of Inl e \<Rightarrow> fault violation e | Inr db' \<Rightarrow> tbl db' = tbl db)"

definition available :: "(sql_err \<Rightarrow> bool) \<Rightarrow> 'db engine \<Rightarrow> bool" where
  "available violation E \<longleftrightarrow>
     (\<forall>db q. case en_Query E 0 db q of Inl e \<Rightarrow> False | Inr (rs, e) \<Rightarrow> e = None) \<and>
     (\<forall>db. \<not> isl (en_Begin E 0 db) \<and> \<not> isl (en_Commit E 0 db)) \<and>
     (\<forall>db stmt. case en_Exec E 0 db stmt of Inl e \<Rightarrow> violation e | Inr (n, _) \<Rightarrow> \<not> isl n)"

end
