(* ===== verification/SqlCommon.thy ===== *)
theory SqlCommon
  imports Sql "HOL-Library.Monad_Syntax"
begin

text \<open>
  What the SQL datastores share (\<^verbatim>\<open>pkg/storage/sqlcommon\<close>): configuration, tokens, the iterator over rows, writing of
  tuples and models, reading of models. The tables are those of \<^verbatim>\<open>assets/migrations\<close>. The columns that hold a user are
  an argument, because the SQLite datastore (\<^verbatim>\<open>pkg/storage/sqlite\<close>) has a copy of this code with other ones.
\<close>

section \<open>Configuration\<close>

record Config =
  SecondaryURI :: string
  Username :: string
  Password :: string
  SecondaryUsername :: string
  SecondaryPassword :: string
  MaxTuplesPerWriteField :: int
  MaxTypesPerModelField :: int
  MaxOpenConns :: int
  MaxIdleConns :: int
  ConnMaxIdleTime :: int
  ConnMaxLifetime :: int
  ExportMetrics :: bool

definition WithSecondaryURI :: "string \<Rightarrow> Config \<Rightarrow> Config" where
  "WithSecondaryURI uri config = config\<lparr>SecondaryURI := uri\<rparr>"

definition WithUsername :: "string \<Rightarrow> Config \<Rightarrow> Config" where
  "WithUsername username config = config\<lparr>Username := username\<rparr>"

definition WithPassword :: "string \<Rightarrow> Config \<Rightarrow> Config" where
  "WithPassword password config = config\<lparr>Password := password\<rparr>"

definition WithSecondaryUsername :: "string \<Rightarrow> Config \<Rightarrow> Config" where
  "WithSecondaryUsername username config = config\<lparr>SecondaryUsername := username\<rparr>"

definition WithSecondaryPassword :: "string \<Rightarrow> Config \<Rightarrow> Config" where
  "WithSecondaryPassword password config = config\<lparr>SecondaryPassword := password\<rparr>"

definition WithMaxTuplesPerWrite :: "int \<Rightarrow> Config \<Rightarrow> Config" where
  "WithMaxTuplesPerWrite maxTuples cfg = cfg\<lparr>MaxTuplesPerWriteField := maxTuples\<rparr>"

definition WithMaxTypesPerAuthorizationModel :: "int \<Rightarrow> Config \<Rightarrow> Config" where
  "WithMaxTypesPerAuthorizationModel maxTypes cfg = cfg\<lparr>MaxTypesPerModelField := maxTypes\<rparr>"

definition WithMaxOpenConns :: "int \<Rightarrow> Config \<Rightarrow> Config" where
  "WithMaxOpenConns c cfg = cfg\<lparr>MaxOpenConns := c\<rparr>"

definition WithMaxIdleConns :: "int \<Rightarrow> Config \<Rightarrow> Config" where
  "WithMaxIdleConns c cfg = cfg\<lparr>MaxIdleConns := c\<rparr>"

definition WithConnMaxIdleTime :: "int \<Rightarrow> Config \<Rightarrow> Config" where
  "WithConnMaxIdleTime d cfg = cfg\<lparr>ConnMaxIdleTime := d\<rparr>"

definition WithConnMaxLifetime :: "int \<Rightarrow> Config \<Rightarrow> Config" where
  "WithConnMaxLifetime d cfg = cfg\<lparr>ConnMaxLifetime := d\<rparr>"

definition WithMetrics :: "Config \<Rightarrow> Config" where
  "WithMetrics cfg = cfg\<lparr>ExportMetrics := True\<rparr>"

definition DefaultMaxTuplesPerWrite :: int where
  "DefaultMaxTuplesPerWrite = 100"

definition DefaultMaxTypesPerAuthorizationModel :: int where
  "DefaultMaxTypesPerAuthorizationModel = 100"

definition NewConfig :: "(Config \<Rightarrow> Config) list \<Rightarrow> Config" where
  "NewConfig opts =
     (let cfg = fold (\<lambda>opt. opt) opts
                  \<lparr>SecondaryURI = [], Username = [], Password = [], SecondaryUsername = [], SecondaryPassword = [],
                   MaxTuplesPerWriteField = 0, MaxTypesPerModelField = 0, MaxOpenConns = 0, MaxIdleConns = 0,
                   ConnMaxIdleTime = 0, ConnMaxLifetime = 0, ExportMetrics = False\<rparr>;
          cfg = (if MaxTuplesPerWriteField cfg = 0
                 then cfg\<lparr>MaxTuplesPerWriteField := DefaultMaxTuplesPerWrite\<rparr> else cfg);
          cfg = (if MaxTypesPerModelField cfg = 0
                 then cfg\<lparr>MaxTypesPerModelField := DefaultMaxTypesPerAuthorizationModel\<rparr> else cfg)
      in cfg)"

section \<open>Tokens\<close>

text \<open>The JSON encoder is an argument.\<close>

record ContToken =
  ct_Ulid :: string
  ct_ObjectType :: string

definition sql_Serialize :: "(ContToken \<Rightarrow> (err, string) result) \<Rightarrow> string \<Rightarrow> string \<Rightarrow> (err, string) result" where
  "sql_Serialize Marshal ulid objType =
     (if ulid = [] then Inl (ErrText ''empty ulid provided for continuation token'')
      else Marshal \<lparr>ct_Ulid = ulid, ct_ObjectType = objType\<rparr>)"

definition sql_Deserialize :: "(string \<Rightarrow> (err, ContToken) result) \<Rightarrow> string \<Rightarrow> (err, string \<times> string) result" where
  "sql_Deserialize Unmarshal continuationToken =
     (case Unmarshal continuationToken of
        Inl e \<Rightarrow> Inl ErrInvalidContinuationToken
      | Inr token \<Rightarrow> Inr (ct_Ulid token, ct_ObjectType token))"

section \<open>Encoding of conditions and users\<close>

text \<open>The serialization of messages, as in package \<^verbatim>\<open>proto\<close>.\<close>

record proto =
  pb_MarshalStruct :: "pstruct \<Rightarrow> (err, string) result"
  pb_UnmarshalStruct :: "string \<Rightarrow> (err, pstruct) result"
  pb_MarshalModel :: "authorization_model \<Rightarrow> (err, string) result"
  pb_UnmarshalModel :: "string \<Rightarrow> (err, authorization_model) result"
  pb_UnmarshalTypeDef :: "string \<Rightarrow> (err, type_definition) result"
  pb_MarshalAssertions :: "assertion list \<Rightarrow> (err, string) result"
  pb_UnmarshalAssertions :: "string \<Rightarrow> (err, assertion list) result"

definition MarshalRelationshipCondition ::
  "proto \<Rightarrow> rel_condition option \<Rightarrow> (err, string \<times> string option) result" where
  "MarshalRelationshipCondition P rel =
     (case rel of
        None \<Rightarrow> Inr ([], None)
      | Some c \<Rightarrow>
          (case cond_context c of
             Some (f # fs) \<Rightarrow> map_sum id (\<lambda>b. (cond_name c, Some b)) (pb_MarshalStruct P (f # fs))
           | _ \<Rightarrow> Inr (cond_name c, None)))"

text \<open>A byte slice as a value: the nil slice is \<^verbatim>\<open>NULL\<close>.\<close>

definition blob :: "string option \<Rightarrow> sql_value" where
  "blob b = (case b of None \<Rightarrow> Null | Some s \<Rightarrow> Blob s)"

definition user_cells :: "string \<Rightarrow> row" where
  "user_cells u = [(''_user'', Text u)]"

definition UserType_String :: "UserType \<Rightarrow> string" where
  "UserType_String t = (case t of User \<Rightarrow> ''user'' | UserSet \<Rightarrow> ''userset'')"

section \<open>The tables\<close>

text \<open>The primary keys and unique indexes of the schemas of MySQL and PostgreSQL.\<close>

definition sql_keys :: "string \<Rightarrow> string list list" where
  "sql_keys t =
     (if t = ''tuple'' then [[''store'', ''object_type'', ''object_id'', ''relation'', ''_user''], [''ulid'']]
      else if t = ''authorization_model'' then [[''store'', ''authorization_model_id'', ''type'']]
      else if t = ''store'' then [[''id'']]
      else if t = ''assertion'' then [[''store'', ''authorization_model_id'']]
      else if t = ''changelog'' then [[''store'', ''ulid'', ''object_type'']]
      else [])"

section \<open>A connection\<close>

text \<open>
  The database with the code around it: the error handler of the datastore, whose optional argument is the tuple key
  of a write, the columns of a user, and the scanning of these columns into a record.
\<close>

record 'db conn =
  cn_engine :: "'db engine"
  cn_db :: 'db
  cn_proto :: proto
  cn_handle :: "sql_err \<Rightarrow> tuple_key option \<Rightarrow> err"
  cn_user :: "string \<Rightarrow> row"
  cn_scan_user :: "sql_value list \<Rightarrow> (TupleRecord \<Rightarrow> TupleRecord) option"

text \<open>The conversions of \<^verbatim>\<open>rows.Scan\<close> for the types that are used.\<close>

definition scan_error :: sql_err where
  "scan_error = DriverError ''sql: Scan error'' (ErrText ''sql: Scan error'')"

fun String :: "sql_value \<Rightarrow> string option" where
  "String (Text s) = Some s"
| "String _ = None"

fun Time :: "sql_value \<Rightarrow> int option" where
  "Time (Number n) = Some n"
| "Time _ = None"

definition NullString :: "sql_value \<Rightarrow> string option" where
  "NullString v = (if v = Null then Some [] else String v)"

fun Bytes :: "sql_value \<Rightarrow> string option option" where
  "Bytes Null = Some None"
| "Bytes (Blob s) = Some (Some s)"
| "Bytes (Text s) = Some (Some s)"
| "Bytes _ = None"

definition scanned :: "'a option \<Rightarrow> (sql_err, 'a) result" where
  "scanned v = (case v of None \<Rightarrow> Inl scan_error | Some x \<Rightarrow> Inr x)"

definition scan_user :: "sql_value list \<Rightarrow> (TupleRecord \<Rightarrow> TupleRecord) option" where
  "scan_user vs = (case vs of [u] \<Rightarrow> map_option (\<lambda>usr r. r\<lparr>tr_User := usr\<rparr>) (String u) | _ \<Rightarrow> None)"

definition empty_record :: TupleRecord where
  "empty_record =
     \<lparr>tr_Store = [], tr_ObjectType = [], tr_ObjectID = [], tr_Relation = [], tr_User = [], tr_UserObjectType = [],
      tr_UserObjectID = [], tr_UserRelation = [], tr_ConditionName = [], tr_ConditionContext = None, tr_Ulid = [],
      tr_InsertedAt = - 62135596800 * 10 ^ 9\<rparr>"

text \<open>The record of a row, and the bytes of its context.\<close>

definition scan_tuple :: "'db conn \<Rightarrow> sql_value list \<Rightarrow> (TupleRecord \<times> string option) option" where
  "scan_tuple S vs =
     (let n = length (cn_user S [])
      in case (take 4 vs, drop (4 + n) vs) of
           ([s, ot, oid, rel], [cn, cc, ul, at]) \<Rightarrow>
             do {
               store \<leftarrow> String s; objectType \<leftarrow> String ot; objectID \<leftarrow> String oid; relation \<leftarrow> String rel;
               set_user \<leftarrow> cn_scan_user S (take n (drop 4 vs));
               conditionName \<leftarrow> NullString cn; conditionContext \<leftarrow> Bytes cc; ulid \<leftarrow> String ul; insertedAt \<leftarrow> Time at;
               Some (set_user (empty_record\<lparr>tr_Store := store, tr_ObjectType := objectType, tr_ObjectID := objectID,
                       tr_Relation := relation, tr_ConditionName := conditionName, tr_Ulid := ulid,
                       tr_InsertedAt := insertedAt\<rparr>), conditionContext)
             }
         | _ \<Rightarrow> None)"

definition scan_record :: "'db conn \<Rightarrow> row \<Rightarrow> (err, TupleRecord) result" where
  "scan_record S r =
     (case scan_tuple S (map snd r) of
        None \<Rightarrow> Inl (cn_handle S scan_error None)
      | Some (record, None) \<Rightarrow> Inr record
      | Some (record, Some conditionContext) \<Rightarrow>
          (case pb_UnmarshalStruct (cn_proto S) conditionContext of
             Inl e \<Rightarrow> Inl e
           | Inr conditionContextStruct \<Rightarrow> Inr (record\<lparr>tr_ConditionContext := Some conditionContextStruct\<rparr>)))"

section \<open>The iterator\<close>

record SQLTupleIterator =
  it_sb :: select
  it_rows :: "(row list \<times> sql_err option) option"
  it_firstRow :: "TupleRecord option"

definition NewSQLTupleIterator :: "select \<Rightarrow> SQLTupleIterator" where
  "NewSQLTupleIterator sb = \<lparr>it_sb = sb, it_rows = None, it_firstRow = None\<rparr>"

text \<open>The rows, which are fetched by the first call that needs them.\<close>

definition fetchBuffer :: "'db conn \<Rightarrow> SQLTupleIterator \<Rightarrow> (err, row list \<times> sql_err option) result" where
  "fetchBuffer S t =
     (case it_rows t of
        Some rows \<Rightarrow> Inr rows
      | None \<Rightarrow> map_sum (\<lambda>e. cn_handle S e None) id (en_Query (cn_engine S) 0 (cn_db S) (it_sb t)))"

definition sql_next :: "'db conn \<Rightarrow> SQLTupleIterator \<Rightarrow> (err, TupleRecord) result \<times> SQLTupleIterator" where
  "sql_next S t =
     (case fetchBuffer S t of
        Inl e \<Rightarrow> (Inl e, t)
      | Inr (rows, rows_Err) \<Rightarrow>
          (case it_firstRow t of
             Some firstRow \<Rightarrow> (Inr firstRow, t\<lparr>it_rows := Some (rows, rows_Err), it_firstRow := None\<rparr>)
           | None \<Rightarrow>
               (case rows of
                  [] \<Rightarrow> (Inl (case rows_Err of Some e \<Rightarrow> cn_handle S e None | None \<Rightarrow> ErrIteratorDone),
                         t\<lparr>it_rows := Some (rows, rows_Err)\<rparr>)
                | row # rows \<Rightarrow> (scan_record S row, t\<lparr>it_rows := Some (rows, rows_Err)\<rparr>))))"

definition sql_head :: "'db conn \<Rightarrow> SQLTupleIterator \<Rightarrow> (err, TupleRecord) result \<times> SQLTupleIterator" where
  "sql_head S t =
     (case fetchBuffer S t of
        Inl e \<Rightarrow> (Inl e, t)
      | Inr (rows, rows_Err) \<Rightarrow>
          (case it_firstRow t of
             Some firstRow \<Rightarrow> (Inr firstRow, t\<lparr>it_rows := Some (rows, rows_Err)\<rparr>)
           | None \<Rightarrow>
               (case rows of
                  [] \<Rightarrow> (Inl (case rows_Err of Some e \<Rightarrow> cn_handle S e None | None \<Rightarrow> ErrIteratorDone),
                         t\<lparr>it_rows := Some (rows, rows_Err)\<rparr>)
                | row # rows \<Rightarrow>
                    (case scan_record S row of
                       Inl e \<Rightarrow> (Inl e, t\<lparr>it_rows := Some (rows, rows_Err)\<rparr>)
                     | Inr record \<Rightarrow> (Inr record, t\<lparr>it_rows := Some (rows, rows_Err), it_firstRow := Some record\<rparr>)))))"

text \<open>The loop of \<^verbatim>\<open>ToArray\<close>, for the given number of tuples, and the token.\<close>

fun sql_ToArray :: "'db conn \<Rightarrow> nat \<Rightarrow> SQLTupleIterator \<Rightarrow> (err, tuple list \<times> string) result" where
  "sql_ToArray S 0 t =
     (case sql_next S t of
        (Inl e, _) \<Rightarrow> if errors_Is e ErrIteratorDone then Inr ([], []) else Inl e
      | (Inr tupleRecord, _) \<Rightarrow> Inr ([], tr_Ulid tupleRecord))"
| "sql_ToArray S (Suc n) t =
     (case sql_next S t of
        (Inl e, _) \<Rightarrow> if errors_Is e ErrIteratorDone then Inr ([], []) else Inl e
      | (Inr tupleRecord, t) \<Rightarrow> map_sum id (map_prod (Cons (AsTuple tupleRecord)) id) (sql_ToArray S n t))"

definition sql_Next :: "'db conn \<Rightarrow> ctx \<Rightarrow> SQLTupleIterator \<Rightarrow> ((err, tuple) result \<times> SQLTupleIterator) option" where
  "sql_Next S c t =
     (case ctx_Err c of
        Some e \<Rightarrow> Some (Inl e, t)
      | None \<Rightarrow> Some (map_prod (map_sum id AsTuple) id (sql_next S t)))"

definition sql_Head :: "'db conn \<Rightarrow> ctx \<Rightarrow> SQLTupleIterator \<Rightarrow> ((err, tuple) result \<times> SQLTupleIterator) option" where
  "sql_Head S c t =
     (case ctx_Err c of
        Some e \<Rightarrow> Some (Inl e, t)
      | None \<Rightarrow> Some (map_prod (map_sum id AsTuple) id (sql_head S t)))"

text \<open>Closed rows have no more rows and no error; rows that were never fetched are not closed.\<close>

definition sql_Stop :: "SQLTupleIterator \<Rightarrow> SQLTupleIterator" where
  "sql_Stop t = t\<lparr>it_rows := map_option (\<lambda>_. ([], None)) (it_rows t)\<rparr>"

definition sqlTupleIterator :: "'db conn \<Rightarrow> (SQLTupleIterator, tuple) Iterator" where
  "sqlTupleIterator S = \<lparr>iNext = sql_Next S, iStop = sql_Stop, iHead = sql_Head S\<rparr>"

section \<open>Writing tuples\<close>

fun TupleOperation_Number :: "TupleOperation \<Rightarrow> int" where
  "TupleOperation_Number TUPLE_OPERATION_WRITE = 0"
| "TupleOperation_Number TUPLE_OPERATION_DELETE = 1"

text \<open>The cells that identify a tuple, in the order of the statements.\<close>

definition key_cells :: "'db conn \<Rightarrow> string \<Rightarrow> 'a tuple_key_nc_scheme \<Rightarrow> row" where
  "key_cells S store tk =
     (let (objectType, objectID) = SplitObject (tk_object tk)
      in [(''store'', Text store), (''object_type'', Text objectType), (''object_id'', Text objectID),
          (''relation'', Text (tk_relation tk))] @ cn_user S (tk_user tk))"

definition user_type_cell :: "'a tuple_key_nc_scheme \<Rightarrow> string \<times> sql_value" where
  "user_type_cell tk = (''user_type'', Text (UserType_String (GetUserTypeFromUser (tk_user tk))))"

definition Eq_cells :: "row \<Rightarrow> sqlizer" where
  "Eq_cells cells = Eq (map (\<lambda>(c, v). (c, Is v)) cells)"

text \<open>A row of the change log, and the statement that inserts such rows.\<close>

definition changelog_row ::
  "'db conn \<Rightarrow> string \<Rightarrow> 'a tuple_key_nc_scheme \<Rightarrow> string \<times> string option \<Rightarrow> TupleOperation \<Rightarrow> string \<Rightarrow> (string \<times> sql_expr) list" where
  "changelog_row S store tk condition operation ulid =
     map (map_prod id Val) (key_cells S store tk) @
     [(''condition_name'', Val (Text (fst condition))), (''condition_context'', Val (blob (snd condition))),
      (''operation'', Val (Number (TupleOperation_Number operation))), (''ulid'', Val (Text ulid)), (''inserted_at'', NOW)]"

definition changelog_insert :: "(string \<times> sql_expr) list list \<Rightarrow> statement" where
  "changelog_insert rows = Insert ''changelog'' (map fst (hd rows)) (map (map snd) rows) None []"

fun sql_delete_loop ::
  "'db conn \<Rightarrow> string \<Rightarrow> (nat \<Rightarrow> string) \<Rightarrow> nat \<Rightarrow> 'db \<Rightarrow> (string \<times> sql_expr) list list \<Rightarrow> tuple_key_nc list \<Rightarrow>
   (err, 'db \<times> (string \<times> sql_expr) list list \<times> nat) result" where
  "sql_delete_loop S store ulid_at k txn changelog [] = Inr (txn, changelog, k)"
| "sql_delete_loop S store ulid_at k txn changelog (tk # deletes) =
     (case en_Exec (cn_engine S) 0 txn (Delete ''tuple'' [Eq_cells (key_cells S store tk @ [user_type_cell tk])]) of
        Inl e \<Rightarrow> Inl (cn_handle S e None)
      | Inr (Inl e, _, txn) \<Rightarrow> Inl (cn_handle S e None)
      | Inr (Inr rowsAffected, _, txn) \<Rightarrow>
          if rowsAffected \<noteq> 1 then Inl (InvalidWriteInputError tk TUPLE_OPERATION_DELETE)
          else sql_delete_loop S store ulid_at (k + 1) txn
                 (changelog @ [changelog_row S store tk ([], None) TUPLE_OPERATION_DELETE (ulid_at k)]) deletes)"

definition tuple_row :: "'db conn \<Rightarrow> string \<Rightarrow> tuple_key \<Rightarrow> string \<times> string option \<Rightarrow> string \<Rightarrow> (string \<times> sql_expr) list" where
  "tuple_row S store tk condition ulid =
     map (map_prod id Val) (key_cells S store tk @ [user_type_cell tk]) @
     [(''condition_name'', Val (Text (fst condition))), (''condition_context'', Val (blob (snd condition))),
      (''ulid'', Val (Text ulid)), (''inserted_at'', NOW)]"

fun sql_write_loop ::
  "'db conn \<Rightarrow> string \<Rightarrow> (nat \<Rightarrow> string) \<Rightarrow> nat \<Rightarrow> 'db \<Rightarrow> (string \<times> sql_expr) list list \<Rightarrow> tuple_key list \<Rightarrow>
   (err, 'db \<times> (string \<times> sql_expr) list list) result" where
  "sql_write_loop S store ulid_at k txn changelog [] = Inr (txn, changelog)"
| "sql_write_loop S store ulid_at k txn changelog (tk # writes) =
     (case MarshalRelationshipCondition (cn_proto S) (tk_condition tk) of
        Inl e \<Rightarrow> Inl e
      | Inr condition \<Rightarrow>
          (let row = tuple_row S store tk condition (ulid_at k)
           in case en_Exec (cn_engine S) 0 txn (Insert ''tuple'' (map fst row) [map snd row] None []) of
                Inl e \<Rightarrow> Inl (cn_handle S e (Some tk))
              | Inr (_, _, txn) \<Rightarrow>
                  sql_write_loop S store ulid_at (k + 1) txn
                    (changelog @ [changelog_row S store tk condition TUPLE_OPERATION_WRITE (ulid_at k)]) writes))"

text \<open>\<^verbatim>\<open>sqlcommon.Write\<close>: the new state of the database. A transaction that does not commit is rolled back.\<close>

definition sql_Write ::
  "'db conn \<Rightarrow> (nat \<Rightarrow> string) \<Rightarrow> string \<Rightarrow> tuple_key_nc list \<Rightarrow> tuple_key list \<Rightarrow> (err, 'db) result" where
  "sql_Write S ulid_at store deletes writes =
     (let E = cn_engine S
      in case en_Begin E 0 (cn_db S) of
           Inl e \<Rightarrow> Inl (cn_handle S e None)
         | Inr txn \<Rightarrow>
             (case sql_delete_loop S store ulid_at 0 txn [] deletes of
                Inl e \<Rightarrow> Inl e
              | Inr (txn, changelog, k) \<Rightarrow>
                  (case sql_write_loop S store ulid_at k txn changelog writes of
                     Inl e \<Rightarrow> Inl e
                   | Inr (txn, changelog) \<Rightarrow>
                       (case (if writes \<noteq> [] \<or> deletes \<noteq> []
                              then map_sum (\<lambda>e. cn_handle S e None) (\<lambda>(_, _, txn). txn)
                                     (en_Exec E 0 txn (changelog_insert changelog))
                              else Inr txn) of
                          Inl e \<Rightarrow> Inl e
                        | Inr txn \<Rightarrow> map_sum (\<lambda>e. cn_handle S e None) id (en_Commit E 0 txn)))))"

section \<open>Authorization models\<close>

definition sql_WriteAuthorizationModel :: "'db conn \<Rightarrow> string \<Rightarrow> authorization_model \<Rightarrow> (err, 'db) result" where
  "sql_WriteAuthorizationModel S store model =
     (if length (am_type_definitions model) < 1 then Inr (cn_db S)
      else case pb_MarshalModel (cn_proto S) model of
             Inl e \<Rightarrow> Inl e
           | Inr pbdata \<Rightarrow>
               map_sum (\<lambda>e. cn_handle S e None) (\<lambda>(_, _, db). db)
                 (en_Exec (cn_engine S) 0 (cn_db S)
                    (Insert ''authorization_model''
                       [''store'', ''authorization_model_id'', ''schema_version'', ''type'', ''type_definition'', ''serialized_protobuf'']
                       [[Val (Text store), Val (Text (am_id model)), Val (Text (am_schema_version model)), Val (Text []),
                         Val Null, Val (Blob pbdata)]] None [])))"

definition model_columns :: "string list" where
  "model_columns = [''authorization_model_id'', ''schema_version'', ''type'', ''type_definition'', ''serialized_protobuf'']"

definition scan_model :: "row \<Rightarrow> (sql_err, string \<times> string \<times> string option \<times> string option) result" where
  "scan_model r =
     (case map snd r of
        [i, v, t, d, m] \<Rightarrow>
          scanned (do {
            modelID \<leftarrow> String i; schemaVersion \<leftarrow> String v; typeName \<leftarrow> String t;
            marshalledTypeDef \<leftarrow> Bytes d; marshalledModel \<leftarrow> Bytes m;
            Some (modelID, schemaVersion, marshalledTypeDef, marshalledModel) })
      | _ \<Rightarrow> Inl scan_error)"

definition lift_err :: "err \<Rightarrow> sql_err" where
  "lift_err e = DriverError [] e"

text \<open>A nil slice is read as an empty message.\<close>

definition unmarshal_type :: "proto \<Rightarrow> string option \<Rightarrow> (sql_err, type_definition) result" where
  "unmarshal_type P b = map_sum lift_err id (pb_UnmarshalTypeDef P (case b of None \<Rightarrow> [] | Some s \<Rightarrow> s))"

text \<open>
  The loop over the rows after the first one, for a model in the old format with a row for every type. The schema
  version is scanned before the id is compared.
\<close>

fun type_rows ::
  "proto \<Rightarrow> string \<Rightarrow> string \<Rightarrow> type_definition list \<Rightarrow> row list \<Rightarrow> sql_err option \<Rightarrow> (sql_err, authorization_model) result" where
  "type_rows P modelID schemaVersion typeDefs [] rows_Err =
     (case rows_Err of
        Some e \<Rightarrow> Inl e
      | None \<Rightarrow>
          if typeDefs = [] then Inl (lift_err ErrNotFound)
          else Inr \<lparr>am_id = modelID, am_schema_version = schemaVersion, am_type_definitions = typeDefs, am_conditions = []\<rparr>)"
| "type_rows P modelID schemaVersion typeDefs (row # rows) rows_Err =
     (case scan_model row of
        Inl e \<Rightarrow> Inl e
      | Inr (scannedModelID, schemaVersion, marshalledTypeDef, marshalledModel) \<Rightarrow>
          if scannedModelID \<noteq> modelID then type_rows P modelID schemaVersion typeDefs [] None
          else (case unmarshal_type P marshalledTypeDef of
                  Inl e \<Rightarrow> Inl e
                | Inr typeDef \<Rightarrow> type_rows P modelID schemaVersion (typeDefs @ [typeDef]) rows rows_Err))"

definition constructAuthorizationModelFromSQLRows ::
  "proto \<Rightarrow> row list \<Rightarrow> sql_err option \<Rightarrow> (sql_err, authorization_model) result" where
  "constructAuthorizationModelFromSQLRows P rows rows_Err =
     (case rows of
        [] \<Rightarrow> type_rows P [] [] [] [] rows_Err
      | row # rows \<Rightarrow>
          (case scan_model row of
             Inl e \<Rightarrow> Inl e
           | Inr (modelID, schemaVersion, marshalledTypeDef, marshalledModel) \<Rightarrow>
               (case marshalledModel of
                  Some (b # bs) \<Rightarrow> map_sum lift_err id (pb_UnmarshalModel P (b # bs))
                | _ \<Rightarrow>
                    (case unmarshal_type P marshalledTypeDef of
                       Inl e \<Rightarrow> Inl e
                     | Inr typeDef \<Rightarrow> type_rows P modelID schemaVersion [typeDef] rows rows_Err))))"

definition query_model :: "'db conn \<Rightarrow> select \<Rightarrow> (err, authorization_model) result" where
  "query_model S q =
     map_sum (\<lambda>e. cn_handle S e None) id
       (case en_Query (cn_engine S) 0 (cn_db S) q of
          Inl e \<Rightarrow> Inl e
        | Inr (rows, rows_Err) \<Rightarrow> constructAuthorizationModelFromSQLRows (cn_proto S) rows rows_Err)"

definition sql_FindLatestAuthorizationModel :: "'db conn \<Rightarrow> string \<Rightarrow> (err, authorization_model) result" where
  "sql_FindLatestAuthorizationModel S store =
     query_model S
       (OrderByDesc ''authorization_model_id'' (Where (Eq_cells [(''store'', Text store)]) (Select model_columns ''authorization_model'')))"

definition sql_ReadAuthorizationModel :: "'db conn \<Rightarrow> string \<Rightarrow> string \<Rightarrow> (err, authorization_model) result" where
  "sql_ReadAuthorizationModel S store modelID =
     query_model S
       (Where (Eq_cells [(''store'', Text store), (''authorization_model_id'', Text modelID)]) (Select model_columns ''authorization_model''))"

section \<open>Readiness and tokens\<close>

record ReadinessStatus =
  rs_Message :: string
  rs_IsReady :: bool

definition MinimumSupportedDatastoreSchemaRevision :: int where
  "MinimumSupportedDatastoreSchemaRevision = 4"

text \<open>The result of the ping and the revision that the migration library reports are arguments.\<close>

definition sql_IsReady :: "bool \<Rightarrow> err option \<Rightarrow> (err, int) result \<Rightarrow> (err, ReadinessStatus) result" where
  "sql_IsReady skipVersionCheck ping version =
     (case ping of
        Some pingErr \<Rightarrow> Inl pingErr
      | None \<Rightarrow>
          if skipVersionCheck then Inr \<lparr>rs_Message = [], rs_IsReady = True\<rparr>
          else (case version of
                  Inl e \<Rightarrow> Inl e
                | Inr revision \<Rightarrow>
                    if revision < MinimumSupportedDatastoreSchemaRevision
                    then Inr \<lparr>rs_Message = ''datastore requires migrations: at revision '' @ [CHR 0x27] @ Itoa revision @ [CHR 0x27] @
                                '', but requires '' @ [CHR 0x27] @ Itoa MinimumSupportedDatastoreSchemaRevision @ [CHR 0x27] @
                                ''. Run '' @ [CHR 0x27] @ ''openfga migrate'' @ [CHR 0x27] @ ''.'',
                              rs_IsReady = False\<rparr>
                    else Inr \<lparr>rs_Message = [], rs_IsReady = True\<rparr>))"

definition AddFromUlid :: "select \<Rightarrow> string \<Rightarrow> bool \<Rightarrow> select" where
  "AddFromUlid sb fromUlid sortDescending =
     Where (if sortDescending then Lt ''ulid'' (Text fromUlid) else Gt ''ulid'' (Text fromUlid)) sb"

end
