(* ===== verification/SqlStores.thy ===== *)
theory SqlStores
  imports SqlCommon
begin

text \<open>
  The three SQL datastores (\<^verbatim>\<open>pkg/storage/mysql\<close>, \<^verbatim>\<open>pkg/storage/postgres\<close>, \<^verbatim>\<open>pkg/storage/sqlite\<close>): the statement that each
  operation builds and what it does with the answer. Traces and metrics are left out. An outer \<open>None\<close> is a panic.
\<close>

section \<open>Statements of all datastores\<close>

definition tuple_columns :: "'db conn \<Rightarrow> string list" where
  "tuple_columns S =
     [''store'', ''object_type'', ''object_id'', ''relation''] @ map fst (cn_user S []) @
     [''condition_name'', ''condition_context'', ''ulid'', ''inserted_at'']"

text \<open>\<^verbatim>\<open>Where(sq.Eq{c: v})\<close> if the text is not empty.\<close>

definition WhereText :: "string \<Rightarrow> string \<Rightarrow> select \<Rightarrow> select" where
  "WhereText c s sb = (if s \<noteq> [] then Where (Eq_cells [(c, Text s)]) sb else sb)"

definition object_where :: "string \<Rightarrow> select \<Rightarrow> select" where
  "object_where ob sb =
     (let (objectType, objectID) = SplitObject ob
      in WhereText ''object_id'' objectID (WhereText ''object_type'' objectType sb))"

definition tuples_select :: "'db conn \<Rightarrow> string \<Rightarrow> select" where
  "tuples_select S store = Where (Eq_cells [(''store'', Text store)]) (Select (tuple_columns S) ''tuple'')"

definition read_select :: "'db conn \<Rightarrow> string \<Rightarrow> tuple_key \<Rightarrow> PaginationOptions option \<Rightarrow> select" where
  "read_select S store tupleKey options =
     (let sb = tuples_select S store;
          sb = (if options \<noteq> None then OrderBy ''ulid'' sb else sb);
          sb = WhereText ''relation'' (tk_relation tupleKey) (object_where (tk_object tupleKey) sb);
          sb = (if tk_user tupleKey \<noteq> [] then Where (Eq_cells (cn_user S (tk_user tupleKey))) sb else sb)
      in case options of
           None \<Rightarrow> sb
         | Some p \<Rightarrow>
             (let sb = (if From p \<noteq> [] then Where (GtOrEq ''ulid'' (Text (From p))) sb else sb)
              in if PageSize p \<noteq> 0 then Limit (PageSize p + 1) sb else sb))"

definition ReadPage_from :: "'db conn \<Rightarrow> SQLTupleIterator \<Rightarrow> PaginationOptions \<Rightarrow> (err, tuple list \<times> string) result" where
  "ReadPage_from S iter p = sql_ToArray S (nat (PageSize p)) iter"

definition user_tuple_select :: "'db conn \<Rightarrow> string \<Rightarrow> tuple_key \<Rightarrow> select" where
  "user_tuple_select S store tupleKey =
     Where (Eq_cells (key_cells S store tupleKey @ [user_type_cell tupleKey]))
       (Select ([''object_type'', ''object_id'', ''relation''] @ map fst (cn_user S []) @ [''condition_name'', ''condition_context''])
          ''tuple'')"

definition scan_user_tuple :: "'db conn \<Rightarrow> sql_value list \<Rightarrow> (TupleRecord \<times> string \<times> string option) option" where
  "scan_user_tuple S vs =
     (let n = length (cn_user S [])
      in case (take 3 vs, drop (3 + n) vs) of
           ([ot, oid, rel], [cn, cc]) \<Rightarrow>
             do {
               objectType \<leftarrow> String ot; objectID \<leftarrow> String oid; relation \<leftarrow> String rel;
               set_user \<leftarrow> cn_scan_user S (take n (drop 3 vs)); conditionName \<leftarrow> NullString cn; conditionContext \<leftarrow> Bytes cc;
               Some (set_user (empty_record\<lparr>tr_ObjectType := objectType, tr_ObjectID := objectID, tr_Relation := relation\<rparr>),
                     conditionName, conditionContext)
             }
         | _ \<Rightarrow> None)"

definition query_user_tuple :: "'db conn \<Rightarrow> string \<Rightarrow> tuple_key \<Rightarrow> (err, tuple) result" where
  "query_user_tuple S store tupleKey =
     (case query_row (cn_engine S) (cn_db S) (user_tuple_select S store tupleKey) of
        Inl e \<Rightarrow> Inl (cn_handle S e None)
      | Inr row \<Rightarrow>
          (case scan_user_tuple S (map snd row) of
             None \<Rightarrow> Inl (cn_handle S scan_error None)
           | Some (record, conditionName, conditionContext) \<Rightarrow>
               if conditionName \<noteq> []
               then let record = record\<lparr>tr_ConditionName := conditionName\<rparr>
                    in case conditionContext of
                         None \<Rightarrow> Inr (AsTuple record)
                       | Some b \<Rightarrow>
                           (case pb_UnmarshalStruct (cn_proto S) b of
                              Inl e \<Rightarrow> Inl e
                            | Inr conditionContextStruct \<Rightarrow>
                                Inr (AsTuple (record\<lparr>tr_ConditionContext := Some conditionContextStruct\<rparr>)))
               else Inr (AsTuple record)))"

text \<open>\<^verbatim>\<open>ReadUsersetTuples\<close>, with the conditions for an allowed type of user as an argument.\<close>

definition usersets_select ::
  "'db conn \<Rightarrow> (relation_reference \<Rightarrow> sqlizer list) \<Rightarrow> string \<Rightarrow> ReadUsersetTuplesFilter \<Rightarrow> select" where
  "usersets_select S userset_conditions store flt =
     (let sb = Where (Eq_cells [(''user_type'', Text (UserType_String UserSet))]) (tuples_select S store);
          sb = WhereText ''relation'' (ruf_Relation flt) (object_where (ruf_Object flt) sb)
      in if ruf_AllowedUserTypeRestrictions flt \<noteq> []
         then Where (Or (concat (map userset_conditions (ruf_AllowedUserTypeRestrictions flt)))) sb
         else sb)"

text \<open>\<^verbatim>\<open>ReadStartingWithUser\<close>, with the condition on the user as an argument.\<close>

definition starting_with_select :: "'db conn \<Rightarrow> (select \<Rightarrow> select) \<Rightarrow> string \<Rightarrow> ReadStartingWithUserFilter \<Rightarrow> select" where
  "starting_with_select S users store flt =
     (let builder = OrderBy ''object_id''
            (users
              (Where (Eq_cells [(''store'', Text store), (''object_type'', Text (rsf_ObjectType flt)), (''relation'', Text (rsf_Relation flt))])
                (Select (tuple_columns S) ''tuple'')))
      in case rsf_ObjectIDs flt of
           Some (i # is) \<Rightarrow> Where (Eq [(''object_id'', In (map Text (i # is)))]) builder
         | _ \<Rightarrow> builder)"

text \<open>Stores.\<close>

definition store_columns :: "string list" where
  "store_columns = [''id'', ''name'', ''created_at'', ''updated_at'']"

definition scan_store :: "row \<Rightarrow> (sql_err, store) result" where
  "scan_store r =
     (case map snd r of
        [i, n, ca, ua] \<Rightarrow>
          scanned (do {
            storeID \<leftarrow> String i; name \<leftarrow> String n; createdAt \<leftarrow> Time ca; updatedAt \<leftarrow> Time ua;
            Some \<lparr>st_id = storeID, st_name = name, st_created_at = createdAt, st_updated_at = updatedAt\<rparr> })
      | _ \<Rightarrow> Inl scan_error)"

definition store_insert :: "store \<Rightarrow> string list \<Rightarrow> statement" where
  "store_insert st ret = Insert ''store'' store_columns [[Val (Text (st_id st)), Val (Text (st_name st)), NOW, NOW]] None ret"

text \<open>An \<^verbatim>\<open>INSERT ... RETURNING\<close>, whose row is scanned.\<close>

definition insert_store_returning :: "'db conn \<Rightarrow> store \<Rightarrow> (err, store \<times> 'db) result" where
  "insert_store_returning S st =
     map_sum (\<lambda>e. cn_handle S e None) id
       (case en_Exec (cn_engine S) 0 (cn_db S) (store_insert st store_columns) of
          Inl e \<Rightarrow> Inl e
        | Inr (_, [], db) \<Rightarrow> Inl ErrNoRows
        | Inr (_, row # _, db) \<Rightarrow> map_sum id (\<lambda>st. (st, db)) (scan_store row))"

definition query_store :: "'db conn \<Rightarrow> string \<Rightarrow> (err, store) result" where
  "query_store S storeID =
     (case query_row (cn_engine S) (cn_db S)
             (Where (Eq_cells [(''id'', Text storeID), (''deleted_at'', Null)]) (Select store_columns ''store'')) of
        Inl e \<Rightarrow> if e = ErrNoRows then Inl ErrNotFound else Inl (cn_handle S e None)
      | Inr row \<Rightarrow> map_sum (\<lambda>e. cn_handle S e None) id (scan_store row))"

text \<open>The rows of a query, scanned one after the other; \<^verbatim>\<open>rows.Err\<close> is checked at the end.\<close>

fun scan_rows :: "(row \<Rightarrow> (sql_err, 'a) result) \<Rightarrow> row list \<Rightarrow> sql_err option \<Rightarrow> (sql_err, 'a list) result" where
  "scan_rows scan [] rows_Err = (case rows_Err of Some e \<Rightarrow> Inl e | None \<Rightarrow> Inr [])"
| "scan_rows scan (row # rows) rows_Err =
     (case scan row of Inl e \<Rightarrow> Inl e | Inr x \<Rightarrow> map_sum id (Cons x) (scan_rows scan rows rows_Err))"

definition query_rows :: "'db conn \<Rightarrow> (row \<Rightarrow> (sql_err, 'a) result) \<Rightarrow> select \<Rightarrow> (err, 'a list) result" where
  "query_rows S scan q =
     map_sum (\<lambda>e. cn_handle S e None) id
       (case en_Query (cn_engine S) 0 (cn_db S) q of
          Inl e \<Rightarrow> Inl e
        | Inr (rows, rows_Err) \<Rightarrow> scan_rows scan rows rows_Err)"

definition PageLimit :: "PaginationOptions \<Rightarrow> select \<Rightarrow> select" where
  "PageLimit p sb = (if PageSize p > 0 then Limit (PageSize p + 1) sb else sb)"

definition query_stores :: "'db conn \<Rightarrow> ListStoresOptions \<Rightarrow> (err, store list \<times> string) result option" where
  "query_stores S options =
     (let p = lso_Pagination options;
          whereClause =
            [Eq_cells [(''deleted_at'', Null)]] @
            (if lso_IDs options \<noteq> [] then [Eq [(''id'', In (map Text (lso_IDs options)))]] else []) @
            (if lso_Name options \<noteq> [] then [Eq_cells [(''name'', Text (lso_Name options))]] else []) @
            (if From p \<noteq> [] then [GtOrEq ''id'' (Text (From p))] else []);
          sb = PageLimit p (OrderBy ''id'' (Where (And whereClause) (Select store_columns ''store'')))
      in case query_rows S scan_store sb of
           Inl e \<Rightarrow> Some (Inl e)
         | Inr stores \<Rightarrow>
             if int (length stores) > PageSize p
             then if PageSize p < 0 then None
                  else Some (Inr (take (nat (PageSize p)) stores, st_id (last stores)))
             else Some (Inr (stores, [])))"

definition delete_store :: "'db conn \<Rightarrow> string \<Rightarrow> (err, 'db) result" where
  "delete_store S storeID =
     map_sum (\<lambda>e. cn_handle S e None) (\<lambda>(_, _, db). db)
       (en_Exec (cn_engine S) 0 (cn_db S) (Update ''store'' [(''deleted_at'', NOW)] [Eq_cells [(''id'', Text storeID)]]))"

text \<open>Assertions.\<close>

definition upsert_assertions :: "'db conn \<Rightarrow> string \<Rightarrow> string \<Rightarrow> assertion list \<Rightarrow> (err, 'db) result" where
  "upsert_assertions S store modelID asserts =
     (case pb_MarshalAssertions (cn_proto S) asserts of
        Inl e \<Rightarrow> Inl e
      | Inr marshalledAssertions \<Rightarrow>
          map_sum (\<lambda>e. cn_handle S e None) (\<lambda>(_, _, db). db)
            (en_Exec (cn_engine S) 0 (cn_db S)
               (Insert ''assertion'' [''store'', ''authorization_model_id'', ''assertions'']
                  [[Val (Text store), Val (Text modelID), Val (Blob marshalledAssertions)]]
                  (Some ([''store'', ''authorization_model_id''], ''assertions'', Blob marshalledAssertions)) [])))"

definition query_assertions :: "'db conn \<Rightarrow> string \<Rightarrow> string \<Rightarrow> (err, assertion list) result" where
  "query_assertions S store modelID =
     (case query_row (cn_engine S) (cn_db S)
             (Where (Eq_cells [(''store'', Text store), (''authorization_model_id'', Text modelID)]) (Select [''assertions''] ''assertion'')) of
        Inl e \<Rightarrow> if e = ErrNoRows then Inr [] else Inl (cn_handle S e None)
      | Inr row \<Rightarrow>
          (case map (Bytes \<circ> snd) row of
             [Some b] \<Rightarrow> pb_UnmarshalAssertions (cn_proto S) (case b of None \<Rightarrow> [] | Some s \<Rightarrow> s)
           | _ \<Rightarrow> Inl (cn_handle S scan_error None)))"

text \<open>
  The change log, with the condition on the horizon as an argument. The loop over the rows ends at the last row that
  can be read, and \<^verbatim>\<open>rows.Err\<close> is not checked.
\<close>

definition changes_select :: "'db conn \<Rightarrow> sqlizer \<Rightarrow> string \<Rightarrow> ReadChangesFilter \<Rightarrow> ReadChangesOptions \<Rightarrow> select" where
  "changes_select S horizon store flt options =
     (let p = rco_Pagination options;
          sb = Where horizon (Where (Eq_cells [(''store'', Text store)])
            (Select ([''ulid'', ''object_type'', ''object_id'', ''relation''] @ map fst (cn_user S []) @
                     [''operation'', ''condition_name'', ''condition_context'', ''inserted_at'']) ''changelog''));
          sb = (if rco_SortDesc options then OrderByDesc ''ulid'' sb else OrderBy ''ulid'' sb);
          sb = WhereText ''object_type'' (rcf_ObjectType flt) sb;
          sb = (if From p \<noteq> [] then AddFromUlid sb (From p) (rco_SortDesc options) else sb)
      in if PageSize p > 0 then Limit (PageSize p) sb else sb)"

definition scan_change :: "'db conn \<Rightarrow> sql_value list \<Rightarrow> (string \<times> TupleRecord \<times> int \<times> string option) option" where
  "scan_change S vs =
     (let n = length (cn_user S [])
      in case (take 4 vs, drop (4 + n) vs) of
           ([ul, ot, oid, rel], [op, cn, cc, at]) \<Rightarrow>
             do {
               ulid \<leftarrow> String ul; objectType \<leftarrow> String ot; objectID \<leftarrow> String oid; relation \<leftarrow> String rel;
               set_user \<leftarrow> cn_scan_user S (take n (drop 4 vs)); operation \<leftarrow> Time op;
               conditionName \<leftarrow> NullString cn; conditionContext \<leftarrow> Bytes cc; insertedAt \<leftarrow> Time at;
               Some (ulid, set_user (empty_record\<lparr>tr_ObjectType := objectType, tr_ObjectID := objectID, tr_Relation := relation,
                       tr_ConditionName := conditionName, tr_InsertedAt := insertedAt\<rparr>), operation, conditionContext)
             }
         | _ \<Rightarrow> None)"

definition change_of :: "proto \<Rightarrow> TupleRecord \<Rightarrow> int \<Rightarrow> string option \<Rightarrow> (err, tuple_change) result" where
  "change_of P record operation conditionContext =
     (case (case conditionContext of
              Some b \<Rightarrow> if tr_ConditionName record \<noteq> [] then pb_UnmarshalStruct P b else Inr []
            | None \<Rightarrow> Inr []) of
        Inl e \<Rightarrow> Inl e
      | Inr conditionContextStruct \<Rightarrow>
          Inr \<lparr>tc_tuple_key = t_key (AsTuple (record\<lparr>tr_ConditionContext := Some conditionContextStruct\<rparr>)),
               tc_operation = (if operation = 1 then TUPLE_OPERATION_DELETE else TUPLE_OPERATION_WRITE),
               tc_timestamp = tr_InsertedAt record\<rparr>)"

fun changes_loop :: "'db conn \<Rightarrow> row list \<Rightarrow> string \<Rightarrow> (err, tuple_change list \<times> string) result" where
  "changes_loop S [] ulid = Inr ([], ulid)"
| "changes_loop S (row # rows) _ =
     (case scan_change S (map snd row) of
        None \<Rightarrow> Inl (cn_handle S scan_error None)
      | Some (ulid, record, operation, conditionContext) \<Rightarrow>
          (case change_of (cn_proto S) record operation conditionContext of
             Inl e \<Rightarrow> Inl e
           | Inr change \<Rightarrow> map_sum id (map_prod (Cons change) id) (changes_loop S rows ulid)))"

definition query_changes :: "'db conn \<Rightarrow> select \<Rightarrow> (err, tuple_change list \<times> string) result" where
  "query_changes S sb =
     (case en_Query (cn_engine S) 0 (cn_db S) sb of
        Inl e \<Rightarrow> Inl (cn_handle S e None)
      | Inr (rows, rows_Err) \<Rightarrow>
          (case changes_loop S rows [] of
             Inl e \<Rightarrow> Inl e
           | Inr (changes, ulid) \<Rightarrow> if changes = [] then Inl ErrNotFound else Inr (changes, ulid)))"

text \<open>The ids of a page of models, each of which is then read.\<close>

definition model_ids_select :: "string \<Rightarrow> PaginationOptions \<Rightarrow> select" where
  "model_ids_select store p =
     (let sb = OrderByDesc ''authorization_model_id'' (Where (Eq_cells [(''store'', Text store)])
                 ((Select [''authorization_model_id''] ''authorization_model'')\<lparr>q_distinct := True\<rparr>));
          sb = (if From p \<noteq> [] then Where (LtOrEq ''authorization_model_id'' (Text (From p))) sb else sb)
      in PageLimit p sb)"

definition scan_id :: "row \<Rightarrow> (sql_err, string) result" where
  "scan_id r = (case map snd r of [i] \<Rightarrow> scanned (String i) | _ \<Rightarrow> Inl scan_error)"

fun read_models :: "(string \<Rightarrow> (err, authorization_model) result) \<Rightarrow> string list \<Rightarrow> (err, authorization_model list) result" where
  "read_models rd [] = Inr []"
| "read_models rd (i # is) = (case rd i of Inl e \<Rightarrow> Inl e | Inr m \<Rightarrow> map_sum id (Cons m) (read_models rd is))"

definition query_models :: "'db conn \<Rightarrow> string \<Rightarrow> PaginationOptions \<Rightarrow> (err, authorization_model list \<times> string) result option" where
  "query_models S store p =
     (case query_rows S scan_id (model_ids_select store p) of
        Inl e \<Rightarrow> Some (Inl e)
      | Inr modelIDs \<Rightarrow>
          (if int (length modelIDs) > PageSize p
           then if PageSize p < 0 then None
                else Some (map_sum id (\<lambda>models. (models, last modelIDs))
                       (read_models (sql_ReadAuthorizationModel S store) (take (nat (PageSize p)) modelIDs)))
           else Some (map_sum id (\<lambda>models. (models, [])) (read_models (sql_ReadAuthorizationModel S store) modelIDs))))"

section \<open>MySQL\<close>

definition sql_cause :: "sql_err \<Rightarrow> err" where
  "sql_cause e = (case e of DriverError m c \<Rightarrow> c | _ \<Rightarrow> ErrText ''driver error'')"

definition mysql_HandleSQLError :: "sql_err \<Rightarrow> tuple_key option \<Rightarrow> err" where
  "mysql_HandleSQLError e arg =
     (if e = ErrNoRows then ErrNotFound
      else if e = MySQLError 1062
      then (case arg of
              Some tk \<Rightarrow> InvalidWriteInputError tk TUPLE_OPERATION_WRITE
            | None \<Rightarrow> ErrCollision)
      else ErrWrap ''sql error: '' (sql_cause e))"

definition mysql :: "'db engine \<Rightarrow> proto \<Rightarrow> 'db \<Rightarrow> 'db conn" where
  "mysql E P db =
     \<lparr>cn_engine = E, cn_db = db, cn_proto = P, cn_handle = mysql_HandleSQLError, cn_user = user_cells, cn_scan_user = scan_user\<rparr>"

definition mysql_read :: "'db conn \<Rightarrow> string \<Rightarrow> tuple_key \<Rightarrow> PaginationOptions option \<Rightarrow> SQLTupleIterator" where
  "mysql_read S store tupleKey options = NewSQLTupleIterator (read_select S store tupleKey options)"

definition mysql_Read :: "'db conn \<Rightarrow> string \<Rightarrow> tuple_key \<Rightarrow> (err, SQLTupleIterator) result" where
  "mysql_Read S store tupleKey = Inr (mysql_read S store tupleKey None)"

definition mysql_ReadPage :: "'db conn \<Rightarrow> string \<Rightarrow> tuple_key \<Rightarrow> PaginationOptions \<Rightarrow> (err, tuple list \<times> string) result" where
  "mysql_ReadPage S store tupleKey options = ReadPage_from S (mysql_read S store tupleKey (Some options)) options"

definition mysql_ReadUserTuple :: "'db conn \<Rightarrow> string \<Rightarrow> tuple_key \<Rightarrow> (err, tuple) result" where
  "mysql_ReadUserTuple S store tupleKey = query_user_tuple S store tupleKey"

definition like_conditions :: "relation_reference \<Rightarrow> sqlizer list" where
  "like_conditions userset =
     (case rr_ref userset of
        RelationRef _ \<Rightarrow> [Like ''_user'' (rr_type userset @ '':%#'' @ rr_GetRelation userset)]
      | WildcardRef \<Rightarrow> [Eq_cells [(''_user'', Text (rr_type userset @ '':*''))]]
      | _ \<Rightarrow> [])"

definition mysql_ReadUsersetTuples :: "'db conn \<Rightarrow> string \<Rightarrow> ReadUsersetTuplesFilter \<Rightarrow> (err, SQLTupleIterator) result" where
  "mysql_ReadUsersetTuples S store flt = Inr (NewSQLTupleIterator (usersets_select S like_conditions store flt))"

definition target_users :: "ReadStartingWithUserFilter \<Rightarrow> string list" where
  "target_users flt = map (\<lambda>u. if snd u \<noteq> [] then fst u @ ''#'' @ snd u else fst u) (rsf_UserFilter flt)"

definition mysql_ReadStartingWithUser :: "'db conn \<Rightarrow> string \<Rightarrow> ReadStartingWithUserFilter \<Rightarrow> (err, SQLTupleIterator) result" where
  "mysql_ReadStartingWithUser S store flt =
     Inr (NewSQLTupleIterator
            (starting_with_select S (Where (Eq [(''_user'', In (map Text (target_users flt)))])) store flt))"

definition mysql_Write ::
  "'db conn \<Rightarrow> (nat \<Rightarrow> string) \<Rightarrow> string \<Rightarrow> tuple_key_nc list \<Rightarrow> tuple_key list \<Rightarrow> (err, 'db) result" where
  "mysql_Write S ulid_at store deletes writes = sql_Write S ulid_at store deletes writes"

definition mysql_CreateStore :: "'db conn \<Rightarrow> store \<Rightarrow> (err, store \<times> 'db) result" where
  "mysql_CreateStore S st =
     map_sum (\<lambda>e. cn_handle S e None) id
       (case en_Begin (cn_engine S) 0 (cn_db S) of
          Inl e \<Rightarrow> Inl e
        | Inr txn \<Rightarrow>
            (case en_Exec (cn_engine S) 0 txn (store_insert st []) of
               Inl e \<Rightarrow> Inl e
             | Inr (_, _, txn) \<Rightarrow>
                 (case query_row (cn_engine S) txn
                         (Where (Eq_cells [(''id'', Text (st_id st))]) (Select store_columns ''store'')) of
                    Inl e \<Rightarrow> Inl e
                  | Inr row \<Rightarrow>
                      (case scan_store row of
                         Inl e \<Rightarrow> Inl e
                       | Inr created \<Rightarrow> map_sum id (\<lambda>db. (created, db)) (en_Commit (cn_engine S) 0 txn)))))"

definition mysql_GetStore :: "'db conn \<Rightarrow> string \<Rightarrow> (err, store) result" where
  "mysql_GetStore S storeID = query_store S storeID"

definition mysql_ListStores :: "'db conn \<Rightarrow> ListStoresOptions \<Rightarrow> (err, store list \<times> string) result option" where
  "mysql_ListStores S options = query_stores S options"

definition mysql_DeleteStore :: "'db conn \<Rightarrow> string \<Rightarrow> (err, 'db) result" where
  "mysql_DeleteStore S storeID = delete_store S storeID"

definition mysql_WriteAssertions :: "'db conn \<Rightarrow> string \<Rightarrow> string \<Rightarrow> assertion list \<Rightarrow> (err, 'db) result" where
  "mysql_WriteAssertions S store modelID asserts = upsert_assertions S store modelID asserts"

definition mysql_ReadAssertions :: "'db conn \<Rightarrow> string \<Rightarrow> string \<Rightarrow> (err, assertion list) result" where
  "mysql_ReadAssertions S store modelID = query_assertions S store modelID"

definition mysql_ReadAuthorizationModels ::
  "'db conn \<Rightarrow> string \<Rightarrow> PaginationOptions \<Rightarrow> (err, authorization_model list \<times> string) result option" where
  "mysql_ReadAuthorizationModels S store options = query_models S store options"

text \<open>The offset of the horizon is rounded down to microseconds.\<close>

definition mysql_ReadChanges ::
  "'db conn \<Rightarrow> string \<Rightarrow> ReadChangesFilter \<Rightarrow> ReadChangesOptions \<Rightarrow> (err, tuple_change list \<times> string) result" where
  "mysql_ReadChanges S store flt options =
     query_changes S
       (changes_select S (NotAfter ''inserted_at'' (rcf_HorizonOffset flt div 1000 * 1000)) store flt options)"

definition mysql_ReadAuthorizationModel :: "'db conn \<Rightarrow> string \<Rightarrow> string \<Rightarrow> (err, authorization_model) result" where
  "mysql_ReadAuthorizationModel S store modelID = sql_ReadAuthorizationModel S store modelID"

definition mysql_FindLatestAuthorizationModel :: "'db conn \<Rightarrow> string \<Rightarrow> (err, authorization_model) result" where
  "mysql_FindLatestAuthorizationModel S store = sql_FindLatestAuthorizationModel S store"

definition mysql_WriteAuthorizationModel :: "'db conn \<Rightarrow> string \<Rightarrow> authorization_model \<Rightarrow> (err, 'db) result" where
  "mysql_WriteAuthorizationModel S store model = sql_WriteAuthorizationModel S store model"

text \<open>The status with the new value of \<^verbatim>\<open>versionReady\<close>; the outcomes of the ping and of reading the revision are arguments.\<close>

definition mysql_IsReady :: "bool \<Rightarrow> err option \<Rightarrow> (err, int) result \<Rightarrow> (err, ReadinessStatus) result \<times> bool" where
  "mysql_IsReady versionReady ping version =
     (case sql_IsReady versionReady ping version of
        Inl e \<Rightarrow> (Inl e, versionReady)
      | Inr status \<Rightarrow> (Inr status, rs_IsReady status))"

text \<open>The address that \<^verbatim>\<open>mysql.New\<close> connects to; parsing and printing of addresses are arguments.\<close>

record dsn_config =
  dc_User :: string
  dc_Passwd :: string
  dc_AllowNativePasswords :: bool

definition mysql_New ::
  "(string \<Rightarrow> (err, 'u dsn_config_scheme) result) \<Rightarrow> ('u dsn_config_scheme \<Rightarrow> string) \<Rightarrow> string \<Rightarrow> Config \<Rightarrow> (err, string) result" where
  "mysql_New ParseDSN FormatDSN uri cfg =
     (if Username cfg \<noteq> [] \<or> Password cfg \<noteq> []
      then (case ParseDSN uri of
              Inl e \<Rightarrow> Inl (ErrWrap ''parse mysql connection dsn: '' e)
            | Inr dsnCfg \<Rightarrow>
                (let dsnCfg = (if Username cfg \<noteq> [] then dsnCfg\<lparr>dc_User := Username cfg\<rparr> else dsnCfg);
                     dsnCfg = (if Password cfg \<noteq> [] then dsnCfg\<lparr>dc_Passwd := Password cfg\<rparr> else dsnCfg)
                 in Inr (FormatDSN (dsnCfg\<lparr>dc_AllowNativePasswords := True\<rparr>))))
      else Inr uri)"

section \<open>PostgreSQL\<close>

fun Contains :: "string \<Rightarrow> string \<Rightarrow> bool" where
  "Contains [] t \<longleftrightarrow> t = []"
| "Contains (c # s) t \<longleftrightarrow> HasPrefix (c # s) t \<or> Contains s t"

definition postgres_HandleSQLError :: "sql_err \<Rightarrow> tuple_key option \<Rightarrow> err" where
  "postgres_HandleSQLError e arg =
     (if e = ErrNoRows then ErrNotFound
      else if (case e of DriverError m _ \<Rightarrow> Contains m ''duplicate key value'' | _ \<Rightarrow> False)
      then (case arg of
              Some tk \<Rightarrow> InvalidWriteInputError tk TUPLE_OPERATION_WRITE
            | None \<Rightarrow> ErrCollision)
      else ErrWrap ''sql error: '' (sql_cause e))"

record 'db postgres =
  pg_primary :: "'db conn"
  pg_secondary :: "'db conn option"

definition postgres_conn :: "'db engine \<Rightarrow> proto \<Rightarrow> 'db \<Rightarrow> 'db conn" where
  "postgres_conn E P db =
     \<lparr>cn_engine = E, cn_db = db, cn_proto = P, cn_handle = postgres_HandleSQLError, cn_user = user_cells, cn_scan_user = scan_user\<rparr>"

definition getReadDBInfo :: "'db postgres \<Rightarrow> 'db conn" where
  "getReadDBInfo s = (case pg_secondary s of Some c \<Rightarrow> c | None \<Rightarrow> pg_primary s)"

definition getReadStbl :: "'db postgres \<Rightarrow> nat option \<Rightarrow> 'db conn" where
  "getReadStbl s consistency =
     (if consistency = Some HIGHER_CONSISTENCY then pg_primary s
      else case pg_secondary s of Some c \<Rightarrow> c | None \<Rightarrow> pg_primary s)"

definition postgres_read :: "'db conn \<Rightarrow> string \<Rightarrow> tuple_key \<Rightarrow> PaginationOptions option \<Rightarrow> SQLTupleIterator" where
  "postgres_read readStbl store tupleKey options = NewSQLTupleIterator (read_select readStbl store tupleKey options)"

definition postgres_Read :: "'db postgres \<Rightarrow> nat \<Rightarrow> string \<Rightarrow> tuple_key \<Rightarrow> (err, SQLTupleIterator) result" where
  "postgres_Read s preference store tupleKey = Inr (postgres_read (getReadStbl s (Some preference)) store tupleKey None)"

definition postgres_ReadPage ::
  "'db postgres \<Rightarrow> nat \<Rightarrow> string \<Rightarrow> tuple_key \<Rightarrow> PaginationOptions \<Rightarrow> (err, tuple list \<times> string) result" where
  "postgres_ReadPage s preference store tupleKey options =
     (let S = getReadStbl s (Some preference)
      in ReadPage_from S (postgres_read S store tupleKey (Some options)) options)"

definition postgres_Write ::
  "'db postgres \<Rightarrow> (nat \<Rightarrow> string) \<Rightarrow> string \<Rightarrow> tuple_key_nc list \<Rightarrow> tuple_key list \<Rightarrow> (err, 'db) result" where
  "postgres_Write s ulid_at store deletes writes = sql_Write (pg_primary s) ulid_at store deletes writes"

definition postgres_ReadUserTuple :: "'db postgres \<Rightarrow> nat \<Rightarrow> string \<Rightarrow> tuple_key \<Rightarrow> (err, tuple) result" where
  "postgres_ReadUserTuple s preference store tupleKey = query_user_tuple (getReadStbl s (Some preference)) store tupleKey"

definition postgres_ReadUsersetTuples ::
  "'db postgres \<Rightarrow> nat \<Rightarrow> string \<Rightarrow> ReadUsersetTuplesFilter \<Rightarrow> (err, SQLTupleIterator) result" where
  "postgres_ReadUsersetTuples s preference store flt =
     Inr (NewSQLTupleIterator (usersets_select (getReadStbl s (Some preference)) like_conditions store flt))"

definition postgres_ReadStartingWithUser ::
  "'db postgres \<Rightarrow> nat \<Rightarrow> string \<Rightarrow> ReadStartingWithUserFilter \<Rightarrow> (err, SQLTupleIterator) result" where
  "postgres_ReadStartingWithUser s preference store flt =
     Inr (NewSQLTupleIterator
            (starting_with_select (getReadStbl s (Some preference)) (Where (Eq [(''_user'', In (map Text (target_users flt)))])) store flt))"

definition postgres_ReadAuthorizationModel :: "'db postgres \<Rightarrow> string \<Rightarrow> string \<Rightarrow> (err, authorization_model) result" where
  "postgres_ReadAuthorizationModel s store modelID = sql_ReadAuthorizationModel (getReadDBInfo s) store modelID"

definition postgres_FindLatestAuthorizationModel :: "'db postgres \<Rightarrow> string \<Rightarrow> (err, authorization_model) result" where
  "postgres_FindLatestAuthorizationModel s store = sql_FindLatestAuthorizationModel (getReadDBInfo s) store"

definition postgres_WriteAuthorizationModel :: "'db postgres \<Rightarrow> string \<Rightarrow> authorization_model \<Rightarrow> (err, 'db) result" where
  "postgres_WriteAuthorizationModel s store model = sql_WriteAuthorizationModel (pg_primary s) store model"

text \<open>The ids are read through the statement builder and the models through the connection, which are the same here.\<close>

definition postgres_ReadAuthorizationModels ::
  "'db postgres \<Rightarrow> string \<Rightarrow> PaginationOptions \<Rightarrow> (err, authorization_model list \<times> string) result option" where
  "postgres_ReadAuthorizationModels s store options = query_models (getReadStbl s None) store options"

definition postgres_CreateStore :: "'db postgres \<Rightarrow> store \<Rightarrow> (err, store \<times> 'db) result" where
  "postgres_CreateStore s st = insert_store_returning (pg_primary s) st"

definition postgres_GetStore :: "'db postgres \<Rightarrow> string \<Rightarrow> (err, store) result" where
  "postgres_GetStore s storeID = query_store (getReadStbl s None) storeID"

definition postgres_ListStores :: "'db postgres \<Rightarrow> ListStoresOptions \<Rightarrow> (err, store list \<times> string) result option" where
  "postgres_ListStores s options = query_stores (getReadStbl s None) options"

definition postgres_DeleteStore :: "'db postgres \<Rightarrow> string \<Rightarrow> (err, 'db) result" where
  "postgres_DeleteStore s storeID = delete_store (pg_primary s) storeID"

definition postgres_WriteAssertions :: "'db postgres \<Rightarrow> string \<Rightarrow> string \<Rightarrow> assertion list \<Rightarrow> (err, 'db) result" where
  "postgres_WriteAssertions s store modelID asserts = upsert_assertions (pg_primary s) store modelID asserts"

definition postgres_ReadAssertions :: "'db postgres \<Rightarrow> string \<Rightarrow> string \<Rightarrow> (err, assertion list) result" where
  "postgres_ReadAssertions s store modelID = query_assertions (getReadStbl s None) store modelID"

text \<open>The offset of the horizon is rounded down to milliseconds, and the comparison is strict.\<close>

definition postgres_ReadChanges ::
  "'db postgres \<Rightarrow> string \<Rightarrow> ReadChangesFilter \<Rightarrow> ReadChangesOptions \<Rightarrow> (err, tuple_change list \<times> string) result" where
  "postgres_ReadChanges s store flt options =
     (let S = getReadStbl s None
      in query_changes S
           (changes_select S (Before ''inserted_at'' (rcf_HorizonOffset flt div 1000000 * 1000000)) store flt options))"

text \<open>The status of the datastore, and whether the check of the version can be skipped from now on.\<close>

definition postgres_IsReady ::
  "bool \<Rightarrow> (err \<Rightarrow> string) \<Rightarrow> (bool \<Rightarrow> (err, ReadinessStatus) result) \<Rightarrow> (bool \<Rightarrow> (err, ReadinessStatus) result) option \<Rightarrow>
   (err, ReadinessStatus) result \<times> bool" where
  "postgres_IsReady versionReady err_Error primary secondary =
     (case primary versionReady of
        Inl e \<Rightarrow> (Inl e, versionReady)
      | Inr primaryStatus \<Rightarrow>
          (case secondary of
             None \<Rightarrow> (Inr primaryStatus, rs_IsReady primaryStatus)
           | Some secondary \<Rightarrow>
               (let ready = (\<lambda>st. if rs_IsReady st \<and> rs_Message st = [] then st\<lparr>rs_Message := ''ready''\<rparr> else st);
                    primaryStatus = ready primaryStatus;
                    secondaryStatus = (case secondary versionReady of
                                         Inl e \<Rightarrow> \<lparr>rs_Message = err_Error e, rs_IsReady = False\<rparr>
                                       | Inr st \<Rightarrow> ready st);
                    multipleReadyStatus =
                      \<lparr>rs_Message = ''primary: '' @ rs_Message primaryStatus @ '', secondary: '' @ rs_Message secondaryStatus,
                       rs_IsReady = (rs_IsReady primaryStatus \<and> rs_IsReady secondaryStatus)\<rparr>
                in (Inr multipleReadyStatus, rs_IsReady multipleReadyStatus))))"

text \<open>
  The address of a connection. Parsing and printing of addresses are arguments; the part of a parsed address that is
  looked at is the user with an optional password.
\<close>

type_synonym userinfo = "string \<times> string option"

definition initDB_uri ::
  "(string \<Rightarrow> (err, userinfo option \<times> 'u) result) \<Rightarrow> (userinfo option \<times> 'u \<Rightarrow> string) \<Rightarrow>
   string \<Rightarrow> string \<Rightarrow> string \<Rightarrow> Config \<Rightarrow> (err, string) result" where
  "initDB_uri url_Parse url_String uri username password cfg =
     (if username \<noteq> [] \<or> password \<noteq> []
      then (case url_Parse uri of
              Inl e \<Rightarrow> Inl (ErrWrap ''parse postgres connection uri: '' e)
            | Inr (usr, rest) \<Rightarrow>
                (let username = (if Username cfg \<noteq> [] then Username cfg
                                 else case usr of Some (u, _) \<Rightarrow> u | None \<Rightarrow> []);
                     usr = (if Password cfg \<noteq> [] then (username, Some (Password cfg))
                            else case usr of
                                   Some (_, Some p) \<Rightarrow> (username, Some p)
                                 | _ \<Rightarrow> (username, None))
                 in Inr (url_String (Some usr, rest))))
      else Inr uri)"

text \<open>The addresses that \<^verbatim>\<open>postgres.New\<close> connects to.\<close>

definition postgres_New ::
  "(string \<Rightarrow> (err, userinfo option \<times> 'u) result) \<Rightarrow> (userinfo option \<times> 'u \<Rightarrow> string) \<Rightarrow> string \<Rightarrow> Config \<Rightarrow>
   (err, string \<times> string option) result" where
  "postgres_New url_Parse url_String uri cfg =
     (case initDB_uri url_Parse url_String uri (Username cfg) (Password cfg) cfg of
        Inl e \<Rightarrow> Inl (ErrWrap ''initialize postgres connection: '' e)
      | Inr primary \<Rightarrow>
          if SecondaryURI cfg \<noteq> []
          then (case initDB_uri url_Parse url_String (SecondaryURI cfg) (SecondaryUsername cfg) (SecondaryPassword cfg) cfg of
                  Inl e \<Rightarrow> Inl (ErrWrap ''initialize postgres connection: '' e)
                | Inr secondary \<Rightarrow> Inr (primary, Some secondary))
          else Inr (primary, None))"

section \<open>SQLite\<close>

text \<open>Parsing and printing of query strings are arguments; a query is the list of its parameters with their values.\<close>

definition query_Add :: "string \<Rightarrow> string \<Rightarrow> (string \<times> string list) list \<Rightarrow> (string \<times> string list) list" where
  "query_Add k v query = AList.update k ((case map_of query k of Some vs \<Rightarrow> vs | None \<Rightarrow> []) @ [v]) query"

definition PrepareDSN ::
  "(string \<Rightarrow> (err, (string \<times> string list) list) result) \<Rightarrow> ((string \<times> string list) list \<Rightarrow> string) \<Rightarrow> string \<Rightarrow> (err, string) result" where
  "PrepareDSN ParseQuery Encode uri =
     (case (case IndexByte uri (CHR ''?'') of
              None \<Rightarrow> Inr ([], uri)
            | Some i \<Rightarrow> map_sum (ErrWrap ''error parsing dsn: '') (\<lambda>query. (query, take i uri)) (ParseQuery (drop (i + 1) uri))) of
        Inl e \<Rightarrow> Inl e
      | Inr (query, uri) \<Rightarrow>
          (let pragmas = (case map_of query ''_pragma'' of Some vs \<Rightarrow> vs | None \<Rightarrow> []);
               foundJournalMode = list_ex (\<lambda>val. HasPrefix val ''journal_mode'') pragmas;
               foundBusyTimeout = list_ex (\<lambda>val. \<not> HasPrefix val ''journal_mode'' \<and> HasPrefix val ''busy_timeout'') pragmas;
               query = (if \<not> foundJournalMode then query_Add ''_pragma'' ''journal_mode(WAL)'' query else query);
               query = (if \<not> foundBusyTimeout then query_Add ''_pragma'' ''busy_timeout(100)'' query else query);
               query = (if map_of query ''_txlock'' = None then AList.update ''_txlock'' [''immediate''] query else query)
           in Inr (uri @ ''?'' @ Encode query)))"

definition sqlite_user_cells :: "string \<Rightarrow> row" where
  "sqlite_user_cells u =
     (let (userObjectType, userObjectID, userRelation) = ToUserParts u
      in [(''user_object_type'', Text userObjectType), (''user_object_id'', Text userObjectID), (''user_relation'', Text userRelation)])"

definition sqlite_scan_user :: "sql_value list \<Rightarrow> (TupleRecord \<Rightarrow> TupleRecord) option" where
  "sqlite_scan_user vs =
     (case vs of
        [t, i, r] \<Rightarrow>
          do {
            userObjectType \<leftarrow> String t; userObjectID \<leftarrow> String i; userRelation \<leftarrow> String r;
            Some (\<lambda>rec. rec\<lparr>tr_UserObjectType := userObjectType, tr_UserObjectID := userObjectID, tr_UserRelation := userRelation\<rparr>)
          }
      | _ \<Rightarrow> None)"

definition sqlite_keys :: "string \<Rightarrow> string list list" where
  "sqlite_keys t =
     (if t = ''tuple''
      then [[''store'', ''object_type'', ''object_id'', ''relation'', ''user_object_type'', ''user_object_id'', ''user_relation''], [''ulid'']]
      else if t = ''authorization_model'' then [[''store'', ''authorization_model_id'']]
      else if t = ''store'' then [[''id'']]
      else if t = ''assertion'' then [[''store'', ''authorization_model_id'']]
      else if t = ''changelog'' then [[''store'', ''ulid'', ''object_type'']]
      else [])"

text \<open>The codes of SQLite: 19 is a violated constraint, whose extended codes have it in the low byte; the codes of a locked database.\<close>

definition SQLITE_CONSTRAINT :: nat where
  "SQLITE_CONSTRAINT = 19"

definition sqlite_HandleSQLError :: "sql_err \<Rightarrow> tuple_key option \<Rightarrow> err" where
  "sqlite_HandleSQLError e arg =
     (if e = ErrNoRows then ErrNotFound
      else if (case e of SQLiteError code \<Rightarrow> code mod 256 = SQLITE_CONSTRAINT | _ \<Rightarrow> False)
      then (case arg of
              Some tk \<Rightarrow> InvalidWriteInputError tk TUPLE_OPERATION_WRITE
            | None \<Rightarrow> ErrCollision)
      else ErrWrap ''sql error: '' (sql_cause e))"

definition isBusyError :: "sql_err \<Rightarrow> bool" where
  "isBusyError e = (case e of SQLiteError code \<Rightarrow> code \<in> set [261, 517, 773, 5, 262, 6] | _ \<Rightarrow> False)"

definition maxRetries :: nat where
  "maxRetries = 10"

text \<open>The loop of \<^verbatim>\<open>busyRetry\<close> from the given attempt, with the retries that are left.\<close>

fun retry_loop :: "nat \<Rightarrow> nat \<Rightarrow> (nat \<Rightarrow> (sql_err, 'a) result) \<Rightarrow> (sql_err, 'a) result" where
  "retry_loop 0 retries fn =
     (case fn retries of
        Inr x \<Rightarrow> Inr x
      | Inl e \<Rightarrow>
          if isBusyError e
          then Inl (DriverError (''sqlite busy error after '' @ utoa maxRetries @ '' retries'') (sql_cause e))
          else Inl e)"
| "retry_loop (Suc remaining) retries fn =
     (case fn retries of
        Inr x \<Rightarrow> Inr x
      | Inl e \<Rightarrow> if isBusyError e then retry_loop remaining (retries + 1) fn else Inl e)"

definition busyRetry :: "(nat \<Rightarrow> (sql_err, 'a) result) \<Rightarrow> (sql_err, 'a) result" where
  "busyRetry fn = retry_loop maxRetries 0 fn"

text \<open>The database as the write operations see it: every call in a \<^verbatim>\<open>busyRetry\<close>.\<close>

definition retrying :: "'db engine \<Rightarrow> 'db engine" where
  "retrying E = E\<lparr>
     en_Begin := (\<lambda>_ db. busyRetry (\<lambda>k. en_Begin E k db)),
     en_Exec := (\<lambda>_ db stmt. busyRetry (\<lambda>k. en_Exec E k db stmt)),
     en_Commit := (\<lambda>_ db. busyRetry (\<lambda>k. en_Commit E k db))\<rparr>"

definition sqlite :: "'db engine \<Rightarrow> proto \<Rightarrow> 'db \<Rightarrow> 'db conn" where
  "sqlite E P db =
     \<lparr>cn_engine = E, cn_db = db, cn_proto = P, cn_handle = sqlite_HandleSQLError, cn_user = sqlite_user_cells,
      cn_scan_user = sqlite_scan_user\<rparr>"

definition with_retries :: "'db conn \<Rightarrow> 'db conn" where
  "with_retries S = S\<lparr>cn_engine := retrying (cn_engine S)\<rparr>"

text \<open>The copy of the tuple iterator in \<^verbatim>\<open>tuple_iterator.go\<close>.\<close>

definition sqlite_next :: "'db conn \<Rightarrow> SQLTupleIterator \<Rightarrow> (err, TupleRecord) result \<times> SQLTupleIterator" where
  "sqlite_next S t = sql_next S t"

definition sqlite_head :: "'db conn \<Rightarrow> SQLTupleIterator \<Rightarrow> (err, TupleRecord) result \<times> SQLTupleIterator" where
  "sqlite_head S t = sql_head S t"

definition sqlite_ToArray :: "'db conn \<Rightarrow> PaginationOptions \<Rightarrow> SQLTupleIterator \<Rightarrow> (err, tuple list \<times> string) result" where
  "sqlite_ToArray S opts t = sql_ToArray S (nat (PageSize opts)) t"

definition sqlite_TupleIterator :: "'db conn \<Rightarrow> (SQLTupleIterator, tuple) Iterator" where
  "sqlite_TupleIterator S = sqlTupleIterator S"

definition sqlite_read :: "'db conn \<Rightarrow> string \<Rightarrow> tuple_key \<Rightarrow> PaginationOptions option \<Rightarrow> SQLTupleIterator" where
  "sqlite_read S store tupleKey options = NewSQLTupleIterator (read_select S store tupleKey options)"

definition sqlite_Read :: "'db conn \<Rightarrow> string \<Rightarrow> tuple_key \<Rightarrow> (err, SQLTupleIterator) result" where
  "sqlite_Read S store tupleKey = Inr (sqlite_read S store tupleKey None)"

definition sqlite_ReadPage :: "'db conn \<Rightarrow> string \<Rightarrow> tuple_key \<Rightarrow> PaginationOptions \<Rightarrow> (err, tuple list \<times> string) result" where
  "sqlite_ReadPage S store tupleKey options = sqlite_ToArray S options (sqlite_read S store tupleKey (Some options))"

definition sqlite_write ::
  "'db conn \<Rightarrow> (nat \<Rightarrow> string) \<Rightarrow> string \<Rightarrow> tuple_key_nc list \<Rightarrow> tuple_key list \<Rightarrow> (err, 'db) result" where
  "sqlite_write S ulid_at store deletes writes = sql_Write (with_retries S) ulid_at store deletes writes"

definition sqlite_ReadUserTuple :: "'db conn \<Rightarrow> string \<Rightarrow> tuple_key \<Rightarrow> (err, tuple) result" where
  "sqlite_ReadUserTuple S store tupleKey = query_user_tuple S store tupleKey"

definition parts_conditions :: "relation_reference \<Rightarrow> sqlizer list" where
  "parts_conditions userset =
     (case rr_ref userset of
        RelationRef _ \<Rightarrow>
          [Eq_cells [(''user_object_type'', Text (rr_type userset)), (''user_relation'', Text (rr_GetRelation userset))]]
      | WildcardRef \<Rightarrow> [Eq_cells [(''user_object_type'', Text (rr_type userset)), (''user_object_id'', Text ''*'')]]
      | _ \<Rightarrow> [])"

definition sqlite_ReadUsersetTuples :: "'db conn \<Rightarrow> string \<Rightarrow> ReadUsersetTuplesFilter \<Rightarrow> (err, SQLTupleIterator) result" where
  "sqlite_ReadUsersetTuples S store flt = Inr (NewSQLTupleIterator (usersets_select S parts_conditions store flt))"

text \<open>The relation of a user is compared only if the filter has one.\<close>

definition target_user_parts :: "ReadStartingWithUserFilter \<Rightarrow> sqlizer list" where
  "target_user_parts flt =
     map (\<lambda>u. let (userObjectType, userObjectID, userRelation) = ToUserPartsFromObjectRelation u
              in Eq_cells ([(''user_object_type'', Text userObjectType), (''user_object_id'', Text userObjectID)] @
                           (if userRelation \<noteq> [] then [(''user_relation'', Text userRelation)] else [])))
       (rsf_UserFilter flt)"

definition sqlite_ReadStartingWithUser :: "'db conn \<Rightarrow> string \<Rightarrow> ReadStartingWithUserFilter \<Rightarrow> (err, SQLTupleIterator) result" where
  "sqlite_ReadStartingWithUser S store flt =
     Inr (NewSQLTupleIterator (starting_with_select S (Where (Or (target_user_parts flt))) store flt))"

text \<open>Models are in the new format only.\<close>

definition sqlite_model_columns :: "string list" where
  "sqlite_model_columns = [''authorization_model_id'', ''schema_version'', ''serialized_protobuf'']"

definition sqlite_scan_model :: "row \<Rightarrow> (sql_err, string \<times> string option) result" where
  "sqlite_scan_model r =
     (case map snd r of
        [i, v, m] \<Rightarrow>
          scanned (do { modelID \<leftarrow> String i; schemaVersion \<leftarrow> String v; marshalledModel \<leftarrow> Bytes m; Some (modelID, marshalledModel) })
      | _ \<Rightarrow> Inl scan_error)"

definition sqlite_unmarshal :: "'db conn \<Rightarrow> string option \<Rightarrow> (err, authorization_model) result" where
  "sqlite_unmarshal S b = pb_UnmarshalModel (cn_proto S) (case b of None \<Rightarrow> [] | Some s \<Rightarrow> s)"

definition sqlite_constructAuthorizationModelFromSQLRows ::
  "'db conn \<Rightarrow> row list \<Rightarrow> sql_err option \<Rightarrow> (err, authorization_model) result" where
  "sqlite_constructAuthorizationModelFromSQLRows S rows rows_Err =
     (case rows of
        row # _ \<Rightarrow>
          (case sqlite_scan_model row of
             Inl e \<Rightarrow> Inl (cn_handle S e None)
           | Inr (modelID, marshalledModel) \<Rightarrow> sqlite_unmarshal S marshalledModel)
      | [] \<Rightarrow> Inl (case rows_Err of Some e \<Rightarrow> cn_handle S e None | None \<Rightarrow> ErrNotFound))"

definition sqlite_query_model :: "'db conn \<Rightarrow> select \<Rightarrow> (err, authorization_model) result" where
  "sqlite_query_model S q =
     (case en_Query (cn_engine S) 0 (cn_db S) q of
        Inl e \<Rightarrow> Inl (cn_handle S e None)
      | Inr (rows, rows_Err) \<Rightarrow> sqlite_constructAuthorizationModelFromSQLRows S rows rows_Err)"

definition sqlite_ReadAuthorizationModel :: "'db conn \<Rightarrow> string \<Rightarrow> string \<Rightarrow> (err, authorization_model) result" where
  "sqlite_ReadAuthorizationModel S store modelID =
     sqlite_query_model S
       (Where (Eq_cells [(''store'', Text store), (''authorization_model_id'', Text modelID)])
          (Select sqlite_model_columns ''authorization_model''))"

definition sqlite_FindLatestAuthorizationModel :: "'db conn \<Rightarrow> string \<Rightarrow> (err, authorization_model) result" where
  "sqlite_FindLatestAuthorizationModel S store =
     sqlite_query_model S
       (Limit 1 (OrderByDesc ''authorization_model_id''
         (Where (Eq_cells [(''store'', Text store)]) (Select sqlite_model_columns ''authorization_model''))))"

text \<open>The loop of \<^verbatim>\<open>ReadAuthorizationModels\<close>, with the number of models that still fit on the page if it is bounded.\<close>

fun sqlite_models_loop ::
  "'db conn \<Rightarrow> nat option \<Rightarrow> row list \<Rightarrow> sql_err option \<Rightarrow> (err, authorization_model list \<times> string) result" where
  "sqlite_models_loop S room [] rows_Err =
     (case rows_Err of Some e \<Rightarrow> Inl (cn_handle S e None) | None \<Rightarrow> Inr ([], []))"
| "sqlite_models_loop S room (row # rows) rows_Err =
     (case sqlite_scan_model row of
        Inl e \<Rightarrow> Inl (cn_handle S e None)
      | Inr (modelID, marshalledModel) \<Rightarrow>
          if room = Some 0 then Inr ([], modelID)
          else (case sqlite_unmarshal S marshalledModel of
                  Inl e \<Rightarrow> Inl e
                | Inr model \<Rightarrow>
                    map_sum id (map_prod (Cons model) id)
                      (sqlite_models_loop S (map_option (\<lambda>n. n - 1) room) rows rows_Err)))"

definition sqlite_ReadAuthorizationModels ::
  "'db conn \<Rightarrow> string \<Rightarrow> PaginationOptions \<Rightarrow> (err, authorization_model list \<times> string) result option" where
  "sqlite_ReadAuthorizationModels S store p =
     (let sb = OrderByDesc ''authorization_model_id'' (Where (Eq_cells [(''store'', Text store)])
                 (Select sqlite_model_columns ''authorization_model''));
          sb = (if From p \<noteq> [] then Where (LtOrEq ''authorization_model_id'' (Text (From p))) sb else sb)
      in case en_Query (cn_engine S) 0 (cn_db S) (PageLimit p sb) of
           Inl e \<Rightarrow> Some (Inl (cn_handle S e None))
         | Inr (rows, rows_Err) \<Rightarrow>
             if PageSize p < 0 then None
             else Some (sqlite_models_loop S (if PageSize p > 0 then Some (nat (PageSize p)) else None) rows rows_Err))"

definition sqlite_WriteAuthorizationModel :: "'db conn \<Rightarrow> string \<Rightarrow> authorization_model \<Rightarrow> (err, 'db) result" where
  "sqlite_WriteAuthorizationModel S store model =
     (if length (am_type_definitions model) < 1 then Inr (cn_db S)
      else case pb_MarshalModel (cn_proto S) model of
             Inl e \<Rightarrow> Inl e
           | Inr pbdata \<Rightarrow>
               map_sum (\<lambda>e. cn_handle S e None) (\<lambda>(_, _, db). db)
                 (busyRetry (\<lambda>k. en_Exec (cn_engine S) k (cn_db S)
                    (Insert ''authorization_model'' [''store'', ''authorization_model_id'', ''schema_version'', ''serialized_protobuf'']
                       [[Val (Text store), Val (Text (am_id model)), Val (Text (am_schema_version model)), Val (Blob pbdata)]] None []))))"

definition sqlite_CreateStore :: "'db conn \<Rightarrow> store \<Rightarrow> (err, store \<times> 'db) result" where
  "sqlite_CreateStore S st = insert_store_returning (with_retries S) st"

definition sqlite_GetStore :: "'db conn \<Rightarrow> string \<Rightarrow> (err, store) result" where
  "sqlite_GetStore S storeID = query_store S storeID"

definition sqlite_ListStores :: "'db conn \<Rightarrow> ListStoresOptions \<Rightarrow> (err, store list \<times> string) result option" where
  "sqlite_ListStores S options = query_stores S options"

definition sqlite_DeleteStore :: "'db conn \<Rightarrow> string \<Rightarrow> (err, 'db) result" where
  "sqlite_DeleteStore S storeID = delete_store S storeID"

definition sqlite_WriteAssertions :: "'db conn \<Rightarrow> string \<Rightarrow> string \<Rightarrow> assertion list \<Rightarrow> (err, 'db) result" where
  "sqlite_WriteAssertions S store modelID asserts = upsert_assertions (with_retries S) store modelID asserts"

definition sqlite_ReadAssertions :: "'db conn \<Rightarrow> string \<Rightarrow> string \<Rightarrow> (err, assertion list) result" where
  "sqlite_ReadAssertions S store modelID = query_assertions S store modelID"

text \<open>The offset of the horizon is written with six decimals of a second; it is a multiple of a microsecond in practice.\<close>

definition sqlite_ReadChanges ::
  "'db conn \<Rightarrow> string \<Rightarrow> ReadChangesFilter \<Rightarrow> ReadChangesOptions \<Rightarrow> (err, tuple_change list \<times> string) result" where
  "sqlite_ReadChanges S store flt options =
     query_changes S
       (changes_select S (NotAfter ''inserted_at'' ((rcf_HorizonOffset flt + 500) div 1000 * 1000)) store flt options)"

definition sqlite_IsReady :: "bool \<Rightarrow> err option \<Rightarrow> (err, int) result \<Rightarrow> (err, ReadinessStatus) result \<times> bool" where
  "sqlite_IsReady versionReady ping version =
     (case sql_IsReady versionReady ping version of
        Inl e \<Rightarrow> (Inl e, versionReady)
      | Inr status \<Rightarrow> (Inr status, rs_IsReady status))"

end
