(* ===== verification/SqlCorrect.thy ===== *)
theory SqlCorrect
  imports SqlStores CheckCorrect
begin

text \<open>
  The SQL datastores over a database that answers as SQL promises. A table of tuples represents a list of entries;
  writing refines an abstract write on the map from tuple ids to conditions, and the SQLite datastore meets the
  contract of a tuple reader.
\<close>

section \<open>The columns of a user\<close>

definition other_columns :: "string list" where
  "other_columns = [''store'', ''object_type'', ''object_id'', ''relation'', ''user_type'', ''condition_name'', ''condition_context'',
     ''ulid'', ''inserted_at'', ''operation'']"

text \<open>What the code relies on: the columns are fixed, they are part of the key of a tuple, and a valid user can be read back from them.\<close>

locale user_columns =
  fixes uc :: "string \<Rightarrow> row" and scan :: "sql_value list \<Rightarrow> (TupleRecord \<Rightarrow> TupleRecord) option"
    and keys :: "string \<Rightarrow> string list list"
  assumes columns: "map fst (uc u) = map fst (uc [])"
    and distinct_columns: "distinct (map fst (uc []))"
    and separate: "set (map fst (uc [])) \<inter> set other_columns = {}"
    and not_null: "v \<in> set (map snd (uc u)) \<Longrightarrow> v \<noteq> Null"
    and tuple_keys: "keys ''tuple'' = [[''store'', ''object_type'', ''object_id'', ''relation''] @ map fst (uc []), [''ulid'']]"
    and changelog_keys: "keys ''changelog'' = [[''store'', ''ulid'', ''object_type'']]"
    and scan_law: "IsValidUser u \<Longrightarrow>
      \<exists>f a b c d. scan (map snd (uc u)) = Some f \<and> (if a = [] then FromUserParts b c d else a) = u \<and>
        (\<forall>r. tr_User r = [] \<longrightarrow> tr_UserObjectType r = [] \<longrightarrow> tr_UserObjectID r = [] \<longrightarrow> tr_UserRelation r = [] \<longrightarrow>
           f r = r\<lparr>tr_User := a, tr_UserObjectType := b, tr_UserObjectID := c, tr_UserRelation := d\<rparr>)"

interpretation user_text: user_columns user_cells scan_user sql_keys
proof
  fix u assume "IsValidUser u"
  then have "u \<noteq> []" by (cases rule: IsValidUser_cases) auto
  then show "\<exists>f a b c d. scan_user (map snd (user_cells u)) = Some f \<and> (if a = [] then FromUserParts b c d else a) = u \<and>
        (\<forall>r. tr_User r = [] \<longrightarrow> tr_UserObjectType r = [] \<longrightarrow> tr_UserObjectID r = [] \<longrightarrow> tr_UserRelation r = [] \<longrightarrow>
           f r = r\<lparr>tr_User := a, tr_UserObjectType := b, tr_UserObjectID := c, tr_UserRelation := d\<rparr>)"
    by (intro exI [of _ "\<lambda>r. r\<lparr>tr_User := u\<rparr>"] exI [of _ u] exI [of _ "[]"]) (auto simp: scan_user_def user_cells_def)
qed (auto simp: user_cells_def other_columns_def sql_keys_def)

interpretation user_parts: user_columns sqlite_user_cells sqlite_scan_user sqlite_keys
proof
  fix u assume u: "IsValidUser u"
  obtain t i r where p: "ToUserParts u = (t, i, r)" by (cases "ToUserParts u")
  with u have "FromUserParts t i r = u" by (rule FromUserParts_ToUserParts)
  with p show "\<exists>f a b c d. sqlite_scan_user (map snd (sqlite_user_cells u)) = Some f \<and> (if a = [] then FromUserParts b c d else a) = u \<and>
        (\<forall>r. tr_User r = [] \<longrightarrow> tr_UserObjectType r = [] \<longrightarrow> tr_UserObjectID r = [] \<longrightarrow> tr_UserRelation r = [] \<longrightarrow>
           f r = r\<lparr>tr_User := a, tr_UserObjectType := b, tr_UserObjectID := c, tr_UserRelation := d\<rparr>)"
    by (intro exI [of _ "\<lambda>rec. rec\<lparr>tr_UserObjectType := t, tr_UserObjectID := i, tr_UserRelation := r\<rparr>"] exI [of _ "[]"] exI)
       (auto simp: sqlite_scan_user_def sqlite_user_cells_def)
qed (auto simp: sqlite_user_cells_def other_columns_def sqlite_keys_def split: prod.splits)

section \<open>Tables of tuples\<close>

text \<open>An entry: the store and key of a tuple, its marshalled condition, its ULID and the time it was written.\<close>

record entry =
  e_store :: string
  e_key :: tuple_key
  e_cond :: "string \<times> string option"
  e_ulid :: string
  e_at :: int

definition entry_id :: "entry \<Rightarrow> string \<times> tuple_id" where
  "entry_id e = (e_store e, tk_id (e_key e))"

definition row_of :: "'db conn \<Rightarrow> entry \<Rightarrow> row" where
  "row_of S e = map (map_prod id (expr_value (e_at e))) (tuple_row S (e_store e) (e_key e) (e_cond e) (e_ulid e))"

definition valid_key :: "'a tuple_key_nc_scheme \<Rightarrow> bool" where
  "valid_key k \<longleftrightarrow> full_key k \<and> IsValidUser (tk_user k)"

definition valid_entry :: "proto \<Rightarrow> entry \<Rightarrow> bool" where
  "valid_entry P e \<longleftrightarrow> valid_key (e_key e) \<and> MarshalRelationshipCondition P (tk_condition (e_key e)) = Inr (e_cond e)"

definition represents :: "'db conn \<Rightarrow> tables \<Rightarrow> entry list \<Rightarrow> bool" where
  "represents S tabs ts \<longleftrightarrow>
     tabs ''tuple'' = map (row_of S) ts \<and> (\<forall>e\<in>set ts. valid_entry (cn_proto S) e) \<and>
     distinct (map entry_id ts) \<and> distinct (map e_ulid ts)"

text \<open>Serialization: what is marshalled can be read back.\<close>

definition proto_laws :: "proto \<Rightarrow> bool" where
  "proto_laws P \<longleftrightarrow> (\<forall>s b. pb_MarshalStruct P s = Inr b \<longrightarrow> pb_UnmarshalStruct P b = Inr s)"

definition valid_write :: "proto \<Rightarrow> tuple_key \<Rightarrow> bool" where
  "valid_write P w \<longleftrightarrow> valid_key w \<and> \<not> isl (MarshalRelationshipCondition P (tk_condition w))"

text \<open>The tuples of a store as a map from their ids to their conditions, and as keys.\<close>

definition abs_entries :: "entry list \<Rightarrow> string \<Rightarrow> (tuple_id \<rightharpoonup> rel_condition option)" where
  "abs_entries ts store = map_of (map (\<lambda>e. (tk_id (e_key e), write_cond (e_key e))) (filter (\<lambda>e. e_store e = store) ts))"

definition entry_key :: "entry \<Rightarrow> tuple_key" where
  "entry_key e = (e_key e)\<lparr>tk_condition := write_cond (e_key e)\<rparr>"

lemma cell_append: "cell (xs @ ys) c = (if c \<in> fst ` set xs then cell xs c else cell ys c)"
  by (auto simp: cell_def map_add_def map_of_eq_None_iff split: option.splits) (metis map_of_eq_None_iff option.distinct(1))+

lemma cell_Cons: "cell ((c, v) # r) c' = (if c = c' then v else cell r c')"
  by (simp add: cell_def)

lemma cell_Nil: "cell [] c = Null"
  by (simp add: cell_def)

lemmas cell_simps = cell_append cell_Cons cell_Nil

lemma cells_zip: "distinct (map fst r) \<Longrightarrow> map (cell r) (map fst r) = map snd r"
  by (auto simp: cell_def)

context user_columns
begin

lemma uc_columns: "fst ` set (uc u) = fst ` set (uc [])"
  using columns [of u] by (metis list.set_map)

lemma uc_inject:
  assumes "IsValidUser u" "IsValidUser u'" and "map snd (uc u) = map snd (uc u')"
  shows "u = u'"
proof -
  obtain f a b c d where s: "scan (map snd (uc u)) = Some f" "(if a = [] then FromUserParts b c d else a) = u"
      "f empty_record = empty_record\<lparr>tr_User := a, tr_UserObjectType := b, tr_UserObjectID := c, tr_UserRelation := d\<rparr>"
    using scan_law [OF assms(1)] by (auto simp: empty_record_def)
  obtain f' a' b' c' d' where s': "scan (map snd (uc u')) = Some f'" "(if a' = [] then FromUserParts b' c' d' else a') = u'"
      "f' empty_record = empty_record\<lparr>tr_User := a', tr_UserObjectType := b', tr_UserObjectID := c', tr_UserRelation := d'\<rparr>"
    using scan_law [OF assms(2)] by (auto simp: empty_record_def)
  have "f = f'" using s(1) s'(1) assms(3) by simp
  with s(3) s'(3) have "a = a' \<and> b = b' \<and> c = c' \<and> d = d'" by (simp add: empty_record_def)
  with s(2) s'(2) show ?thesis by metis
qed

end

section \<open>Rows and entries\<close>

context user_columns
begin

lemma row_cells:
  assumes "cn_user S = uc"
  shows "cell (row_of S e) ''store'' = Text (e_store e)"
    and "cell (row_of S e) ''object_type'' = Text (fst (SplitObject (tk_object (e_key e))))"
    and "cell (row_of S e) ''object_id'' = Text (snd (SplitObject (tk_object (e_key e))))"
    and "cell (row_of S e) ''relation'' = Text (tk_relation (e_key e))"
    and "cell (row_of S e) ''user_type'' = Text (UserType_String (GetUserTypeFromUser (tk_user (e_key e))))"
    and "cell (row_of S e) ''condition_name'' = Text (fst (e_cond e))"
    and "cell (row_of S e) ''condition_context'' = blob (snd (e_cond e))"
    and "cell (row_of S e) ''ulid'' = Text (e_ulid e)"
    and "cell (row_of S e) ''inserted_at'' = Number (e_at e)"
    and "c \<in> fst ` set (uc []) \<Longrightarrow> cell (row_of S e) c = cell (uc (tk_user (e_key e))) c"
proof -
  have row: "row_of S e =
      [(''store'', Text (e_store e)), (''object_type'', Text (fst (SplitObject (tk_object (e_key e))))),
       (''object_id'', Text (snd (SplitObject (tk_object (e_key e))))), (''relation'', Text (tk_relation (e_key e)))] @
      uc (tk_user (e_key e)) @
      [(''user_type'', Text (UserType_String (GetUserTypeFromUser (tk_user (e_key e))))),
       (''condition_name'', Text (fst (e_cond e))), (''condition_context'', blob (snd (e_cond e))),
       (''ulid'', Text (e_ulid e)), (''inserted_at'', Number (e_at e))]"
    using assms
    by (simp add: row_of_def tuple_row_def key_cells_def user_type_cell_def split_beta comp_def prod.map_comp)
  have no: "c \<notin> fst ` set (uc u)" if "c \<in> set other_columns" for c u
    using separate that uc_columns [of u] by auto
  note simps = row cell_simps no other_columns_def
  show "cell (row_of S e) ''store'' = Text (e_store e)"
    "cell (row_of S e) ''object_type'' = Text (fst (SplitObject (tk_object (e_key e))))"
    "cell (row_of S e) ''object_id'' = Text (snd (SplitObject (tk_object (e_key e))))"
    "cell (row_of S e) ''relation'' = Text (tk_relation (e_key e))"
    "cell (row_of S e) ''user_type'' = Text (UserType_String (GetUserTypeFromUser (tk_user (e_key e))))"
    "cell (row_of S e) ''condition_name'' = Text (fst (e_cond e))"
    "cell (row_of S e) ''condition_context'' = blob (snd (e_cond e))"
    "cell (row_of S e) ''ulid'' = Text (e_ulid e)"
    "cell (row_of S e) ''inserted_at'' = Number (e_at e)"
    by (simp_all add: simps)
  show "cell (row_of S e) c = cell (uc (tk_user (e_key e))) c" if "c \<in> fst ` set (uc [])"
    using that separate uc_columns [of "tk_user (e_key e)"] by (auto simp: row cell_simps other_columns_def)
qed

end

lemma holds_Eq_cells: "holds now r (Eq_cells cells) \<longleftrightarrow> (\<forall>(c, v)\<in>set cells. cell r c = v)"
  by (auto simp: Eq_cells_def list_all_iff)

lemma SplitObject_full_inject:
  assumes "full_key k" "full_key k'"
  shows "SplitObject (tk_object k) = SplitObject (tk_object k') \<longleftrightarrow> tk_object k = tk_object k'"
proof
  obtain t i where ti: "SplitObject (tk_object k) = (t, i)" by (cases "SplitObject (tk_object k)")
  assume "SplitObject (tk_object k) = SplitObject (tk_object k')"
  with ti assms show "tk_object k = tk_object k'"
    by (metis SplitObject_eq_iff fst_conv snd_conv full_key_def)
qed simp

context user_columns
begin

lemma uc_matches:
  assumes "IsValidUser u" "IsValidUser u'"
  shows "(\<forall>(c, v)\<in>set (uc u). cell (uc u') c = v) \<longleftrightarrow> u = u'"
proof
  assume "\<forall>(c, v)\<in>set (uc u). cell (uc u') c = v"
  then have "map (cell (uc u')) (map fst (uc u)) = map snd (uc u)" by auto
  moreover have "map (cell (uc u')) (map fst (uc u')) = map snd (uc u')"
    using distinct_columns columns [of u'] by (intro cells_zip) simp
  ultimately have "map snd (uc u) = map snd (uc u')" using columns [of u] columns [of u'] by simp
  with assms show "u = u'" by (rule uc_inject)
next
  assume "u = u'"
  then show "\<forall>(c, v)\<in>set (uc u). cell (uc u') c = v"
    using distinct_columns columns [of u] by (auto simp: cell_def)
qed

lemma holds_user_cells:
  assumes "cn_user S = uc" and "IsValidUser u" and "IsValidUser (tk_user (e_key e))"
  shows "(\<forall>(c, v)\<in>set (uc u). cell (row_of S e) c = v) \<longleftrightarrow> tk_user (e_key e) = u"
proof -
  have "cell (row_of S e) c = cell (uc (tk_user (e_key e))) c" if "(c, v) \<in> set (uc u)" for c v
    using row_cells(10) [OF assms(1)] that uc_columns [of u] by (metis fst_conv image_eqI)
  then have "(\<forall>(c, v)\<in>set (uc u). cell (row_of S e) c = v) \<longleftrightarrow> (\<forall>(c, v)\<in>set (uc u). cell (uc (tk_user (e_key e))) c = v)"
    by auto
  also have "\<dots> \<longleftrightarrow> tk_user (e_key e) = u" using uc_matches [OF assms(2,3)] by auto
  finally show ?thesis .
qed

lemma holds_key:
  assumes "cn_user S = uc" and "valid_key d" and "valid_key (e_key e)"
  shows "holds now (row_of S e) (Eq_cells (key_cells S store d @ [user_type_cell d])) \<longleftrightarrow> entry_id e = (store, tk_id d)"
proof -
  have "SplitObject (tk_object (e_key e)) = SplitObject (tk_object d) \<longleftrightarrow> tk_object (e_key e) = tk_object d"
    using assms(2,3) by (intro SplitObject_full_inject) (auto simp: valid_key_def)
  moreover have "(\<forall>(c, v)\<in>set (uc (tk_user d)). cell (row_of S e) c = v) \<longleftrightarrow> tk_user (e_key e) = tk_user d"
    using assms by (intro holds_user_cells) (auto simp: valid_key_def)
  ultimately show ?thesis
    using assms(1)
    by (auto simp: holds_Eq_cells key_cells_def user_type_cell_def row_cells [OF assms(1)] entry_id_def tk_id_def split_beta prod_eq_iff)
qed

lemma same_key_rows:
  assumes "cn_user S = uc" and "valid_key (e_key e)" and "valid_key (e_key e')"
  shows "same_key ([''store'', ''object_type'', ''object_id'', ''relation''] @ map fst (uc [])) (row_of S e) (row_of S e') \<longleftrightarrow>
    entry_id e = entry_id e'"
proof -
  have "SplitObject (tk_object (e_key e)) = SplitObject (tk_object (e_key e')) \<longleftrightarrow> tk_object (e_key e) = tk_object (e_key e')"
    using assms(2,3) by (intro SplitObject_full_inject) (auto simp: valid_key_def)
  moreover have "(\<forall>c\<in>fst ` set (uc []). cell (row_of S e) c = cell (row_of S e') c) \<longleftrightarrow> tk_user (e_key e) = tk_user (e_key e')"
  proof -
    let ?u = "tk_user (e_key e)" and ?u' = "tk_user (e_key e')"
    have "(\<forall>c\<in>fst ` set (uc []). cell (row_of S e) c = cell (row_of S e') c) \<longleftrightarrow>
        (\<forall>c\<in>fst ` set (uc ?u). cell (uc ?u) c = cell (uc ?u') c)"
      using row_cells(10) [OF assms(1)] uc_columns [of ?u] by simp
    also have "\<dots> \<longleftrightarrow> (\<forall>(c, v)\<in>set (uc ?u). cell (uc ?u') c = v)"
      using distinct_columns columns [of ?u] by (auto simp: cell_def)
    also have "\<dots> \<longleftrightarrow> ?u = ?u'" using assms(2,3) by (intro uc_matches) (auto simp: valid_key_def)
    finally show ?thesis .
  qed
  ultimately show ?thesis
    by (auto simp: same_key_def list_all_iff row_cells [OF assms(1)] entry_id_def tk_id_def prod_eq_iff)
qed

end

section \<open>The abstract write\<close>

text \<open>
  The tuples of a store are a map from ids to conditions. Deletions come first, each of a tuple that is there; then
  every write of a tuple that is not.
\<close>

fun spec_deletes :: "(tuple_id \<rightharpoonup> 'v) \<Rightarrow> tuple_id list \<Rightarrow> (tuple_id \<rightharpoonup> 'v) option" where
  "spec_deletes m [] = Some m"
| "spec_deletes m (d # ds) = (if m d = None then None else spec_deletes (m(d := None)) ds)"

fun spec_writes :: "(tuple_id \<rightharpoonup> 'v) \<Rightarrow> (tuple_id \<times> 'v) list \<Rightarrow> (tuple_id \<rightharpoonup> 'v) option" where
  "spec_writes m [] = Some m"
| "spec_writes m ((w, v) # ws) = (if m w \<noteq> None then None else spec_writes (m(w \<mapsto> v)) ws)"

definition spec_write ::
  "(tuple_id \<rightharpoonup> rel_condition option) \<Rightarrow> tuple_key_nc list \<Rightarrow> tuple_key list \<Rightarrow> (tuple_id \<rightharpoonup> rel_condition option) option" where
  "spec_write m deletes writes =
     Option.bind (spec_deletes m (map tk_id deletes)) (\<lambda>m. spec_writes m (map (\<lambda>w. (tk_id w, write_cond w)) writes))"

lemma abs_entries_None: "abs_entries ts store x = None \<longleftrightarrow> (store, x) \<notin> entry_id ` set ts"
  by (auto simp: abs_entries_def map_of_eq_None_iff entry_id_def image_iff)

lemma abs_entries_delete:
  assumes "distinct (map entry_id ts)"
  shows "abs_entries (filter (\<lambda>e. entry_id e \<noteq> (store, x)) ts) store' =
    (if store' = store then (abs_entries ts store)(x := None) else abs_entries ts store')"
proof -
  have "abs_entries (filter (\<lambda>e. entry_id e \<noteq> (store, x)) ts) store' y =
      (if store' = store \<and> y = x then None else abs_entries ts store' y)" for y
    by (induction ts) (auto simp: abs_entries_def entry_id_def)
  then show ?thesis by auto
qed

lemma abs_entries_insert:
  assumes "entry_id e = (store, x)" and "abs_entries ts store x = None"
  shows "abs_entries (ts @ [e]) store' =
    (if store' = store then (abs_entries ts store)(x \<mapsto> write_cond (e_key e)) else abs_entries ts store')"
proof -
  have "abs_entries (ts @ [e]) store' =
      (if store' = store then [x \<mapsto> write_cond (e_key e)] ++ abs_entries ts store' else abs_entries ts store')"
    using assms(1) by (auto simp: abs_entries_def entry_id_def)
  then show ?thesis using assms(2) by (auto simp: map_add_def fun_eq_iff split: option.splits)
qed

section \<open>Writing\<close>

lemma exec_cases [consumes 2, case_names violated executed]:
  assumes "conforming keys violation now E tbl" and "available violation E"
  obtains (violated) e where "en_Exec E 0 db stmt = Inl e" "violation e" "exec_stmt keys now (tbl db) stmt = None"
    | (executed) n rs db' where "en_Exec E 0 db stmt = Inr (Inr n, rs, db')" "exec_stmt keys now (tbl db) stmt = Some (n, rs, tbl db')"
proof (cases "en_Exec E 0 db stmt")
  case (Inl e)
  moreover from this assms(2) have "violation e" by (auto simp: available_def split: sum.splits dest!: spec [of _ k] spec [of _ db] spec [of _ stmt])
  moreover have "exec_stmt keys now (tbl db) stmt = None"
  proof -
    have "case en_Exec E 0 db stmt of
        Inl e \<Rightarrow> (if violation e then exec_stmt keys now (tbl db) stmt = None else e \<noteq> ErrNoRows)
      | Inr (n, rs, db') \<Rightarrow> (\<exists>m. exec_stmt keys now (tbl db) stmt = Some (m, rs, tbl db') \<and>
          (case n of Inl e \<Rightarrow> fault violation e | Inr n \<Rightarrow> n = m))"
      using assms(1) unfolding conforming_def by blast
    with Inl \<open>violation e\<close> show ?thesis by simp
  qed
  ultimately show thesis by (rule violated)
next
  case (Inr x)
  obtain n rs db' where x: "x = (n, rs, db')" by (cases x)
  have "case en_Exec E 0 db stmt of Inl e \<Rightarrow> violation e | Inr (n, _) \<Rightarrow> \<not> isl n"
    using assms(2) unfolding available_def by blast
  with Inr x obtain m where n: "n = Inr m" by (cases n) auto
  have "case en_Exec E 0 db stmt of
      Inl e \<Rightarrow> (if violation e then exec_stmt keys now (tbl db) stmt = None else e \<noteq> ErrNoRows)
    | Inr (n, rs, db') \<Rightarrow> (\<exists>m. exec_stmt keys now (tbl db) stmt = Some (m, rs, tbl db') \<and>
        (case n of Inl e \<Rightarrow> fault violation e | Inr n \<Rightarrow> n = m))"
    using assms(1) unfolding conforming_def by blast
  with Inr x n show thesis using executed by auto
qed

lemma deleted_entries:
  assumes "distinct (map entry_id ts)"
  shows "length (filter (\<lambda>e. entry_id e = i) ts) = (if i \<in> entry_id ` set ts then 1 else 0)"
  using assms by (induction ts) (auto simp: filter_empty_conv)

definition delete_row :: "'db conn \<Rightarrow> string \<Rightarrow> (nat \<Rightarrow> string) \<Rightarrow> nat \<Rightarrow> tuple_key_nc \<Rightarrow> (string \<times> sql_expr) list" where
  "delete_row S store ulid_at k d = changelog_row S store d ([], None) TUPLE_OPERATION_DELETE (ulid_at k)"

definition write_row :: "'db conn \<Rightarrow> string \<Rightarrow> (nat \<Rightarrow> string) \<Rightarrow> nat \<Rightarrow> tuple_key \<Rightarrow> (string \<times> sql_expr) list" where
  "write_row S store ulid_at k w =
     changelog_row S store w (projr (MarshalRelationshipCondition (cn_proto S) (tk_condition w))) TUPLE_OPERATION_WRITE (ulid_at k)"

context user_columns
begin

lemma delete_step:
  assumes "cn_user S = uc" and "represents S tabs ts" and "valid_key d"
  shows "exec_stmt keys now tabs (Delete ''tuple'' [Eq_cells (key_cells S store d @ [user_type_cell d])]) =
      Some (if abs_entries ts store (tk_id d) = None then 0 else 1, [],
            tabs(''tuple'' := map (row_of S) (filter (\<lambda>e. entry_id e \<noteq> (store, tk_id d)) ts)))"
proof -
  have tab: "tabs ''tuple'' = map (row_of S) ts" and valid: "\<forall>e\<in>set ts. valid_key (e_key e)"
    and dist: "distinct (map entry_id ts)"
    using assms(2) by (auto simp: represents_def valid_entry_def)
  have h: "holds now (row_of S e) (Eq_cells (key_cells S store d @ [user_type_cell d])) \<longleftrightarrow> entry_id e = (store, tk_id d)"
    if "e \<in> set ts" for e
    using that valid holds_key [OF assms(1,3)] by blast
  have "filter (\<lambda>r. holds now r (Eq_cells (key_cells S store d @ [user_type_cell d]))) (tabs ''tuple'') =
      map (row_of S) (filter (\<lambda>e. entry_id e = (store, tk_id d)) ts)"
    unfolding tab filter_map comp_def by (rule arg_cong [where f = "map _"]) (rule filter_cong, simp_all add: h)
  moreover have "filter (\<lambda>r. \<not> holds now r (Eq_cells (key_cells S store d @ [user_type_cell d]))) (tabs ''tuple'') =
      map (row_of S) (filter (\<lambda>e. entry_id e \<noteq> (store, tk_id d)) ts)"
    unfolding tab filter_map comp_def by (rule arg_cong [where f = "map _"]) (rule filter_cong, simp_all add: h)
  ultimately show ?thesis
    by (simp add: deleted_entries [OF dist] abs_entries_None)
qed

lemma represents_delete:
  assumes "represents S tabs ts"
  shows "represents S (tabs(''tuple'' := map (row_of S) (filter P ts))) (filter P ts)"
  using assms by (auto simp: represents_def distinct_map_filter)

lemma delete_loop:
  assumes E: "conforming keys violation now (cn_engine S) tbl" "available violation (cn_engine S)" and "cn_user S = uc"
    and "represents S (tbl txn) ts" and "\<forall>d\<in>set ds. valid_key d"
  shows "case sql_delete_loop S store ulid_at k txn log ds of
      Inl e \<Rightarrow> errors_Is e ErrInvalidWriteInput \<and> spec_deletes (abs_entries ts store) (map tk_id ds) = None
    | Inr (txn', log', k') \<Rightarrow>
        k' = k + length ds \<and> log' = log @ map (\<lambda>(j, d). delete_row S store ulid_at j d) (enumerate k ds) \<and>
        tbl txn' ''changelog'' = tbl txn ''changelog'' \<and>
        (\<exists>ts'. represents S (tbl txn') ts' \<and> set ts' \<subseteq> set ts \<and>
           spec_deletes (abs_entries ts store) (map tk_id ds) = Some (abs_entries ts' store) \<and>
           (\<forall>other. other \<noteq> store \<longrightarrow> abs_entries ts' other = abs_entries ts other))"
  using assms(4,5)
proof (induction ds arbitrary: k txn log ts)
  case Nil
  then show ?case by auto
next
  case (Cons d ds)
  let ?ts = "filter (\<lambda>e. entry_id e \<noteq> (store, tk_id d)) ts"
  have dist: "distinct (map entry_id ts)" using Cons.prems(1) by (simp add: represents_def)
  have step: "exec_stmt keys now (tbl txn) (Delete ''tuple'' [Eq_cells (key_cells S store d @ [user_type_cell d])]) =
      Some (if abs_entries ts store (tk_id d) = None then 0 else 1, [], (tbl txn)(''tuple'' := map (row_of S) ?ts))"
    using Cons.prems by (intro delete_step [OF assms(3)]) auto
  from E show ?case
  proof (cases rule: exec_cases [where db = txn and
        stmt = "Delete ''tuple'' [Eq_cells (key_cells S store d @ [user_type_cell d])]"])
    case violated
    with step show ?thesis by simp
  next
    case (executed n rs txn')
    have "represents S ((tbl txn)(''tuple'' := map (row_of S) ?ts)) ?ts" by (rule represents_delete) (rule Cons.prems(1))
    with executed(2) step have rep: "represents S (tbl txn') ?ts" and log: "tbl txn' ''changelog'' = tbl txn ''changelog''"
      and n: "n = (if abs_entries ts store (tk_id d) = None then 0 else 1)" by auto
    show ?thesis
    proof (cases "abs_entries ts store (tk_id d) = None")
      case True
      with executed(1) n show ?thesis by simp
    next
      case False
      have IH: "case sql_delete_loop S store ulid_at (k + 1) txn' (log @ [delete_row S store ulid_at k d]) ds of
          Inl e \<Rightarrow> errors_Is e ErrInvalidWriteInput \<and> spec_deletes (abs_entries ?ts store) (map tk_id ds) = None
        | Inr (txn'', log', k') \<Rightarrow>
            k' = k + 1 + length ds \<and>
            log' = (log @ [delete_row S store ulid_at k d]) @ map (\<lambda>(j, d). delete_row S store ulid_at j d) (enumerate (k + 1) ds) \<and>
            tbl txn'' ''changelog'' = tbl txn' ''changelog'' \<and>
            (\<exists>ts'. represents S (tbl txn'') ts' \<and> set ts' \<subseteq> set ?ts \<and>
               spec_deletes (abs_entries ?ts store) (map tk_id ds) = Some (abs_entries ts' store) \<and>
               (\<forall>other. other \<noteq> store \<longrightarrow> abs_entries ts' other = abs_entries ?ts other))"
        using Cons.prems(2) by (intro Cons.IH rep) simp
      have eq: "sql_delete_loop S store ulid_at k txn log (d # ds) =
          sql_delete_loop S store ulid_at (k + 1) txn' (log @ [delete_row S store ulid_at k d]) ds"
        using executed(1) n False by (simp add: delete_row_def)
      show ?thesis
        unfolding eq using IH log False
        by (auto simp: abs_entries_delete [OF dist] split: sum.splits)
    qed
  qed
qed

end

definition evaluated :: "int \<Rightarrow> (string \<times> sql_expr) list \<Rightarrow> row" where
  "evaluated now r = map (map_prod id (expr_value now)) r"

lemma zip_evaluated: "zip (map fst r) (map (expr_value now \<circ> snd) r) = evaluated now r"
  by (induction r) (auto simp: evaluated_def)

lemma insert_one:
  "exec_stmt keys now tabs (Insert t (map fst r) [map snd r] None []) =
     (if \<exists>r'\<in>set (tabs t). \<exists>ks\<in>set (keys t). same_key ks r' (evaluated now r) then None
      else Some (1, [[]], tabs(t := tabs t @ [evaluated now r])))"
  by (simp add: zip_evaluated project_def Let_def)

lemma insert_rows_fresh:
  assumes "distinct (map (\<lambda>r. cell r c) new)" and "\<forall>r\<in>set new. \<forall>r'\<in>set tab. cell r c \<noteq> cell r' c"
    and "\<forall>ks\<in>set keys. c \<in> set ks"
  shows "insert_rows keys None tab new = Some (tab @ new)"
  using assms
proof (induction new arbitrary: tab)
  case (Cons r new)
  have "\<not> (\<exists>r'\<in>set tab. \<exists>ks\<in>set keys. same_key ks r' r)"
    using Cons.prems(2,3) by (auto simp: same_key_def list_all_iff) metis
  moreover have "insert_rows keys None (tab @ [r]) new = Some ((tab @ [r]) @ new)"
    using Cons.prems by (intro Cons.IH) (auto simp: image_iff)
  ultimately show ?case by simp
qed simp

context user_columns
begin

lemma write_step:
  assumes "cn_user S = uc" and "represents S tabs ts" and "valid_key w"
    and c: "MarshalRelationshipCondition (cn_proto S) (tk_condition w) = Inr c" and fresh: "u \<notin> e_ulid ` set ts"
  shows "exec_stmt keys now tabs (Insert ''tuple'' (map fst (tuple_row S store w c u)) [map snd (tuple_row S store w c u)] None []) =
      (if abs_entries ts store (tk_id w) \<noteq> None then None
       else Some (1, [[]], tabs(''tuple'' := map (row_of S) (ts @ [\<lparr>e_store = store, e_key = w, e_cond = c, e_ulid = u, e_at = now\<rparr>]))))"
proof -
  let ?e = "\<lparr>e_store = store, e_key = w, e_cond = c, e_ulid = u, e_at = now\<rparr>"
  have tab: "tabs ''tuple'' = map (row_of S) ts" and valid: "\<forall>e\<in>set ts. valid_key (e_key e)"
    using assms(2) by (auto simp: represents_def valid_entry_def)
  have row: "evaluated now (tuple_row S store w c u) = row_of S ?e"
    by (simp add: row_of_def evaluated_def)
  have "(\<exists>ks\<in>set (keys ''tuple''). same_key ks (row_of S e) (row_of S ?e)) \<longleftrightarrow> entry_id e = (store, tk_id w)"
    if "e \<in> set ts" for e
  proof -
    have "\<not> same_key [''ulid''] (row_of S e) (row_of S ?e)"
      using fresh that row_cells(8) [OF assms(1)] by (auto simp: same_key_def)
    moreover have "same_key ([''store'', ''object_type'', ''object_id'', ''relation''] @ map fst (uc [])) (row_of S e) (row_of S ?e) \<longleftrightarrow>
        entry_id e = entry_id ?e"
      using valid that assms(3) by (intro same_key_rows [OF assms(1)]) auto
    ultimately show ?thesis unfolding tuple_keys by (auto simp: entry_id_def)
  qed
  then have "(\<exists>r'\<in>set (tabs ''tuple''). \<exists>ks\<in>set (keys ''tuple''). same_key ks r' (row_of S ?e)) \<longleftrightarrow>
      abs_entries ts store (tk_id w) \<noteq> None"
    unfolding tab abs_entries_None by (auto simp: image_iff) metis
  then show ?thesis unfolding insert_one row by (simp add: tab)
qed

lemma represents_insert:
  assumes "represents S tabs ts" and "valid_entry (cn_proto S) e" and "e_ulid e \<notin> e_ulid ` set ts" and "entry_id e \<notin> entry_id ` set ts"
  shows "represents S (tabs(''tuple'' := map (row_of S) (ts @ [e]))) (ts @ [e])"
  using assms by (auto simp: represents_def)

lemma write_loop:
  assumes E: "conforming keys violation now (cn_engine S) tbl" "available violation (cn_engine S)" and "cn_user S = uc"
    and handle: "\<And>e tk. violation e \<Longrightarrow> errors_Is (cn_handle S e (Some tk)) ErrInvalidWriteInput"
    and "inj ulid_at" and "represents S (tbl txn) ts" and "\<forall>w\<in>set ws. valid_write (cn_proto S) w" and "\<forall>j\<ge>k. ulid_at j \<notin> e_ulid ` set ts"
  shows "case sql_write_loop S store ulid_at k txn log ws of
      Inl e \<Rightarrow> errors_Is e ErrInvalidWriteInput \<and>
        spec_writes (abs_entries ts store) (map (\<lambda>w. (tk_id w, write_cond w)) ws) = None
    | Inr (txn', log') \<Rightarrow>
        log' = log @ map (\<lambda>(j, w). write_row S store ulid_at j w) (enumerate k ws) \<and>
        tbl txn' ''changelog'' = tbl txn ''changelog'' \<and>
        (\<exists>ts'. represents S (tbl txn') ts' \<and>
           spec_writes (abs_entries ts store) (map (\<lambda>w. (tk_id w, write_cond w)) ws) = Some (abs_entries ts' store) \<and>
           (\<forall>other. other \<noteq> store \<longrightarrow> abs_entries ts' other = abs_entries ts other))"
  using assms(6-8)
proof (induction ws arbitrary: k txn log ts)
  case Nil
  then show ?case by auto
next
  case (Cons w ws)
  have w: "valid_key w" using Cons.prems(2) by (simp add: valid_write_def)
  obtain c where c: "MarshalRelationshipCondition (cn_proto S) (tk_condition w) = Inr c"
    using Cons.prems(2) by (cases "MarshalRelationshipCondition (cn_proto S) (tk_condition w)") (simp_all add: valid_write_def)
  let ?row = "tuple_row S store w c (ulid_at k)"
  let ?e = "\<lparr>e_store = store, e_key = w, e_cond = c, e_ulid = ulid_at k, e_at = now\<rparr>"
  have fresh: "ulid_at k \<notin> e_ulid ` set ts" using Cons.prems(3) by blast
  note step = write_step [OF assms(3) Cons.prems(1) w c fresh, of now store]
  from E show ?case
  proof (cases rule: exec_cases [where db = txn and stmt = "Insert ''tuple'' (map fst ?row) [map snd ?row] None []"])
    case (violated e)
    with step have "abs_entries ts store (tk_id w) \<noteq> None" by (auto split: if_splits)
    then show ?thesis using violated(1,2) handle [OF violated(2)] c by (simp add: Let_def)
  next
    case (executed n rs txn')
    with step have no: "abs_entries ts store (tk_id w) = None" and tbl: "tbl txn' = (tbl txn)(''tuple'' := map (row_of S) (ts @ [?e]))"
      by (auto split: if_splits)
    then have "entry_id ?e \<notin> entry_id ` set ts" by (simp add: abs_entries_None entry_id_def)
    then have rep: "represents S (tbl txn') (ts @ [?e])"
      unfolding tbl using Cons.prems(1) fresh w c by (intro represents_insert) (auto simp: valid_entry_def)
    have "\<forall>j\<ge>k + 1. ulid_at j \<notin> e_ulid ` set (ts @ [?e])"
      using Cons.prems(3) assms(5) by (auto dest: injD)
    then have IH: "case sql_write_loop S store ulid_at (k + 1) txn' (log @ [write_row S store ulid_at k w]) ws of
        Inl e \<Rightarrow> errors_Is e ErrInvalidWriteInput \<and>
          spec_writes (abs_entries (ts @ [?e]) store) (map (\<lambda>w. (tk_id w, write_cond w)) ws) = None
      | Inr (txn'', log') \<Rightarrow>
          log' = (log @ [write_row S store ulid_at k w]) @ map (\<lambda>(j, w). write_row S store ulid_at j w) (enumerate (k + 1) ws) \<and>
          tbl txn'' ''changelog'' = tbl txn' ''changelog'' \<and>
          (\<exists>ts'. represents S (tbl txn'') ts' \<and>
             spec_writes (abs_entries (ts @ [?e]) store) (map (\<lambda>w. (tk_id w, write_cond w)) ws) = Some (abs_entries ts' store) \<and>
             (\<forall>other. other \<noteq> store \<longrightarrow> abs_entries ts' other = abs_entries (ts @ [?e]) other))"
      using Cons.prems(2) by (intro Cons.IH rep) auto
    have eq: "sql_write_loop S store ulid_at k txn log (w # ws) =
        sql_write_loop S store ulid_at (k + 1) txn' (log @ [write_row S store ulid_at k w]) ws"
      using executed(1) c by (simp add: write_row_def Let_def)
    have "abs_entries (ts @ [?e]) store' =
        (if store' = store then (abs_entries ts store)(tk_id w \<mapsto> write_cond w) else abs_entries ts store')" for store'
      using abs_entries_insert [of ?e store "tk_id w" ts store'] no by (simp add: entry_id_def)
    then show ?thesis
      unfolding eq using IH no by (auto simp: tbl split: sum.splits)
  qed
qed

end

text \<open>The rows that a write adds to the change log.\<close>

definition log_rows :: "'db conn \<Rightarrow> string \<Rightarrow> (nat \<Rightarrow> string) \<Rightarrow> tuple_key_nc list \<Rightarrow> tuple_key list \<Rightarrow> (string \<times> sql_expr) list list" where
  "log_rows S store ulid_at ds ws =
     map (\<lambda>(j, d). delete_row S store ulid_at j d) (enumerate 0 ds) @
     map (\<lambda>(j, w). write_row S store ulid_at j w) (enumerate (length ds) ws)"

lemma begin_commit:
  assumes "conforming keys violation now E tbl" and "available violation E"
  obtains tx where "en_Begin E 0 db = Inr tx" "tbl tx = tbl db"
  using assms
proof -
  have "case en_Begin E 0 db of Inl e \<Rightarrow> fault violation e | Inr tx \<Rightarrow> tbl tx = tbl db"
    using assms(1) unfolding conforming_def by blast
  moreover have "\<not> isl (en_Begin E 0 db)" using assms(2) unfolding available_def by blast
  ultimately show thesis using that by (cases "en_Begin E 0 db") auto
qed

lemma commit_ok:
  assumes "conforming keys violation now E tbl" and "available violation E"
  obtains db' where "en_Commit E 0 tx = Inr db'" "tbl db' = tbl tx"
proof -
  have "case en_Commit E 0 tx of Inl e \<Rightarrow> fault violation e | Inr db' \<Rightarrow> tbl db' = tbl tx"
    using assms(1) unfolding conforming_def by blast
  moreover have "\<not> isl (en_Commit E 0 tx)" using assms(2) unfolding available_def by blast
  ultimately show thesis using that by (cases "en_Commit E 0 tx") auto
qed

context user_columns
begin

lemma changelog_row_facts:
  assumes "cn_user S = uc"
  shows "map fst (changelog_row S store k c op u) =
      [''store'', ''object_type'', ''object_id'', ''relation''] @ map fst (uc []) @
      [''condition_name'', ''condition_context'', ''operation'', ''ulid'', ''inserted_at'']"
    and "cell (evaluated now (changelog_row S store k c op u)) ''ulid'' = Text u"
proof -
  have no: "x \<notin> fst ` set (uc v)" if "x \<in> set other_columns" for x v
    using separate that uc_columns [of v] by auto
  show "map fst (changelog_row S store k c op u) =
      [''store'', ''object_type'', ''object_id'', ''relation''] @ map fst (uc []) @
      [''condition_name'', ''condition_context'', ''operation'', ''ulid'', ''inserted_at'']"
    using assms columns [of "tk_user k"] by (simp add: changelog_row_def key_cells_def split_beta comp_def)
  show "cell (evaluated now (changelog_row S store k c op u)) ''ulid'' = Text u"
    using assms
    by (simp add: evaluated_def changelog_row_def key_cells_def split_beta comp_def prod.map_comp cell_simps no other_columns_def)
qed

lemma log_rows_facts:
  assumes "cn_user S = uc"
  shows "r \<in> set (log_rows S store ulid_at ds ws) \<Longrightarrow> map fst r =
      [''store'', ''object_type'', ''object_id'', ''relation''] @ map fst (uc []) @
      [''condition_name'', ''condition_context'', ''operation'', ''ulid'', ''inserted_at'']"
    and "map (\<lambda>r. cell (evaluated now r) ''ulid'') (log_rows S store ulid_at ds ws) = map (Text \<circ> ulid_at) [0..<length ds + length ws]"
proof -
  show "map fst r =
      [''store'', ''object_type'', ''object_id'', ''relation''] @ map fst (uc []) @
      [''condition_name'', ''condition_context'', ''operation'', ''ulid'', ''inserted_at'']"
    if "r \<in> set (log_rows S store ulid_at ds ws)"
    using that by (auto simp: log_rows_def delete_row_def write_row_def changelog_row_facts(1) [OF assms])
  have "map (\<lambda>r. cell (evaluated now r) ''ulid'') (log_rows S store ulid_at ds ws) =
      map (\<lambda>x. Text (ulid_at (fst x))) (enumerate 0 ds) @ map (\<lambda>x. Text (ulid_at (fst x))) (enumerate (length ds) ws)"
    by (simp add: log_rows_def comp_def split_beta delete_row_def write_row_def changelog_row_facts(2) [OF assms])
  also have "\<dots> = map (Text \<circ> ulid_at) (map fst (enumerate 0 ds) @ map fst (enumerate (length ds) ws))"
    by (simp only: map_append map_map comp_def)
  also have "map fst (enumerate 0 ds) @ map fst (enumerate (length ds) ws) = [0..<length ds + length ws]"
    using upt_add_eq_append [of 0 "length ds" "length ws"] by simp
  finally show "map (\<lambda>r. cell (evaluated now r) ''ulid'') (log_rows S store ulid_at ds ws) = map (Text \<circ> ulid_at) [0..<length ds + length ws]" .
qed

lemma changelog_step:
  assumes "cn_user S = uc" and "inj ulid_at" and "\<forall>j. \<forall>r\<in>set (tabs ''changelog''). cell r ''ulid'' \<noteq> Text (ulid_at j)"
    and "ds \<noteq> [] \<or> ws \<noteq> []"
  shows "\<exists>n rs. exec_stmt keys now tabs (changelog_insert (log_rows S store ulid_at ds ws)) =
    Some (n, rs, tabs(''changelog'' := tabs ''changelog'' @ map (evaluated now) (log_rows S store ulid_at ds ws)))"
proof -
  let ?log = "log_rows S store ulid_at ds ws"
  have "?log \<noteq> []" using assms(4) by (auto simp: log_rows_def) (metis length_0_conv length_enumerate)+
  then have "map fst (hd ?log) = map fst r" if "r \<in> set ?log" for r
    using log_rows_facts(1) [OF assms(1)] that by (metis list.set_sel(1))
  then have new: "map (\<lambda>vs. zip (map fst (hd ?log)) (map (expr_value now) vs)) (map (map snd) ?log) = map (evaluated now) ?log"
    by (auto simp: zip_evaluated)
  have ulids: "map (\<lambda>r. cell r ''ulid'') (map (evaluated now) ?log) = map (Text \<circ> ulid_at) [0..<length ds + length ws]"
    using log_rows_facts(2) [OF assms(1), of now store ulid_at ds ws] by (simp add: comp_def)
  have "insert_rows (keys ''changelog'') None (tabs ''changelog'') (map (evaluated now) ?log) =
      Some (tabs ''changelog'' @ map (evaluated now) ?log)"
  proof (rule insert_rows_fresh [where c = "''ulid''"])
    show "distinct (map (\<lambda>r. cell r ''ulid'') (map (evaluated now) ?log))"
      unfolding ulids using assms(2) by (auto simp: distinct_map intro!: inj_onI dest: injD)
    have range: "\<exists>j. cell r ''ulid'' = Text (ulid_at j)" if "r \<in> set (map (evaluated now) ?log)" for r
    proof -
      have "cell r ''ulid'' \<in> set (map (\<lambda>r. cell r ''ulid'') (map (evaluated now) ?log))" using that by auto
      then show ?thesis unfolding ulids by auto
    qed
    show "\<forall>r\<in>set (map (evaluated now) ?log). \<forall>r'\<in>set (tabs ''changelog''). cell r ''ulid'' \<noteq> cell r' ''ulid''"
    proof (intro ballI)
      fix r r' assume r: "r \<in> set (map (evaluated now) ?log)" "r' \<in> set (tabs ''changelog'')"
      obtain j where "cell r ''ulid'' = Text (ulid_at j)" using range [OF r(1)] by blast
      then show "cell r ''ulid'' \<noteq> cell r' ''ulid''" using assms(3) r(2) by metis
    qed
    show "\<forall>ks\<in>set (keys ''changelog''). ''ulid'' \<in> set ks" by (simp add: changelog_keys)
  qed
  then show ?thesis by (simp add: changelog_insert_def new Let_def del: map_map)
qed

lemma log_written:
  assumes E: "conforming keys violation now (cn_engine S) tbl" "available violation (cn_engine S)" and uc: "cn_user S = uc"
    and ulids: "inj ulid_at" "\<forall>j. \<forall>r\<in>set (tbl txn ''changelog''). cell r ''ulid'' \<noteq> Text (ulid_at j)"
  obtains txn' where "(if ws \<noteq> [] \<or> ds \<noteq> []
      then map_sum (\<lambda>e. cn_handle S e None) (\<lambda>(_, _, txn). txn)
             (en_Exec (cn_engine S) 0 txn (changelog_insert (log_rows S store ulid_at ds ws)))
      else Inr txn) = Inr txn'"
    and "tbl txn' ''changelog'' = tbl txn ''changelog'' @ map (evaluated now) (log_rows S store ulid_at ds ws)"
    and "tbl txn' ''tuple'' = tbl txn ''tuple''"
proof (cases "ws \<noteq> [] \<or> ds \<noteq> []")
  case True
  let ?log = "log_rows S store ulid_at ds ws"
  from True obtain n rs where ex: "exec_stmt keys now (tbl txn) (changelog_insert ?log) =
      Some (n, rs, (tbl txn)(''changelog'' := tbl txn ''changelog'' @ map (evaluated now) ?log))"
    using changelog_step [OF uc ulids(1), where tabs = "tbl txn" and ds = ds and ws = ws and now = now and store = store] ulids(2) by auto
  from E show thesis
  proof (cases rule: exec_cases [where db = txn and stmt = "changelog_insert ?log"])
    case (executed n' rs' txn')
    with ex True that [of txn'] show thesis by auto
  qed (use ex in simp)
next
  case False
  then show thesis using that [of txn] by (simp add: log_rows_def)
qed

lemma sql_Write_refines:
  assumes E: "conforming keys violation now (cn_engine S) tbl" "available violation (cn_engine S)" and uc: "cn_user S = uc"
    and handle: "\<And>e tk. violation e \<Longrightarrow> errors_Is (cn_handle S e (Some tk)) ErrInvalidWriteInput"
    and ulids: "inj ulid_at" "\<forall>j. ulid_at j \<notin> e_ulid ` set ts" "\<forall>j. \<forall>r\<in>set (tbl (cn_db S) ''changelog''). cell r ''ulid'' \<noteq> Text (ulid_at j)"
    and rep: "represents S (tbl (cn_db S)) ts" and valid: "\<forall>d\<in>set ds. valid_key d" "\<forall>w\<in>set ws. valid_write (cn_proto S) w"
  shows "case sql_Write S ulid_at store ds ws of
      Inl e \<Rightarrow> errors_Is e ErrInvalidWriteInput \<and> spec_write (abs_entries ts store) ds ws = None
    | Inr db' \<Rightarrow>
        tbl db' ''changelog'' = tbl (cn_db S) ''changelog'' @ map (evaluated now) (log_rows S store ulid_at ds ws) \<and>
        (\<exists>ts'. represents S (tbl db') ts' \<and> spec_write (abs_entries ts store) ds ws = Some (abs_entries ts' store) \<and>
           (\<forall>other. other \<noteq> store \<longrightarrow> abs_entries ts' other = abs_entries ts other))"
proof -
  obtain txn where txn: "en_Begin (cn_engine S) 0 (cn_db S) = Inr txn" "tbl txn = tbl (cn_db S)"
    using begin_commit [OF E] .
  have rep1: "represents S (tbl txn) ts" using rep txn(2) by simp
  note del = delete_loop [OF E uc rep1 valid(1), where store = store and ulid_at = ulid_at and k = 0 and log = "[]"]
  show ?thesis
  proof (cases "sql_delete_loop S store ulid_at 0 txn [] ds")
    case (Inl e)
    with del txn show ?thesis by (simp add: sql_Write_def spec_write_def Let_def)
  next
    case (Inr x)
    then obtain txn' log k ts1 where x: "sql_delete_loop S store ulid_at 0 txn [] ds = Inr (txn', log, k)"
      and k: "k = length ds" and log: "log = map (\<lambda>(j, d). delete_row S store ulid_at j d) (enumerate 0 ds)"
      and cl: "tbl txn' ''changelog'' = tbl (cn_db S) ''changelog''"
      and rep2: "represents S (tbl txn') ts1" "set ts1 \<subseteq> set ts"
      and sp: "spec_deletes (abs_entries ts store) (map tk_id ds) = Some (abs_entries ts1 store)"
      and oth: "\<forall>other. other \<noteq> store \<longrightarrow> abs_entries ts1 other = abs_entries ts other"
      using del txn(2) by (cases x) auto
    have fresh: "\<forall>j\<ge>k. ulid_at j \<notin> e_ulid ` set ts1" using ulids(2) rep2(2) by blast
    note wr = write_loop [OF E uc handle ulids(1) rep2(1) valid(2) fresh, where store = store and log = log]
    show ?thesis
    proof (cases "sql_write_loop S store ulid_at k txn' log ws")
      case (Inl e)
      with wr txn x sp show ?thesis by (simp add: sql_Write_def spec_write_def Let_def)
    next
      case (Inr y)
      then obtain txn2 ts2 where y: "sql_write_loop S store ulid_at k txn' log ws = Inr (txn2, log_rows S store ulid_at ds ws)"
        and cl2: "tbl txn2 ''changelog'' = tbl (cn_db S) ''changelog''"
        and rep3: "represents S (tbl txn2) ts2"
        and sp2: "spec_writes (abs_entries ts1 store) (map (\<lambda>w. (tk_id w, write_cond w)) ws) = Some (abs_entries ts2 store)"
        and oth2: "\<forall>other. other \<noteq> store \<longrightarrow> abs_entries ts2 other = abs_entries ts other"
        using wr cl oth by (cases y) (auto simp: log k log_rows_def)
      have spec: "spec_write (abs_entries ts store) ds ws = Some (abs_entries ts2 store)"
        by (simp add: spec_write_def sp sp2)
      let ?log = "log_rows S store ulid_at ds ws"
      obtain txn3 where txn3: "(if ws \<noteq> [] \<or> ds \<noteq> []
            then map_sum (\<lambda>e. cn_handle S e None) (\<lambda>(_, _, txn). txn) (en_Exec (cn_engine S) 0 txn2 (changelog_insert ?log))
            else Inr txn2) = Inr txn3"
        "tbl txn3 ''changelog'' = tbl txn2 ''changelog'' @ map (evaluated now) ?log" "tbl txn3 ''tuple'' = tbl txn2 ''tuple''"
        using log_written [OF E uc ulids(1), of txn2 ws ds store] ulids(3) cl2 by metis
      obtain db' where db': "en_Commit (cn_engine S) 0 txn3 = Inr db'" "tbl db' = tbl txn3"
        using commit_ok [OF E] .
      have "sql_Write S ulid_at store ds ws = Inr db'"
        using txn(1) x y txn3(1) db'(1) by (simp add: sql_Write_def Let_def)
      moreover have "represents S (tbl db') ts2" using rep3 txn3(3) db'(2) by (simp add: represents_def)
      ultimately show ?thesis using spec oth2 txn3(2) cl2 db'(2) by auto
    qed
  qed
qed

end

section \<open>Reading\<close>

definition pending_rows :: "'db conn \<Rightarrow> SQLTupleIterator \<Rightarrow> row list" where
  "pending_rows S t = (case fetchBuffer S t of Inl e \<Rightarrow> [] | Inr (rows, e) \<Rightarrow> rows)"

definition sql_contents :: "'db conn \<Rightarrow> SQLTupleIterator \<Rightarrow> tuple list" where
  "sql_contents S t =
     map AsTuple ((case it_firstRow t of Some r \<Rightarrow> [r] | None \<Rightarrow> []) @ map (\<lambda>row. projr (scan_record S row)) (pending_rows S t))"

definition sql_invar :: "'db conn \<Rightarrow> SQLTupleIterator \<Rightarrow> bool" where
  "sql_invar S t \<longleftrightarrow>
     (\<forall>row\<in>set (pending_rows S t). \<not> isl (scan_record S row)) \<and>
     (case it_rows t of Some (rows, e) \<Rightarrow> e = None | None \<Rightarrow> it_firstRow t = None)"

lemma fetch_ok:
  assumes "available violation (cn_engine S)" and "sql_invar S t"
  shows "fetchBuffer S t = Inr (pending_rows S t, None)"
proof -
  have "case en_Query (cn_engine S) 0 (cn_db S) (it_sb t) of Inl e \<Rightarrow> False | Inr (rs, e) \<Rightarrow> e = None"
    using assms(1) unfolding available_def by blast
  then show ?thesis
    using assms(2)
    by (auto simp: pending_rows_def fetchBuffer_def sql_invar_def split: option.splits sum.splits)
qed

lemma pending_fetched [simp]: "pending_rows S (t\<lparr>it_rows := Some (rows, e)\<rparr>) = rows"
  "pending_rows S (t\<lparr>it_rows := Some (rows, e), it_firstRow := r\<rparr>) = rows"
  by (simp_all add: pending_rows_def fetchBuffer_def)

lemma sql_iterator:
  assumes "available violation (cn_engine S)"
  shows "iterator (sqlTupleIterator S) (sql_contents S) (sql_invar S)"
proof
  fix t c assume inv: "sql_invar S t"
  note fetch = fetch_ok [OF assms inv]
  show "\<exists>r s'. iNext (sqlTupleIterator S) c t = Some (r, s') \<and> sql_invar S s' \<and> next_ok c (sql_contents S t) r (sql_contents S s')"
  proof (cases "ctx_Err c")
    case (Some e)
    with inv show ?thesis by (simp add: sqlTupleIterator_def sql_Next_def)
  next
    case None
    show ?thesis
    proof (cases "it_firstRow t")
      case (Some r)
      with None fetch inv show ?thesis
        by (auto simp: sqlTupleIterator_def sql_Next_def sql_next_def sql_contents_def sql_invar_def)
    next
      case no_first: None
      show ?thesis
      proof (cases "pending_rows S t")
        case Nil
        with None no_first fetch inv show ?thesis
          by (auto simp: sqlTupleIterator_def sql_Next_def sql_next_def sql_contents_def sql_invar_def)
      next
        case (Cons row rows)
        then obtain r where "scan_record S row = Inr r" using inv by (cases "scan_record S row") (auto simp: sql_invar_def)
        with Cons None no_first fetch inv show ?thesis
          by (auto simp: sqlTupleIterator_def sql_Next_def sql_next_def sql_contents_def sql_invar_def)
      qed
    qed
  qed
  show "\<exists>r s'. iHead (sqlTupleIterator S) c t = Some (r, s') \<and> sql_invar S s' \<and> head_ok c (sql_contents S t) r (sql_contents S s')"
  proof (cases "ctx_Err c")
    case (Some e)
    with inv show ?thesis by (simp add: sqlTupleIterator_def sql_Head_def)
  next
    case None
    show ?thesis
    proof (cases "it_firstRow t")
      case (Some r)
      with None fetch inv show ?thesis
        by (auto simp: sqlTupleIterator_def sql_Head_def sql_head_def sql_contents_def sql_invar_def)
    next
      case no_first: None
      show ?thesis
      proof (cases "pending_rows S t")
        case Nil
        with None no_first fetch inv show ?thesis
          by (auto simp: sqlTupleIterator_def sql_Head_def sql_head_def sql_contents_def sql_invar_def)
      next
        case (Cons row rows)
        then obtain r where "scan_record S row = Inr r" using inv by (cases "scan_record S row") (auto simp: sql_invar_def)
        with Cons None no_first fetch inv show ?thesis
          by (auto simp: sqlTupleIterator_def sql_Head_def sql_head_def sql_contents_def sql_invar_def)
      qed
    qed
  qed
next
  fix t assume inv: "sql_invar S t"
  show "sql_invar S (iStop (sqlTupleIterator S) t)"
    using inv by (cases "it_rows t") (auto simp: sqlTupleIterator_def sql_invar_def sql_Stop_def pending_rows_def fetchBuffer_def)
  show "set (sql_contents S (iStop (sqlTupleIterator S) t)) \<subseteq> set (sql_contents S t)"
    by (cases "it_rows t") (auto simp: sqlTupleIterator_def sql_contents_def sql_Stop_def pending_rows_def fetchBuffer_def)
qed

text \<open>A row of the table gives the record, and the tuple, of its entry.\<close>

lemma marshal_read_back:
  assumes "proto_laws P" and "MarshalRelationshipCondition P rel = Inr (name, ctx)"
  shows "case ctx of
      None \<Rightarrow> NewRelationshipCondition name None = (case rel of None \<Rightarrow> None | Some c \<Rightarrow> NewRelationshipCondition (cond_name c) (cond_context c))
    | Some b \<Rightarrow> (\<exists>s. pb_UnmarshalStruct P b = Inr s \<and>
        NewRelationshipCondition name (Some s) = (case rel of None \<Rightarrow> None | Some c \<Rightarrow> NewRelationshipCondition (cond_name c) (cond_context c)))"
proof (cases rel)
  case None
  then show ?thesis using assms(2) by (auto simp: MarshalRelationshipCondition_def NewRelationshipCondition_def)
next
  case (Some c)
  show ?thesis
  proof (cases "cond_context c")
    case None
    with Some assms(2) show ?thesis by (auto simp: MarshalRelationshipCondition_def)
  next
    case ctxs: (Some fs)
    show ?thesis
    proof (cases fs)
      case Nil
      with Some ctxs assms(2) show ?thesis
        by (auto simp: MarshalRelationshipCondition_def NewRelationshipCondition_def)
    next
      case (Cons f fs')
      with Some ctxs assms(2) obtain b where b: "pb_MarshalStruct P (f # fs') = Inr b" "name = cond_name c" "ctx = Some b"
        by (cases "pb_MarshalStruct P (f # fs')") (auto simp: MarshalRelationshipCondition_def)
      then have "pb_UnmarshalStruct P b = Inr (f # fs')" using assms(1) unfolding proto_laws_def by blast
      with b Cons Some ctxs show ?thesis by simp
    qed
  qed
qed

context user_columns
begin

lemma scan_user_cells:
  assumes uc: "cn_user S = uc" and valid: "valid_key (e_key e)"
  obtains f a b c d where "scan (map (cell (row_of S e)) (map fst (uc []))) = Some f"
    and "(if a = [] then FromUserParts b c d else a) = tk_user (e_key e)"
    and "\<And>r. tr_User r = [] \<Longrightarrow> tr_UserObjectType r = [] \<Longrightarrow> tr_UserObjectID r = [] \<Longrightarrow> tr_UserRelation r = [] \<Longrightarrow>
       f r = r\<lparr>tr_User := a, tr_UserObjectType := b, tr_UserObjectID := c, tr_UserRelation := d\<rparr>"
proof -
  let ?u = "tk_user (e_key e)"
  have "map (cell (row_of S e)) (map fst (uc [])) = map (cell (uc ?u)) (map fst (uc ?u))"
    unfolding columns [of ?u] using row_cells(10) [OF uc] by auto
  also have "\<dots> = map snd (uc ?u)" using distinct_columns columns [of ?u] by (intro cells_zip) simp
  finally have "map (cell (row_of S e)) (map fst (uc [])) = map snd (uc ?u)" .
  moreover have "IsValidUser ?u" using valid by (simp add: valid_key_def)
  ultimately show thesis using scan_law [of ?u] that by metis
qed

lemma scan_row:
  assumes uc: "cn_user S = uc" "cn_scan_user S = scan" and P: "proto_laws (cn_proto S)" and e: "valid_entry (cn_proto S) e"
  shows "\<exists>r. scan_record S (project (tuple_columns S) (row_of S e)) = Inr r \<and> t_key (AsTuple r) = entry_key e \<and> tr_Ulid r = e_ulid e"
proof -
  let ?u = "tk_user (e_key e)"
  obtain name ctx where c: "e_cond e = (name, ctx)" by (cases "e_cond e")
  have valid: "valid_key (e_key e)" and m: "MarshalRelationshipCondition (cn_proto S) (tk_condition (e_key e)) = Inr (name, ctx)"
    using e c by (simp_all add: valid_entry_def)
  then obtain f a b cc d where sc: "scan (map (cell (row_of S e)) (map fst (uc []))) = Some f" "(if a = [] then FromUserParts b cc d else a) = ?u"
    "\<And>r. tr_User r = [] \<Longrightarrow> tr_UserObjectType r = [] \<Longrightarrow> tr_UserObjectID r = [] \<Longrightarrow> tr_UserRelation r = [] \<Longrightarrow>
       f r = r\<lparr>tr_User := a, tr_UserObjectType := b, tr_UserObjectID := cc, tr_UserRelation := d\<rparr>"
    using scan_user_cells [OF uc(1)] by metis
  have "map snd (project (tuple_columns S) (row_of S e)) =
      [Text (e_store e), Text (fst (SplitObject (tk_object (e_key e)))), Text (snd (SplitObject (tk_object (e_key e)))),
       Text (tk_relation (e_key e))] @ map (cell (row_of S e)) (map fst (uc [])) @ [Text name, blob ctx, Text (e_ulid e), Number (e_at e)]"
    by (simp add: project_def tuple_columns_def uc row_cells [OF uc(1)] c comp_def)
  moreover define r0 where "r0 = empty_record\<lparr>tr_Store := e_store e, tr_ObjectType := fst (SplitObject (tk_object (e_key e))),
       tr_ObjectID := snd (SplitObject (tk_object (e_key e))), tr_Relation := tk_relation (e_key e), tr_ConditionName := name,
       tr_Ulid := e_ulid e, tr_InsertedAt := e_at e\<rparr>"
  ultimately have st: "scan_tuple S (map snd (project (tuple_columns S) (row_of S e))) = Some (f r0, ctx)"
    using sc(1) by (cases ctx) (simp_all add: scan_tuple_def uc NullString_def blob_def Let_def numeral_eq_Suc)
  have fr: "f r0 = r0\<lparr>tr_User := a, tr_UserObjectType := b, tr_UserObjectID := cc, tr_UserRelation := d\<rparr>"
    by (rule sc(3)) (simp_all add: r0_def empty_record_def)
  obtain ot oid where ot: "SplitObject (tk_object (e_key e)) = (ot, oid)" by (cases "SplitObject (tk_object (e_key e))")
  then have ob: "SplitObject (tk_object (e_key e)) = (ot, oid)" "tk_object (e_key e) = BuildObject ot oid"
    using valid SplitObject_eq_iff [of ot "tk_object (e_key e)" oid] by (auto simp: valid_key_def full_key_def)
  have key: "t_key (AsTuple ((f r0)\<lparr>tr_ConditionContext := x\<rparr>)) =
      \<lparr>tk_object = tk_object (e_key e), tk_relation = tk_relation (e_key e), tk_user = ?u, tk_condition = NewRelationshipCondition name x\<rparr>" for x
    using sc(2) ob unfolding fr by (auto simp: AsTuple_def Let_def NewTupleKeyWithCondition_def r0_def)
  have wc: "entry_key e = \<lparr>tk_object = tk_object (e_key e), tk_relation = tk_relation (e_key e), tk_user = ?u,
      tk_condition = (case tk_condition (e_key e) of None \<Rightarrow> None | Some c \<Rightarrow> NewRelationshipCondition (cond_name c) (cond_context c))\<rparr>"
    by (simp add: entry_key_def write_cond_def)
  have no_ctx: "tr_ConditionContext (f r0) = None" unfolding fr by (simp add: r0_def empty_record_def)
  then have same: "(f r0)\<lparr>tr_ConditionContext := None\<rparr> = f r0" by simp
  have ul: "tr_Ulid (f r0) = e_ulid e" unfolding fr by (simp add: r0_def)
  from marshal_read_back [OF P m] show ?thesis
    using st key [of None] key [of "Some _"] wc same ul
    by (auto simp: scan_record_def split: option.splits)
qed

end

end
