(* ===== verification/SqlReader.thy ===== *)
theory SqlReader
  imports SqlCorrect CheckProperties
begin

text \<open>
  The SQL datastores as readers of tuples: what the queries of \<^verbatim>\<open>Read\<close>, \<^verbatim>\<open>ReadUserTuple\<close> and \<^verbatim>\<open>ReadUsersetTuples\<close> return
  from a table that represents a list of entries. SQLite meets the contract of a tuple reader, so that the theorems
  about the check resolver hold over it.
\<close>

section \<open>Queries on a table of tuples\<close>

definition entry_keys :: "entry list \<Rightarrow> string \<Rightarrow> tuple_key set" where
  "entry_keys ts store = entry_key ` {e \<in> set ts. e_store e = store}"

lemmas select_simps = Select_def Where_def OrderBy_def Limit_def WhereText_def object_where_def tuples_select_def Let_def split_beta

lemma query_answer:
  assumes "conforming keys violation now E tbl" and "available violation E"
  obtains rs where "en_Query E 0 db q = Inr (rs, None)" and "sql_answers now (tbl db) q rs"
proof -
  have "case en_Query E 0 db q of Inl e \<Rightarrow> False | Inr (rs, e) \<Rightarrow> e = None"
    using assms(2) unfolding available_def by blast
  moreover have "case en_Query E 0 db q of Inl e \<Rightarrow> fault violation e | Inr (rs, Some e) \<Rightarrow> fault violation e
      | Inr (rs, None) \<Rightarrow> sql_answers now (tbl db) q rs"
    using assms(1) unfolding conforming_def by blast
  ultimately show ?thesis using that by (auto split: sum.splits prod.splits option.splits)
qed

lemma sql_answers_set:
  assumes "sql_answers now tabs q rs" and "q_limit q = None"
  shows "set rs = project (q_columns q) ` {r \<in> set (tabs (q_from q)). \<forall>p\<in>set (q_where q). holds now r p}"
proof -
  have "set rs = set (selected now tabs q)"
    using assms by (metis limited_def option.simps(4) set_mset_mset sql_answers_def)
  then show ?thesis by (auto simp: selected_def Let_def list_all_iff)
qed

context user_columns
begin

lemma select_contents:
  assumes uc: "cn_user S = uc" "cn_scan_user S = scan" and P: "proto_laws (cn_proto S)"
    and E: "conforming keys violation now (cn_engine S) tbl" "available violation (cn_engine S)"
    and ts: "represents S (tbl (cn_db S)) ts"
    and q: "q_columns q = tuple_columns S" "q_from q = ''tuple''" "q_limit q = None"
  shows "sql_invar S (NewSQLTupleIterator q)" (is ?I)
    and "t_key ` set (sql_contents S (NewSQLTupleIterator q)) =
      entry_key ` {e \<in> set ts. \<forall>p\<in>set (q_where q). holds now (row_of S e) p}" (is ?C)
proof -
  let ?sel = "{e \<in> set ts. \<forall>p\<in>set (q_where q). holds now (row_of S e) p}"
  obtain rs where rs: "en_Query (cn_engine S) 0 (cn_db S) q = Inr (rs, None)" "sql_answers now (tbl (cn_db S)) q rs"
    using query_answer [OF E] .
  have "set rs = project (tuple_columns S) ` row_of S ` ?sel"
    using sql_answers_set [OF rs(2) q(3)] ts by (auto simp: q represents_def)
  then have rows: "set (pending_rows S (NewSQLTupleIterator q)) = (\<lambda>e. project (tuple_columns S) (row_of S e)) ` ?sel"
    using rs(1) by (simp add: pending_rows_def fetchBuffer_def NewSQLTupleIterator_def image_image)
  have scan: "\<exists>r. scan_record S (project (tuple_columns S) (row_of S e)) = Inr r \<and> t_key (AsTuple r) = entry_key e"
    if "e \<in> set ts" for e
    using scan_row [OF uc P] ts that unfolding represents_def by blast
  show ?I using scan rows by (fastforce simp: sql_invar_def NewSQLTupleIterator_def)
  have "t_key (AsTuple (projr (scan_record S (project (tuple_columns S) (row_of S e))))) = entry_key e" if "e \<in> ?sel" for e
    using scan [of e] that by auto
  then have "(\<lambda>e. t_key (AsTuple (projr (scan_record S (project (tuple_columns S) (row_of S e)))))) ` ?sel = entry_key ` ?sel"
    by (rule image_cong [OF refl])
  moreover have "sql_contents S (NewSQLTupleIterator q) =
      map (\<lambda>row. AsTuple (projr (scan_record S row))) (pending_rows S (NewSQLTupleIterator q))"
    by (simp add: sql_contents_def NewSQLTupleIterator_def)
  ultimately show ?C by (simp add: rows image_image)
qed

lemma object_holds:
  assumes uc: "cn_user S = uc" and "IsValidObject ob" and "valid_key (e_key e)"
  shows "cell (row_of S e) ''object_type'' = Text (fst (SplitObject ob)) \<and> cell (row_of S e) ''object_id'' = Text (snd (SplitObject ob))
    \<longleftrightarrow> tk_object (e_key e) = ob"
proof -
  have "full_key (e_key e)" using assms(3) by (simp add: valid_key_def)
  then have "SplitObject (tk_object (e_key e)) = SplitObject ob \<longleftrightarrow> tk_object (e_key e) = ob"
    using IsValidObject_split [OF assms(2)] by (metis SplitObject_eq_iff full_key_def prod.collapse)
  then show ?thesis by (auto simp: row_cells [OF uc] prod_eq_iff)
qed

lemma read_contents:
  assumes uc: "cn_user S = uc" "cn_scan_user S = scan" and P: "proto_laws (cn_proto S)"
    and E: "conforming keys violation now (cn_engine S) tbl" "available violation (cn_engine S)"
    and ts: "represents S (tbl (cn_db S)) ts" and ob: "IsValidObject ob" "rel \<noteq> []"
  shows "sql_invar S (NewSQLTupleIterator (read_select S store (NewTupleKey ob rel []) None)) \<and>
    t_key ` set (sql_contents S (NewSQLTupleIterator (read_select S store (NewTupleKey ob rel []) None))) =
      {k \<in> entry_keys ts store. tk_object k = ob \<and> tk_relation k = rel}"
proof -
  let ?q = "read_select S store (NewTupleKey ob rel []) None"
  have ne: "fst (SplitObject ob) \<noteq> []" "snd (SplitObject ob) \<noteq> []" using IsValidObject_split [OF ob(1)] by auto
  have q: "q_columns ?q = tuple_columns S" "q_from ?q = ''tuple''" "q_limit ?q = None"
    by (simp_all add: read_select_def select_simps NewTupleKey_def)
  have w: "(\<forall>p\<in>set (q_where ?q). holds now (row_of S e) p) \<longleftrightarrow> e_store e = store \<and> tk_object (e_key e) = ob \<and> tk_relation (e_key e) = rel"
    if "e \<in> set ts" for e
    using object_holds [OF uc(1) ob(1), of e] that ts ob(2) ne
    by (auto simp: read_select_def select_simps NewTupleKey_def holds_Eq_cells row_cells [OF uc(1)] represents_def valid_entry_def)
  have "{e \<in> set ts. \<forall>p\<in>set (q_where ?q). holds now (row_of S e) p} =
      {e \<in> set ts. e_store e = store \<and> tk_object (e_key e) = ob \<and> tk_relation (e_key e) = rel}"
    using w by blast
  with select_contents [OF uc P E ts q] show ?thesis by (auto simp: entry_keys_def entry_key_def)
qed

end
context user_columns
begin

lemma user_tuple_row:
  assumes uc: "cn_user S = uc" "cn_scan_user S = scan" and P: "proto_laws (cn_proto S)" and e: "valid_entry (cn_proto S) e"
    and row: "row = project (q_columns (user_tuple_select S store tk)) (row_of S e)"
    and query: "query_row (cn_engine S) (cn_db S) (user_tuple_select S store tk) = Inr row"
  shows "\<exists>tup. query_user_tuple S store tk = Inr tup \<and> t_key tup = entry_key e"
proof -
  obtain name ctx where c: "e_cond e = (name, ctx)" by (cases "e_cond e")
  have valid: "valid_key (e_key e)" and m: "MarshalRelationshipCondition (cn_proto S) (tk_condition (e_key e)) = Inr (name, ctx)"
    using e c by (simp_all add: valid_entry_def)
  then obtain f a b cc d where sc: "scan (map (cell (row_of S e)) (map fst (uc []))) = Some f"
      "(if a = [] then FromUserParts b cc d else a) = tk_user (e_key e)"
    "\<And>r. tr_User r = [] \<Longrightarrow> tr_UserObjectType r = [] \<Longrightarrow> tr_UserObjectID r = [] \<Longrightarrow> tr_UserRelation r = [] \<Longrightarrow>
       f r = r\<lparr>tr_User := a, tr_UserObjectType := b, tr_UserObjectID := cc, tr_UserRelation := d\<rparr>"
    using scan_user_cells [OF uc(1)] by metis
  obtain ot oid where ot: "SplitObject (tk_object (e_key e)) = (ot, oid)" by (cases "SplitObject (tk_object (e_key e))")
  then have ob: "tk_object (e_key e) = BuildObject ot oid"
    using valid SplitObject_eq_iff [of ot "tk_object (e_key e)" oid] by (auto simp: valid_key_def full_key_def)
  define r0 where "r0 = empty_record\<lparr>tr_ObjectType := ot, tr_ObjectID := oid, tr_Relation := tk_relation (e_key e)\<rparr>"
  have "map snd row = [Text ot, Text oid, Text (tk_relation (e_key e))] @ map (cell (row_of S e)) (map fst (uc [])) @ [Text name, blob ctx]"
    by (simp add: row project_def user_tuple_select_def select_simps uc row_cells [OF uc(1)] c comp_def ot)
  then have st: "scan_user_tuple S (map snd row) = Some (f r0, name, ctx)"
    using sc(1) by (cases ctx) (simp_all add: scan_user_tuple_def uc NullString_def blob_def r0_def numeral_eq_Suc)
  have fr: "f r0 = r0\<lparr>tr_User := a, tr_UserObjectType := b, tr_UserObjectID := cc, tr_UserRelation := d\<rparr>"
    by (rule sc(3)) (simp_all add: r0_def empty_record_def)
  have key: "t_key (AsTuple ((f r0)\<lparr>tr_ConditionName := n, tr_ConditionContext := x\<rparr>)) =
      \<lparr>tk_object = tk_object (e_key e), tk_relation = tk_relation (e_key e), tk_user = tk_user (e_key e),
       tk_condition = NewRelationshipCondition n x\<rparr>" for n x
    using sc(2) ob unfolding fr by (auto simp: AsTuple_def Let_def NewTupleKeyWithCondition_def r0_def)
  have keyN: "t_key (AsTuple ((f r0)\<lparr>tr_ConditionName := n\<rparr>)) =
      \<lparr>tk_object = tk_object (e_key e), tk_relation = tk_relation (e_key e), tk_user = tk_user (e_key e),
       tk_condition = NewRelationshipCondition n None\<rparr>" for n
    using key [where n = n and x = None] unfolding fr by (simp add: r0_def empty_record_def)
  have key0: "t_key (AsTuple (f r0)) =
      \<lparr>tk_object = tk_object (e_key e), tk_relation = tk_relation (e_key e), tk_user = tk_user (e_key e), tk_condition = None\<rparr>"
    using keyN [of "[]"] unfolding fr by (simp add: r0_def empty_record_def NewRelationshipCondition_def)
  have wc: "entry_key e = \<lparr>tk_object = tk_object (e_key e), tk_relation = tk_relation (e_key e), tk_user = tk_user (e_key e),
      tk_condition = (case tk_condition (e_key e) of None \<Rightarrow> None | Some c \<Rightarrow> NewRelationshipCondition (cond_name c) (cond_context c))\<rparr>"
    by (simp add: entry_key_def write_cond_def)
  from marshal_read_back [OF P m] show ?thesis
    using query st key keyN key0 wc
    by (cases "name = []"; cases ctx) (auto simp: query_user_tuple_def NewRelationshipCondition_def)
qed

lemma user_tuple_laws:
  assumes uc: "cn_user S = uc" "cn_scan_user S = scan" and P: "proto_laws (cn_proto S)"
    and handle: "cn_handle S ErrNoRows None = ErrNotFound"
    and E: "conforming keys violation now (cn_engine S) tbl" "available violation (cn_engine S)"
    and ts: "represents S (tbl (cn_db S)) ts"
    and tk: "IsValidObject (tk_object tk)" "tk_relation tk \<noteq> []" "wf_user (tk_user tk)"
  shows "(\<exists>e\<in>set ts. entry_id e = (store, tk_id tk) \<and> (\<exists>tup. query_user_tuple S store tk = Inr tup \<and> t_key tup = entry_key e)) \<or>
    (\<forall>e\<in>set ts. entry_id e \<noteq> (store, tk_id tk)) \<and> query_user_tuple S store tk = Inl ErrNotFound"
proof -
  let ?q = "user_tuple_select S store tk"
  obtain rs where rs: "en_Query (cn_engine S) 0 (cn_db S) ?q = Inr (rs, None)" "sql_answers now (tbl (cn_db S)) ?q rs"
    using query_answer [OF E] .
  have valid: "valid_key tk"
    using tk wf_user_nonempty [OF tk(3)] IsValidObject_split [OF tk(1)] by (auto simp: valid_key_def full_key_def wf_user_def)
  have "(\<forall>p\<in>set (q_where ?q). holds now (row_of S e) p) \<longleftrightarrow> entry_id e = (store, tk_id tk)" if "e \<in> set ts" for e
    using holds_key [OF uc(1) valid, of e now store] ts that
    by (auto simp: user_tuple_select_def select_simps represents_def valid_entry_def)
  moreover have "q_limit ?q = None" "q_from ?q = ''tuple''" by (simp_all add: user_tuple_select_def select_simps)
  ultimately have sel: "set rs = project (q_columns ?q) ` row_of S ` {e \<in> set ts. entry_id e = (store, tk_id tk)}"
    using sql_answers_set [OF rs(2)] ts by (auto simp: represents_def)
  show ?thesis
  proof (cases rs)
    case Nil
    with sel have "\<forall>e\<in>set ts. entry_id e \<noteq> (store, tk_id tk)" by auto
    moreover have "query_user_tuple S store tk = Inl ErrNotFound"
      using Nil rs(1) handle by (simp add: query_user_tuple_def query_row_def)
    ultimately show ?thesis by blast
  next
    case (Cons row rs')
    then have "row \<in> set rs" by simp
    then obtain e where e: "e \<in> set ts" "entry_id e = (store, tk_id tk)" "row = project (q_columns ?q) (row_of S e)"
      unfolding sel by blast
    then have "valid_entry (cn_proto S) e" using ts by (simp add: represents_def)
    from user_tuple_row [OF uc P this e(3)] have "\<exists>tup. query_user_tuple S store tk = Inr tup \<and> t_key tup = entry_key e"
      using rs(1) Cons by (simp add: query_row_def)
    with e show ?thesis by blast
  qed
qed

end

section \<open>SQLite as a reader\<close>

definition sqlite_reader :: "'db conn \<Rightarrow> SQLTupleIterator RelationshipTupleReader" where
  "sqlite_reader S =
     \<lparr>ds_Iterator = sqlite_TupleIterator S, ds_Read = sqlite_Read S, ds_ReadUserTuple = sqlite_ReadUserTuple S,
      ds_ReadUsersetTuples = sqlite_ReadUsersetTuples S, ds_ReadStartingWithUser = sqlite_ReadStartingWithUser S\<rparr>"

lemma ToUserParts_userset:
  assumes "IsValidUser u" and "GetUserTypeFromUser u = UserSet"
  shows "fst (ToUserParts u) = GetType u \<and> snd (snd (ToUserParts u)) = Tuples.GetRelation u \<and>
    (fst (snd (ToUserParts u)) = ''*'' \<longleftrightarrow> Tuples.GetRelation u = [])"
  using assms(1)
proof (cases rule: IsValidUser_cases)
  case uid
  then have sp: "SplitObjectRelation u = (u, [])" "SplitObject u = ([], u)" by (simp_all add: valid_user_simps)
  with assms(2) have "u = ''*''"
    by (auto simp: GetUserTypeFromUser_def IsObjectRelation_def Tuples.GetRelation_def IsWildcard_def IsTypedWildcard_def Wildcard_def
        split: if_splits)
  with sp show ?thesis by (simp add: ToUserParts_def GetType_def Tuples.GetRelation_def)
next
  case (object t i)
  then have sp: "SplitObjectRelation u = (u, [])" "SplitObject u = (t, i)" by (simp_all add: valid_user_simps)
  moreover have "u \<noteq> ''*''" using object(1,2) by (cases t) auto
  ultimately have "i = ''*''" using assms(2)
    by (auto simp: GetUserTypeFromUser_def IsObjectRelation_def Tuples.GetRelation_def IsWildcard_def IsTypedWildcard_def Wildcard_def
        split: if_splits)
  with sp show ?thesis by (simp add: ToUserParts_def GetType_def Tuples.GetRelation_def)
next
  case (userset t i r)
  then have sp: "SplitObjectRelation u = (t @ CHR '':'' # i, r)" by (simp add: valid_user_simps)
  have colon: "CHR '':'' \<notin> set t" using userset(5) by (rule name_chars_excluded)
  have "SplitObject u = (t, i @ CHR ''#'' # r)" "SplitObject (t @ CHR '':'' # i) = (t, i)"
    using SplitObject_colon [OF colon] userset(1) by simp_all
  moreover have "i \<noteq> ''*''" using userset(6) by (metis list.set_intros(1))
  ultimately show ?thesis using sp userset(4) by (simp add: ToUserParts_def GetType_def Tuples.GetRelation_def)
qed

lemma parts_of_user:
  assumes "IsValidUser u" and "GetUserTypeFromUser u = UserSet" and "userset_ref ref"
    and "cell r ''user_object_type'' = Text (fst (ToUserParts u))" and "cell r ''user_object_id'' = Text (fst (snd (ToUserParts u)))"
    and "cell r ''user_relation'' = Text (snd (snd (ToUserParts u)))"
  shows "list_ex (holds now r) (parts_conditions ref) \<longleftrightarrow> rr_type ref = GetType u \<and> rr_GetRelation ref = Tuples.GetRelation u"
  using assms(3-6) ToUserParts_userset [OF assms(1,2)]
  by (auto simp: parts_conditions_def holds_Eq_cells userset_ref_def rr_GetRelation_def split: relation_or_wildcard.splits)

lemma sqlite_cells:
  assumes "cn_user S = sqlite_user_cells"
  shows "cell (row_of S e) ''user_object_type'' = Text (fst (ToUserParts (tk_user (e_key e))))"
    and "cell (row_of S e) ''user_object_id'' = Text (fst (snd (ToUserParts (tk_user (e_key e)))))"
    and "cell (row_of S e) ''user_relation'' = Text (snd (snd (ToUserParts (tk_user (e_key e)))))"
  by (simp_all add: user_parts.row_cells(10) [OF assms] sqlite_user_cells_def split_beta cell_simps)

lemma entry_key_id [simp]:
  "tk_object (entry_key e) = tk_object (e_key e)" "tk_relation (entry_key e) = tk_relation (e_key e)"
  "tk_user (entry_key e) = tk_user (e_key e)"
  by (simp_all add: entry_key_def)

lemma filter_image: "{k \<in> f ` A. Q k} = f ` {x \<in> A. Q (f x)}"
  by auto

definition usersets_of :: "relation_reference list \<Rightarrow> string \<Rightarrow> string \<Rightarrow> tuple_key set \<Rightarrow> tuple_key set" where
  "usersets_of refs ob rel K =
     {k \<in> K. tk_object k = ob \<and> tk_relation k = rel \<and> GetUserTypeFromUser (tk_user k) = UserSet \<and>
        (\<exists>ref\<in>set refs. rr_type ref = GetType (tk_user k) \<and> rr_GetRelation ref = Tuples.GetRelation (tk_user k))}"

lemma usersets_contents:
  assumes S: "S = sqlite E P db" and P: "proto_laws P"
    and E: "conforming sqlite_keys violation now E tbl" "available violation E"
    and ts: "represents S (tbl db) ts" and ob: "IsValidObject ob" "rel \<noteq> []" "refs \<noteq> []" "\<forall>ref\<in>set refs. userset_ref ref"
    and q: "q = usersets_select S parts_conditions store
      \<lparr>ruf_Object = ob, ruf_Relation = rel, ruf_AllowedUserTypeRestrictions = refs\<rparr>"
  shows "sql_invar S (NewSQLTupleIterator q) \<and>
    t_key ` set (sql_contents S (NewSQLTupleIterator q)) = usersets_of refs ob rel (entry_keys ts store)"
proof -
  have uc: "cn_user S = sqlite_user_cells" "cn_scan_user S = sqlite_scan_user" "cn_proto S = P" "cn_engine S = E" "cn_db S = db"
    by (simp_all add: S sqlite_def)
  have ne: "fst (SplitObject ob) \<noteq> []" "snd (SplitObject ob) \<noteq> []" using IsValidObject_split [OF ob(1)] by auto
  have form: "q_columns q = tuple_columns S" "q_from q = ''tuple''" "q_limit q = None"
    using ob(2,3) by (simp_all add: q usersets_select_def select_simps)
  have "(\<forall>p\<in>set (q_where q). holds now (row_of S e) p) \<longleftrightarrow>
      e_store e = store \<and> tk_object (e_key e) = ob \<and> tk_relation (e_key e) = rel \<and> GetUserTypeFromUser (tk_user (e_key e)) = UserSet \<and>
      (\<exists>ref\<in>set refs. rr_type ref = GetType (tk_user (e_key e)) \<and> rr_GetRelation ref = Tuples.GetRelation (tk_user (e_key e)))"
    if e: "e \<in> set ts" for e
  proof -
    have valid: "valid_key (e_key e)" using ts e by (simp add: represents_def valid_entry_def)
    then have vu: "IsValidUser (tk_user (e_key e))" by (simp add: valid_key_def)
    have user_type: "cell (row_of S e) ''user_type'' = Text (UserType_String UserSet) \<longleftrightarrow> GetUserTypeFromUser (tk_user (e_key e)) = UserSet"
      by (cases "GetUserTypeFromUser (tk_user (e_key e))") (simp_all add: user_parts.row_cells [OF uc(1)] UserType_String_def)
    have "list_ex (holds now (row_of S e)) (concat (map parts_conditions refs)) \<longleftrightarrow>
        (\<exists>ref\<in>set refs. rr_type ref = GetType (tk_user (e_key e)) \<and> rr_GetRelation ref = Tuples.GetRelation (tk_user (e_key e)))"
      if ut: "GetUserTypeFromUser (tk_user (e_key e)) = UserSet"
      using ob(4) parts_of_user [OF vu ut _ sqlite_cells [OF uc(1)]] by (auto simp: list_ex_iff)
    with user_parts.object_holds [OF uc(1) ob(1) valid] user_type ob(2,3) ne show ?thesis
      by (auto simp: q usersets_select_def select_simps holds_Eq_cells user_parts.row_cells(1,4) [OF uc(1)])
  qed
  then have "{e \<in> set ts. \<forall>p\<in>set (q_where q). holds now (row_of S e) p} =
      {e \<in> set ts. e_store e = store \<and> tk_object (e_key e) = ob \<and> tk_relation (e_key e) = rel \<and>
        GetUserTypeFromUser (tk_user (e_key e)) = UserSet \<and>
        (\<exists>ref\<in>set refs. rr_type ref = GetType (tk_user (e_key e)) \<and> rr_GetRelation ref = Tuples.GetRelation (tk_user (e_key e)))}"
    by blast
  moreover have "usersets_of refs ob rel (entry_keys ts store) = entry_key ` \<dots>"
    unfolding usersets_of_def entry_keys_def filter_image by (simp add: conj_assoc)
  ultimately show ?thesis
    using user_parts.select_contents [OF uc(1,2) _ _ _ _ form, unfolded uc, OF P E ts] by simp
qed

lemma sqlite_reader_contract:
  assumes P: "proto_laws P" and E: "conforming sqlite_keys violation now E tbl" "available violation E"
    and ts: "represents (sqlite E P db) (tbl db) ts"
  shows "unique_reader (sqlite_reader (sqlite E P db)) (sql_contents (sqlite E P db)) (sql_invar (sqlite E P db)) (entry_keys ts)"
proof (intro unique_reader.intro tuple_reader.intro unique_reader_axioms.intro)
  let ?S = "sqlite E P db"
  have S: "cn_user ?S = sqlite_user_cells" "cn_scan_user ?S = sqlite_scan_user" "cn_proto ?S = P" "cn_engine ?S = E" "cn_db ?S = db"
    "cn_handle ?S ErrNoRows None = ErrNotFound"
    by (simp_all add: sqlite_def sqlite_HandleSQLError_def)
  show "iterator (ds_Iterator (sqlite_reader ?S)) (sql_contents ?S) (sql_invar ?S)"
    using sql_iterator [of violation ?S] E(2) by (simp add: S sqlite_reader_def sqlite_TupleIterator_def)
  fix store
  show "sql_invar ?S s \<and> t_key ` set (sql_contents ?S s) = {k \<in> entry_keys ts store. tk_object k = ob \<and> tk_relation k = rel}"
    if "IsValidObject ob" "rel \<noteq> []" "ds_Read (sqlite_reader ?S) store (NewTupleKey ob rel []) = Inr s" for ob rel s
  proof -
    have "s = NewSQLTupleIterator (read_select ?S store (NewTupleKey ob rel []) None)"
      using that(3) by (simp add: sqlite_reader_def sqlite_Read_def sqlite_read_def)
    then show ?thesis
      using user_parts.read_contents [OF S(1,2), of violation now tbl ts ob rel store] P E ts that(1,2) by (simp add: S)
  qed
  note user = user_parts.user_tuple_laws [OF S(1,2) _ S(6), of violation now tbl ts, unfolded S, OF P E ts]
  show "t_key tup \<in> entry_keys ts store \<and> same_id (t_key tup) tk"
    if "IsValidObject (tk_object tk)" "tk_relation tk \<noteq> []" "wf_user (tk_user tk)" "ds_ReadUserTuple (sqlite_reader ?S) store tk = Inr tup"
    for tk tup
    using user [OF that(1-3), of store] that(4)
    by (auto simp: sqlite_reader_def sqlite_ReadUserTuple_def entry_keys_def entry_id_def tk_id_def same_id_def entry_key_def)
  show "\<not> same_id k tk"
    if "IsValidObject (tk_object tk)" "tk_relation tk \<noteq> []" "wf_user (tk_user tk)" "ds_ReadUserTuple (sqlite_reader ?S) store tk = Inl e"
      "errors_Is e ErrNotFound" "k \<in> entry_keys ts store" for tk e k
    using user [OF that(1-3), of store] that(4,6)
    by (auto simp: sqlite_reader_def sqlite_ReadUserTuple_def entry_keys_def entry_id_def tk_id_def same_id_def entry_key_def)
  show "sql_invar ?S s \<and> t_key ` set (sql_contents ?S s) =
      {k \<in> entry_keys ts store. tk_object k = ob \<and> tk_relation k = rel \<and> GetUserTypeFromUser (tk_user k) = UserSet \<and>
         (\<exists>ref\<in>set refs. rr_type ref = GetType (tk_user k) \<and> rr_GetRelation ref = Tuples.GetRelation (tk_user k))}"
    if "IsValidObject ob" "rel \<noteq> []" "refs \<noteq> []" "\<forall>ref\<in>set refs. userset_ref ref"
      "ds_ReadUsersetTuples (sqlite_reader ?S) store
        \<lparr>ruf_Object = ob, ruf_Relation = rel, ruf_AllowedUserTypeRestrictions = refs\<rparr> = Inr s" for ob rel refs s
    using usersets_contents [OF refl P E ts that(1-4) refl, of store] that(5)
    by (auto simp: sqlite_reader_def sqlite_ReadUsersetTuples_def usersets_of_def)
  show "k = k'" if kk: "k \<in> entry_keys ts store" "k' \<in> entry_keys ts store" "same_id k k'" for k k'
  proof -
    obtain e e' where e: "e \<in> set ts" "e_store e = store" "k = entry_key e" "e' \<in> set ts" "e_store e' = store" "k' = entry_key e'"
      using kk(1,2) by (auto simp: entry_keys_def)
    then have "entry_id e = entry_id e'" using kk(3) by (simp add: entry_id_def tk_id_def same_id_def entry_key_def)
    with e ts have "e = e'" by (auto simp: represents_def distinct_map inj_on_def)
    with e show ?thesis by simp
  qed
qed

end
