(* ===== verification/SqlProperties.thy ===== *)
theory SqlProperties
  imports SqlReader
begin

text \<open>
  The properties of the SQL datastores: writing refines the abstract write over MySQL and, with a database that is
  busy for a while, over SQLite; a check over SQLite is correct; and where the datastores differ from one another.
  The examples use a database that holds its tables as lists.
\<close>

section \<open>Retries\<close>

text \<open>A call that is retried while the database is busy: the first answer that is not that it is busy.\<close>

definition settles_at :: "nat \<Rightarrow> (nat \<Rightarrow> (sql_err, 'a) result) \<Rightarrow> bool" where
  "settles_at k fn \<longleftrightarrow>
     k \<le> maxRetries \<and> (\<forall>j<k. case fn j of Inl e \<Rightarrow> isBusyError e | Inr _ \<Rightarrow> False) \<and>
     (case fn k of Inl e \<Rightarrow> \<not> isBusyError e | Inr _ \<Rightarrow> True)"

lemma retry_loop_settles:
  assumes "k \<le> remaining" and "\<forall>j<k. case fn (retries + j) of Inl e \<Rightarrow> isBusyError e | Inr _ \<Rightarrow> False"
    and "case fn (retries + k) of Inl e \<Rightarrow> \<not> isBusyError e | Inr _ \<Rightarrow> True"
  shows "retry_loop remaining retries fn = fn (retries + k)"
  using assms
proof (induction k arbitrary: remaining retries)
  case 0
  then show ?case by (cases remaining) (auto split: sum.splits)
next
  case (Suc k)
  from Suc.prems(1) obtain r where r: "remaining = Suc r" "k \<le> r" by (cases remaining) auto
  have "case fn (retries + 0) of Inl e \<Rightarrow> isBusyError e | Inr _ \<Rightarrow> False" using Suc.prems(2) by blast
  then obtain e where e: "fn retries = Inl e" "isBusyError e" by (cases "fn retries") auto
  have "retry_loop r (retries + 1) fn = fn (retries + 1 + k)"
  proof (rule Suc.IH [OF r(2)])
    show "\<forall>j<k. case fn (retries + 1 + j) of Inl e \<Rightarrow> isBusyError e | Inr _ \<Rightarrow> False"
    proof (intro allI impI)
      fix j assume "j < k"
      then have "case fn (retries + Suc j) of Inl e \<Rightarrow> isBusyError e | Inr _ \<Rightarrow> False" using Suc.prems(2) by blast
      then show "case fn (retries + 1 + j) of Inl e \<Rightarrow> isBusyError e | Inr _ \<Rightarrow> False" by simp
    qed
    show "case fn (retries + 1 + k) of Inl e \<Rightarrow> \<not> isBusyError e | Inr _ \<Rightarrow> True" using Suc.prems(3) by simp
  qed
  with r e show ?case by simp
qed

lemma busyRetry_settles: "settles_at k fn \<Longrightarrow> busyRetry fn = fn k"
  using retry_loop_settles [of k maxRetries fn 0] by (simp add: settles_at_def busyRetry_def)

lemma retry_loop_result:
  "(\<exists>k. retry_loop remaining retries fn = fn k) \<or> (\<exists>m e. retry_loop remaining retries fn = Inl (DriverError m e))"
proof (induction remaining arbitrary: retries)
  case 0
  then show ?case by (cases "fn retries") (auto intro: exI [of _ retries])
next
  case (Suc remaining)
  show ?case
  proof (cases "\<exists>e. fn retries = Inl e \<and> isBusyError e")
    case True
    then have "retry_loop (Suc remaining) retries fn = retry_loop remaining (retries + 1) fn" by auto
    with Suc.IH [of "retries + 1"] show ?thesis by simp
  next
    case False
    then have "retry_loop (Suc remaining) retries fn = fn retries" by (auto split: sum.splits)
    then show ?thesis by blast
  qed
qed

lemma busyRetry_cases:
  obtains k where "busyRetry fn = fn k" | m e where "busyRetry fn = Inl (DriverError m e)"
  using retry_loop_result [of maxRetries 0 fn] unfolding busyRetry_def by blast

definition sqlite_violation :: "sql_err \<Rightarrow> bool" where
  "sqlite_violation e = (case e of SQLiteError code \<Rightarrow> code mod 256 = SQLITE_CONSTRAINT | _ \<Rightarrow> False)"

text \<open>A busy database is conforming with the retries as well; it is available if every call settles.\<close>

lemma conforming_retrying:
  assumes "conforming keys sqlite_violation now E tbl"
  shows "conforming keys sqlite_violation now (retrying E) tbl"
proof -
  have final: "fault sqlite_violation (DriverError m e)" "\<not> sqlite_violation (DriverError m e)" for m e
    by (simp_all add: fault_def sqlite_violation_def)
  have begins: "case busyRetry (\<lambda>k. en_Begin E k db) of Inl e \<Rightarrow> fault sqlite_violation e | Inr tx \<Rightarrow> tbl tx = tbl db" for db
  proof (cases rule: busyRetry_cases [of "\<lambda>k. en_Begin E k db"])
    case (1 k)
    show ?thesis using assms unfolding conforming_def 1 by blast
  qed (simp add: final)
  have commits: "case busyRetry (\<lambda>k. en_Commit E k db) of Inl e \<Rightarrow> fault sqlite_violation e | Inr db' \<Rightarrow> tbl db' = tbl db" for db
  proof (cases rule: busyRetry_cases [of "\<lambda>k. en_Commit E k db"])
    case (1 k)
    show ?thesis using assms unfolding conforming_def 1 by blast
  qed (simp add: final)
  have execs: "case busyRetry (\<lambda>k. en_Exec E k db stmt) of
        Inl e \<Rightarrow> (if sqlite_violation e then exec_stmt keys now (tbl db) stmt = None else e \<noteq> ErrNoRows)
      | Inr (n, rs, db') \<Rightarrow>
          (\<exists>m. exec_stmt keys now (tbl db) stmt = Some (m, rs, tbl db') \<and> (case n of Inl e \<Rightarrow> fault sqlite_violation e | Inr n \<Rightarrow> n = m))"
    for db stmt
  proof (cases rule: busyRetry_cases [of "\<lambda>k. en_Exec E k db stmt"])
    case (1 k)
    show ?thesis using assms unfolding conforming_def 1 by blast
  qed (simp add: final)
  from assms begins commits execs show ?thesis
    unfolding conforming_def retrying_def by simp
qed

text \<open>A transaction can be committed once only: after a failed commit, further calls fail whatever the database does.\<close>

definition patient :: "'db engine \<Rightarrow> bool" where
  "patient E \<longleftrightarrow>
     (\<forall>db q. case en_Query E 0 db q of Inl e \<Rightarrow> False | Inr (rs, e) \<Rightarrow> e = None) \<and>
     (\<forall>db. \<exists>k. settles_at k (\<lambda>k. en_Begin E k db) \<and> \<not> isl (en_Begin E k db)) \<and>
     (\<forall>db. \<not> isl (en_Commit E 0 db)) \<and>
     (\<forall>db stmt. \<exists>k. settles_at k (\<lambda>k. en_Exec E k db stmt) \<and>
        (case en_Exec E k db stmt of Inl e \<Rightarrow> sqlite_violation e | Inr (n, _) \<Rightarrow> \<not> isl n))"

lemma available_retrying:
  assumes "patient E"
  shows "available sqlite_violation (retrying E)"
proof -
  have "\<not> isl (busyRetry (\<lambda>k. en_Begin E k db))" for db
  proof -
    obtain k where "settles_at k (\<lambda>k. en_Begin E k db)" "\<not> isl (en_Begin E k db)" using assms unfolding patient_def by blast
    then show ?thesis by (simp add: busyRetry_settles)
  qed
  moreover have "\<not> isl (busyRetry (\<lambda>k. en_Commit E k db))" for db
  proof -
    have ok: "\<not> isl (en_Commit E 0 db)" using assms unfolding patient_def by blast
    then have "settles_at 0 (\<lambda>k. en_Commit E k db)" by (cases "en_Commit E 0 db") (simp_all add: settles_at_def)
    with ok show ?thesis by (simp add: busyRetry_settles)
  qed
  moreover have "case busyRetry (\<lambda>k. en_Exec E k db stmt) of Inl e \<Rightarrow> sqlite_violation e | Inr (n, _) \<Rightarrow> \<not> isl n" for db stmt
  proof -
    obtain k where "settles_at k (\<lambda>k. en_Exec E k db stmt)"
      "case en_Exec E k db stmt of Inl e \<Rightarrow> sqlite_violation e | Inr (n, _) \<Rightarrow> \<not> isl n"
      using assms unfolding patient_def by blast
    then show ?thesis by (simp add: busyRetry_settles)
  qed
  ultimately show ?thesis using assms by (simp add: available_def retrying_def patient_def)
qed

section \<open>A database of lists\<close>

text \<open>Every statement, and every begin of a transaction, is answered \<^verbatim>\<open>SQLITE_BUSY\<close> for a number of attempts.\<close>

definition ordered_rows :: "(string \<times> bool) option \<Rightarrow> row list \<Rightarrow> row list" where
  "ordered_rows ord rs =
     (case ord of
        None \<Rightarrow> rs
      | Some (c, desc) \<Rightarrow> (let rs = sort_key (\<lambda>r. cell r c) rs in if desc then rev rs else rs))"

definition table_engine :: "(string \<Rightarrow> string list list) \<Rightarrow> sql_err \<Rightarrow> int \<Rightarrow> nat \<Rightarrow> tables engine" where
  "table_engine keys violated now attempts =
     \<lparr>en_Query = (\<lambda>_ db q. Inr (limited (q_limit q) (ordered_rows (q_order q) (selected now db q)), None)),
      en_Begin = (\<lambda>k db. if k < attempts then Inl (SQLiteError 5) else Inr db),
      en_Exec = (\<lambda>k db stmt.
        if k < attempts then Inl (SQLiteError 5)
        else case exec_stmt keys now db stmt of None \<Rightarrow> Inl violated | Some (m, rs, db') \<Rightarrow> Inr (Inr m, rs, db')),
      en_Commit = (\<lambda>k db. if k = 0 then Inr db else Inl (DriverError ''sql: transaction has already been committed or rolled back'' ErrTransactionalWriteFailed))\<rparr>"

lemma ordered_rows_facts: "mset (ordered_rows ord rs) = mset rs" "row_order ord (ordered_rows ord rs)"
proof -
  show "mset (ordered_rows ord rs) = mset rs"
    by (auto simp: ordered_rows_def Let_def split: option.splits)
  have "sorted_wrt (\<lambda>r r'. cell r c \<le> cell r' c) (sort_key (\<lambda>r. cell r c) rs)" for c
    using sorted_sort_key [of "\<lambda>r. cell r c" rs] by (simp add: sorted_map)
  then show "row_order ord (ordered_rows ord rs)"
    by (auto simp: row_order_def ordered_rows_def Let_def sorted_wrt_rev split: option.splits)
qed

lemma table_engine_conforming:
  assumes "violation e" and "\<not> violation (SQLiteError 5)" and "\<And>m c. \<not> violation (DriverError m c)"
  shows "conforming keys violation now (table_engine keys e now n) (\<lambda>db. db)"
proof -
  have "sql_answers now db q (limited (q_limit q) (ordered_rows (q_order q) (selected now db q)))" for db q
    unfolding sql_answers_def using ordered_rows_facts by metis
  then show ?thesis
    using assms by (auto simp: conforming_def table_engine_def fault_def split: option.splits)
qed

lemma table_engine_available: "violation e \<Longrightarrow> available violation (table_engine keys e now 0)"
  by (auto simp: available_def table_engine_def split: option.splits)

lemma table_engine_patient:
  assumes "n \<le> maxRetries" and "sqlite_violation e" and "\<not> isBusyError e"
  shows "patient (table_engine keys e now n)"
proof -
  have busy: "isBusyError (SQLiteError 5)" by code_simp
  have "settles_at n (\<lambda>k. en_Begin (table_engine keys e now n) k db)"
    "settles_at n (\<lambda>k. en_Exec (table_engine keys e now n) k db stmt)" for db stmt
    using assms busy by (auto simp: settles_at_def table_engine_def split: option.splits)
  moreover have "\<not> isl (en_Begin (table_engine keys e now n) n db)" "\<not> isl (en_Commit (table_engine keys e now n) 0 db)"
    "case en_Exec (table_engine keys e now n) n db stmt of Inl e \<Rightarrow> sqlite_violation e | Inr (m, _) \<Rightarrow> \<not> isl m" for db stmt
    using assms by (auto simp: table_engine_def split: option.splits)
  moreover have "case en_Query (table_engine keys e now n) 0 db q of Inl e \<Rightarrow> False | Inr (rs, e) \<Rightarrow> e = None" for db q
    by (simp add: table_engine_def)
  ultimately show ?thesis unfolding patient_def by blast
qed

text \<open>Serialization of the empty struct only.\<close>

definition empty_proto :: proto where
  "empty_proto =
     \<lparr>pb_MarshalStruct = (\<lambda>s. if s = [] then Inr [] else Inl (SyntaxError ''struct'')),
      pb_UnmarshalStruct = (\<lambda>b. if b = [] then Inr [] else Inl (SyntaxError ''struct'')),
      pb_MarshalModel = (\<lambda>_. Inl (SyntaxError ''model'')), pb_UnmarshalModel = (\<lambda>_. Inl (SyntaxError ''model'')),
      pb_UnmarshalTypeDef = (\<lambda>_. Inl (SyntaxError ''type'')),
      pb_MarshalAssertions = (\<lambda>_. Inl (SyntaxError ''assertions'')), pb_UnmarshalAssertions = (\<lambda>_. Inl (SyntaxError ''assertions''))\<rparr>"

lemma empty_proto_laws: "proto_laws empty_proto"
  by (auto simp: proto_laws_def empty_proto_def split: if_splits)

section \<open>Writing\<close>

lemma with_retries_sqlite: "with_retries (sqlite E P db) = sqlite (retrying E) P db"
  by (simp add: with_retries_def sqlite_def)

lemma row_of_sqlite: "row_of (sqlite E P db) = row_of (sqlite E' P' db')"
  by (rule ext) (simp add: row_of_def tuple_row_def key_cells_def sqlite_def)

lemma represents_sqlite: "represents (sqlite E P db) tabs ts \<longleftrightarrow> represents (sqlite E' P db') tabs ts"
  using row_of_sqlite [of E P db E' P db'] by (simp add: represents_def) (simp add: sqlite_def)

lemma log_rows_sqlite: "log_rows (sqlite E P db) store ulid_at ds ws = log_rows (sqlite E' P db') store ulid_at ds ws"
  by (simp add: log_rows_def delete_row_def write_row_def changelog_row_def key_cells_def sqlite_def)

text \<open>
  C10: writing to SQLite refines an abstract write. Over a database that answers as SQL promises, with the keys of the
  migrations, and that is busy for at most ten attempts of each statement, \<^verbatim>\<open>write\<close> succeeds exactly when every deleted
  tuple is there (after the deletions before it) and no written tuple is (after all deletions and the writes before it). It then
  gives a table that represents exactly the abstract map after the deletions and the writes, leaves other stores as they were, and
  appends one row for every deletion and every write, in order, to the change log. Otherwise it reports an invalid write.
\<close>

theorem sqlite_write_refines:
  assumes "conforming sqlite_keys sqlite_violation now E tbl" and "patient E"
    and "represents (sqlite E P db) (tbl db) ts"
    and "inj ulid_at" and "\<forall>j. ulid_at j \<notin> e_ulid ` set ts"
    and "\<forall>j. \<forall>r\<in>set (tbl db ''changelog''). cell r ''ulid'' \<noteq> Text (ulid_at j)"
    and "\<forall>d\<in>set deletes. valid_key d" and "\<forall>w\<in>set writes. valid_write P w"
  shows "case sqlite_write (sqlite E P db) ulid_at store deletes writes of
      Inl e \<Rightarrow> errors_Is e ErrInvalidWriteInput \<and> spec_write (abs_entries ts store) deletes writes = None
    | Inr db' \<Rightarrow>
        tbl db' ''changelog'' =
          tbl db ''changelog'' @ map (evaluated now) (log_rows (sqlite E P db) store ulid_at deletes writes) \<and>
        (\<exists>ts'. represents (sqlite E P db') (tbl db') ts' \<and>
           spec_write (abs_entries ts store) deletes writes = Some (abs_entries ts' store) \<and>
           (\<forall>other. other \<noteq> store \<longrightarrow> abs_entries ts' other = abs_entries ts other))"
proof -
  let ?S = "sqlite (retrying E) P db"
  have S: "cn_engine ?S = retrying E" "cn_user ?S = sqlite_user_cells" "cn_db ?S = db" "cn_proto ?S = P"
    "\<And>e tk. sqlite_violation e \<Longrightarrow> errors_Is (cn_handle ?S e (Some tk)) ErrInvalidWriteInput"
    by (auto simp: sqlite_def sqlite_HandleSQLError_def sqlite_violation_def split: sql_err.splits)
  note laws = conforming_retrying [OF assms(1)] available_retrying [OF assms(2)]
  have rep: "represents ?S (tbl db) ts" by (rule iffD1 [OF represents_sqlite assms(3)])
  have eqs: "represents (sqlite E P db') tabs ts' \<longleftrightarrow> represents ?S tabs ts'"
    "log_rows (sqlite E P db) store ulid_at deletes writes = log_rows ?S store ulid_at deletes writes" for db' tabs ts'
    by (rule represents_sqlite, rule log_rows_sqlite)
  from user_parts.sql_Write_refines [of sqlite_violation now ?S tbl ulid_at ts deletes writes store, unfolded S(1,3,4),
      OF laws S(2,5) assms(4,5,6) rep assms(7,8)]
  show ?thesis
    unfolding sqlite_write_def with_retries_sqlite eqs .
qed

text \<open>
  Tables with one tuple; the written tuples and the deleted one. The database is busy for the first three attempts of
  every call.
\<close>

definition first_entry :: entry where
  "first_entry = \<lparr>e_store = ''s'', e_key = NewTupleKey ''doc:9'' ''viewer'' ''group:g#member'', e_cond = ([], None), e_ulid = ''first'', e_at = 0\<rparr>"

definition busy_database :: "tables engine" where
  "busy_database = table_engine sqlite_keys (SQLiteError 2067) 7 3"

definition first_tables :: tables where
  "first_tables = (\<lambda>t. if t = ''tuple'' then [row_of (sqlite busy_database empty_proto (\<lambda>_. [])) first_entry] else [])"

abbreviation first_store :: "tables conn" where
  "first_store \<equiv> sqlite busy_database empty_proto first_tables"

definition first_delete :: tuple_key_nc where
  "first_delete = \<lparr>tk_object = ''doc:9'', tk_relation = ''viewer'', tk_user = ''group:g#member''\<rparr>"

lemma busy_database_laws:
  "conforming sqlite_keys sqlite_violation 7 busy_database (\<lambda>db. db)" "patient busy_database"
proof -
  have "sqlite_violation (SQLiteError 2067)" "\<not> sqlite_violation (SQLiteError 5)" "\<not> isBusyError (SQLiteError 2067)" "3 \<le> maxRetries"
    by code_simp+
  moreover have "\<not> sqlite_violation (DriverError m c)" for m c by (simp add: sqlite_violation_def)
  ultimately show "conforming sqlite_keys sqlite_violation 7 busy_database (\<lambda>db. db)" "patient busy_database"
    unfolding busy_database_def by (simp_all add: table_engine_conforming table_engine_patient)
qed

lemma first_tables_represent: "represents first_store first_tables [first_entry]"
proof -
  have "first_tables ''tuple'' = map (row_of first_store) [first_entry]"
    unfolding row_of_sqlite [of busy_database empty_proto first_tables busy_database empty_proto "\<lambda>_. []"]
    by (simp add: first_tables_def)
  moreover have "valid_entry empty_proto first_entry" by code_simp
  ultimately show ?thesis by (simp add: represents_def) (simp add: sqlite_def)
qed

theorem sqlite_write_refines_witness:
  "\<exists>db' ts'. sqlite_write first_store utoa ''s'' [first_delete] sharing_tuples = Inr db' \<and>
     represents (sqlite busy_database empty_proto db') db' ts' \<and>
     spec_write (abs_entries [first_entry] ''s'') [first_delete] sharing_tuples = Some (abs_entries ts' ''s'')"
proof -
  have ok: "\<not> isl (sqlite_write first_store utoa ''s'' [first_delete] sharing_tuples)" by code_simp
  have "inj utoa" by (metis atou_utoa injI option.inject)
  moreover have "atou 0 (e_ulid first_entry) = None" by code_simp
  then have "\<forall>j. utoa j \<notin> e_ulid ` set [first_entry]" by (metis atou_utoa empty_iff empty_set imageE list.set_cases option.distinct(1) set_ConsD)
  moreover have "\<forall>j. \<forall>r\<in>set (first_tables ''changelog''). cell r ''ulid'' \<noteq> Text (utoa j)" by (simp add: first_tables_def)
  moreover have "\<forall>d\<in>set [first_delete]. valid_key d" "\<forall>w\<in>set sharing_tuples. valid_write empty_proto w" by code_simp+
  ultimately show ?thesis
    using ok sqlite_write_refines [OF busy_database_laws first_tables_represent, of utoa "[first_delete]" sharing_tuples "''s''"]
    by (auto split: sum.splits)
qed

text \<open>MySQL and PostgreSQL share the code; a violated key is reported as an invalid write.\<close>

definition mysql_violation :: "sql_err \<Rightarrow> bool" where
  "mysql_violation e \<longleftrightarrow> e = MySQLError 1062"

definition postgres_violation :: "sql_err \<Rightarrow> bool" where
  "postgres_violation e = (case e of DriverError m _ \<Rightarrow> Contains m ''duplicate key value'' | _ \<Rightarrow> False)"

lemma represents_cong:
  assumes "cn_user S = cn_user S'" and "cn_proto S = cn_proto S'"
  shows "represents S tabs ts \<longleftrightarrow> represents S' tabs ts"
proof -
  have "row_of S = row_of S'" using assms by (auto simp: row_of_def tuple_row_def key_cells_def)
  with assms show ?thesis by (simp add: represents_def)
qed


definition mysql_database :: "tables engine" where
  "mysql_database = table_engine sql_keys (MySQLError 1062) 7 0"

abbreviation mysql_store :: "tables conn" where
  "mysql_store \<equiv> mysql mysql_database empty_proto (\<lambda>_. [])"

lemma mysql_database_laws:
  "conforming sql_keys mysql_violation 7 mysql_database (\<lambda>db. db)" "available mysql_violation mysql_database"
  by (simp_all add: mysql_database_def mysql_violation_def table_engine_conforming table_engine_available)


section \<open>Checks over SQLite\<close>

lemma sqlite_checker:
  assumes "conforming sqlite_keys sqlite_violation now E tbl" and "available sqlite_violation E" and "proto_laws P"
    and "represents (sqlite E P db) (tbl db) ts" and "ck_ds ck = sqlite_reader (sqlite E P db)" and "ck_ctx ck = Live"
    and "\<forall>k\<in>entry_keys ts (rq_StoreID req). wf_tuple k" and "wf_model (ck_typesys ck)" and "graph_complete (ck_typesys ck)"
  shows "complete_checker (sqlite_reader (sqlite E P db)) (sql_contents (sqlite E P db)) (sql_invar (sqlite E P db)) (entry_keys ts) ck req"
proof -
  note rd = sqlite_reader_contract [OF assms(3,1,2,4)]
  have "checker (sqlite_reader (sqlite E P db)) (sql_contents (sqlite E P db)) (sql_invar (sqlite E P db)) (entry_keys ts) ck req"
    using assms(5-8) by (intro checker.intro [OF unique_reader.axioms(1) [OF rd]] checker_axioms.intro) auto
  then show ?thesis
    using unique_reader.unique [OF rd] assms(9) by (intro complete_checker.intro complete_checker_axioms.intro) auto
qed


definition sharing_entries :: "entry list" where
  "sharing_entries =
     map (\<lambda>(j, k). \<lparr>e_store = ''s'', e_key = k, e_cond = ([], None), e_ulid = utoa j, e_at = 0\<rparr>) (enumerate 0 sharing_tuples)"

definition sqlite_database :: "tables engine" where
  "sqlite_database = table_engine sqlite_keys (SQLiteError 2067) 7 0"

definition sharing_tables :: tables where
  "sharing_tables = (\<lambda>t. if t = ''tuple'' then map (row_of (sqlite sqlite_database empty_proto (\<lambda>_. []))) sharing_entries else [])"

abbreviation sharing_store :: "tables conn" where
  "sharing_store \<equiv> sqlite sqlite_database empty_proto sharing_tables"

definition sqlite_sharing_checker :: "(SQLTupleIterator, (string \<times> native) list) LocalChecker" where
  "sqlite_sharing_checker =
     \<lparr>ck_maxResolutionDepth = 25, ck_ctx = Live, ck_typesys = sharing_types, ck_ds = sqlite_reader sharing_store,
      ck_stdlib = example_stdlib, ck_cel = example_cel,
      ck_checkUsersetFastPathV2 = (\<lambda>_ _. None), ck_recursiveUsersetFastPathV2 = (\<lambda>_ _. None),
      ck_checkTTUFastPathV2 = (\<lambda>_ _ _. None), ck_recursiveTTUFastPathV2 = (\<lambda>_ _ _. None)\<rparr>"

lemma sqlite_database_laws:
  "conforming sqlite_keys sqlite_violation 7 sqlite_database (\<lambda>db. db)" "available sqlite_violation sqlite_database"
proof -
  have "sqlite_violation (SQLiteError 2067)" "\<not> sqlite_violation (SQLiteError 5)" by code_simp+
  moreover have "\<not> sqlite_violation (DriverError m c)" for m c by (simp add: sqlite_violation_def)
  ultimately show "conforming sqlite_keys sqlite_violation 7 sqlite_database (\<lambda>db. db)" "available sqlite_violation sqlite_database"
    unfolding sqlite_database_def by (simp_all add: table_engine_conforming table_engine_available)
qed

lemma sharing_tables_represent: "represents sharing_store sharing_tables sharing_entries"
proof -
  have "sharing_tables ''tuple'' = map (row_of sharing_store) sharing_entries"
    unfolding row_of_sqlite [of sqlite_database empty_proto sharing_tables sqlite_database empty_proto "\<lambda>_. []"]
    by (simp add: sharing_tables_def)
  moreover have "\<forall>e\<in>set sharing_entries. valid_entry empty_proto e" "distinct (map entry_id sharing_entries)"
    "distinct (map e_ulid sharing_entries)"
    by code_simp+
  ultimately show ?thesis by (simp add: represents_def) (simp add: sqlite_def)
qed


section \<open>Differences between the datastores\<close>

definition document_tuples :: "tuple_key list" where
  "document_tuples =
     [NewTupleKey ''doc:1'' ''viewer'' ''group:g#can_view'', NewTupleKey ''doc:1'' ''viewer'' ''group:g#can-view'',
      NewTupleKey ''doc:2'' ''viewer'' ''group:g'']"

definition sqlite_documents :: "tables conn" where
  "sqlite_documents = (let S = sqlite sqlite_database empty_proto (\<lambda>_. []) in S\<lparr>cn_db := projr (sqlite_write S utoa ''s'' [] document_tuples)\<rparr>)"

definition mysql_documents :: "tables conn" where
  "mysql_documents = mysql_store\<lparr>cn_db := projr (mysql_Write mysql_store utoa ''s'' [] document_tuples)\<rparr>"

definition viewers_of_type :: ReadUsersetTuplesFilter where
  "viewers_of_type =
     \<lparr>ruf_Object = ''doc:1'', ruf_Relation = ''viewer'', ruf_AllowedUserTypeRestrictions = [DirectRelationReference ''group'' ''can_view'']\<rparr>"

definition viewed_by_group :: ReadStartingWithUserFilter where
  "viewed_by_group =
     \<lparr>rsf_ObjectType = ''doc'', rsf_Relation = ''viewer'', rsf_UserFilter = [(''group:g'', [])],
      rsf_ObjectIDs = None\<rparr>"

text \<open>
  C12: after the same writes the datastores give different answers to the same filters. The tuples of the users
  \<^verbatim>\<open>group#can_view\<close>: SQLite gives these, MySQL also gives those of \<^verbatim>\<open>group#can-view\<close>, since it uses the names in a \<^verbatim>\<open>LIKE\<close> pattern, in
  which an underscore stands for any character. The tuples of the user \<^verbatim>\<open>group:g\<close>: MySQL gives these, SQLite also gives those
  of the usersets of that group, since it leaves out the condition on the relation.
\<close>

theorem sql_datastores_differ:
  "map (tk_user \<circ> t_key) (sql_contents sqlite_documents (projr (sqlite_ReadUsersetTuples sqlite_documents ''s'' viewers_of_type))) =
     [''group:g#can_view''] \<and>
   map (tk_user \<circ> t_key) (sql_contents mysql_documents (projr (mysql_ReadUsersetTuples mysql_documents ''s'' viewers_of_type))) =
     [''group:g#can_view'', ''group:g#can-view''] \<and>
   map (tk_user \<circ> t_key) (sql_contents mysql_documents (projr (mysql_ReadStartingWithUser mysql_documents ''s'' viewed_by_group))) =
     [''group:g''] \<and>
   map (tk_user \<circ> t_key) (sql_contents sqlite_documents (projr (sqlite_ReadStartingWithUser sqlite_documents ''s'' viewed_by_group))) =
     [''group:g#can_view'', ''group:g#can-view'', ''group:g'']"
  by (intro conjI; code_simp)

text \<open>
  C13: PostgreSQL connects to the secondary database as the user, and with the password, of the primary one: with a secondary user
  or password configured, the addresses of both connections do not depend on them.
\<close>

theorem secondary_credentials_ignored:
  assumes "SecondaryUsername cfg \<noteq> [] \<or> SecondaryPassword cfg \<noteq> []" and "username \<noteq> [] \<or> password \<noteq> []"
  shows "postgres_New url_Parse url_String uri (cfg\<lparr>SecondaryUsername := username, SecondaryPassword := password\<rparr>) =
    postgres_New url_Parse url_String uri cfg"
proof -
  let ?cfg = "cfg\<lparr>SecondaryUsername := username, SecondaryPassword := password\<rparr>"
  have f: "Username ?cfg = Username cfg" "Password ?cfg = Password cfg" "SecondaryURI ?cfg = SecondaryURI cfg"
    "SecondaryUsername ?cfg = username" "SecondaryPassword ?cfg = password"
    by simp_all
  have same: "initDB_uri url_Parse url_String u a b ?cfg = initDB_uri url_Parse url_String u a b cfg" for u a b
    unfolding initDB_uri_def f by (rule refl)
  have secondary: "initDB_uri url_Parse url_String u username password cfg =
      initDB_uri url_Parse url_String u (SecondaryUsername cfg) (SecondaryPassword cfg) cfg" for u
    using assms by (simp add: initDB_uri_def)
  show ?thesis unfolding postgres_New_def same f secondary by (rule refl)
qed

text \<open>A parser of addresses without a user, and a printer.\<close>

definition plain_Parse :: "string \<Rightarrow> (err, userinfo option \<times> string) result" where
  "plain_Parse uri = Inr (None, uri)"

definition plain_String :: "userinfo option \<times> string \<Rightarrow> string" where
  "plain_String u =
     (case u of (None, h) \<Rightarrow> h | (Some (n, None), h) \<Rightarrow> n @ ''@'' @ h | (Some (n, Some p), h) \<Rightarrow> n @ '':'' @ p @ ''@'' @ h)"

definition two_databases :: Config where
  "two_databases =
     NewConfig [WithUsername ''writer'', WithPassword ''w'', WithSecondaryURI ''replica'', WithSecondaryUsername ''reader'', WithSecondaryPassword ''r'']"

theorem secondary_credentials_ignored_witness:
  "postgres_New plain_Parse plain_String ''main'' (two_databases\<lparr>SecondaryUsername := ''x'', SecondaryPassword := ''y''\<rparr>) =
     Inr (''writer:w@main'', Some ''writer:w@replica'')"
proof -
  have "SecondaryUsername two_databases \<noteq> []" by code_simp
  then have "postgres_New plain_Parse plain_String ''main'' (two_databases\<lparr>SecondaryUsername := ''x'', SecondaryPassword := ''y''\<rparr>) =
      postgres_New plain_Parse plain_String ''main'' two_databases"
    by (intro secondary_credentials_ignored) simp_all
  also have "\<dots> = Inr (''writer:w@main'', Some ''writer:w@replica'')" by code_simp
  finally show ?thesis .
qed

end
